(* ===== verification/Prelude.thy ===== *)
theory Prelude
  imports "HOL-Library.Word" "HOL-Library.Sublist" "HOL-Library.Multiset"
begin

text \<open>
  What every component of the development shares: the machine integers of the Rust sources,
  errors as values, the state-and-error computations that model functions returning
  \<^verbatim>\<open>anyhow::Result\<close> over an environment, and the parts of the standard library's string
  and number formatting that the sources use. The collection \<open>io_simps\<close> holds the rules
  that take a computation apart.
\<close>

named_theorems io_simps "inversion rules for state-and-error computations"

section \<open>Machine integers\<close>

type_synonym u8 = "8 word"
type_synonym u16 = "16 word"
type_synonym u32 = "32 word"
type_synonym u64 = "64 word"
type_synonym bytes = "u8 list"

text \<open>
  An \<^verbatim>\<open>i64\<close> is an \<open>int\<close>; every operation of the sources that can leave the range of
  \<^verbatim>\<open>i64\<close> passes through \<open>wrap_i64\<close>, the two's complement wrap-around of a release build.
\<close>

definition wrap_i64 :: "int \<Rightarrow> int" where
  "wrap_i64 x = (x + 2 ^ 63) mod 2 ^ 64 - 2 ^ 63"

definition in_i64 :: "int \<Rightarrow> bool" where
  "in_i64 x \<longleftrightarrow> - (2 ^ 63) \<le> x \<and> x < 2 ^ 63"

lemma wrap_i64_id [simp]: "in_i64 x \<Longrightarrow> wrap_i64 x = x"
  by (simp add: wrap_i64_def in_i64_def)

lemma in_i64_wrap [simp]: "in_i64 (wrap_i64 x)"
proof -
  have "0 \<le> (x + 2 ^ 63) mod 2 ^ 64" "(x + 2 ^ 63) mod 2 ^ 64 < (2::int) ^ 64"
    by simp_all
  then show ?thesis by (simp add: wrap_i64_def in_i64_def)
qed

text \<open>The \<^verbatim>\<open>as\<close> casts between integer types: truncation to the width.\<close>

definition i64_as_u32 :: "int \<Rightarrow> u32" where
  "i64_as_u32 x = word_of_int x"

definition u64_as_i64 :: "u64 \<Rightarrow> int" where
  "u64_as_i64 x = wrap_i64 (uint x)"

definition saturating_add_u32 :: "u32 \<Rightarrow> u32 \<Rightarrow> u32" where
  "saturating_add_u32 a b = (if unat a + unat b < 2 ^ 32 then a + b else 4294967295)"

lemma unat_saturating_add_u32:
  "unat (saturating_add_u32 a b) = min (unat a + unat b) (2 ^ 32 - 1)"
proof (cases "unat a + unat b < 2 ^ 32")
  case True
  then show ?thesis by (simp add: saturating_add_u32_def unat_word_ariths)
next
  case False
  then show ?thesis by (simp add: saturating_add_u32_def)
qed

section \<open>Errors and results\<close>

text \<open>
  An \<^verbatim>\<open>anyhow::Error\<close> is a message or a message put around another error by
  \<^verbatim>\<open>context\<close>; \<^verbatim>\<open>to_string\<close> prints the outermost message. A panic is a value of its own:
  no \<^verbatim>\<open>context\<close> wraps it.
\<close>

datatype error = Msg string | Ctx string error | Panic string

type_synonym 'a result = "error + 'a"

fun err_to_string :: "error \<Rightarrow> string" where
  "err_to_string (Msg m) = m"
| "err_to_string (Ctx m e) = m"
| "err_to_string (Panic m) = m"

fun add_context :: "string \<Rightarrow> error \<Rightarrow> error" where
  "add_context c (Panic m) = Panic m"
| "add_context c e = Ctx c e"

definition with_context :: "string \<Rightarrow> 'a result \<Rightarrow> 'a result" where
  "with_context c r = (case r of Inl e \<Rightarrow> Inl (add_context c e) | Inr a \<Rightarrow> Inr a)"

definition bind_res :: "'a result \<Rightarrow> ('a \<Rightarrow> 'b result) \<Rightarrow> 'b result" where
  "bind_res r f = (case r of Inl e \<Rightarrow> Inl e | Inr a \<Rightarrow> f a)"

lemma with_context_simps [simp]:
  "with_context c (Inr a) = Inr a"
  "with_context c (Inl e) = Inl (add_context c e)"
  by (simp_all add: with_context_def)

lemma with_context_Inr [simp]: "with_context c r = Inr a \<longleftrightarrow> r = Inr a"
  by (simp add: with_context_def split: sum.splits)

lemma with_context_Inl_ex [simp]:
  "(\<exists>e. with_context c r = Inl e) \<longleftrightarrow> (\<exists>e. r = Inl e)"
  by (auto simp: with_context_def split: sum.splits)

lemma bind_res_simps [simp]:
  "bind_res (Inr a) f = f a"
  "bind_res (Inl e) f = Inl e"
  by (simp_all add: bind_res_def)

lemma bind_res_Inr: "bind_res r f = Inr b \<longleftrightarrow> (\<exists>a. r = Inr a \<and> f a = Inr b)"
  by (cases r) simp_all

text \<open>\<^verbatim>\<open>Option::context\<close>: the missing value becomes an error.\<close>

definition ok_or :: "error \<Rightarrow> 'a option \<Rightarrow> 'a result" where
  "ok_or e x = (case x of None \<Rightarrow> Inl e | Some a \<Rightarrow> Inr a)"

lemma ok_or_simps [simp]: "ok_or e None = Inl e" "ok_or e (Some a) = Inr a"
  by (simp_all add: ok_or_def)

lemma ok_or_Inr [simp]: "ok_or e x = Inr a \<longleftrightarrow> x = Some a"
  by (simp add: ok_or_def split: option.splits)

text \<open>
  \<^verbatim>\<open>iter().map(f).collect::<Result<Vec<_>, _>>()\<close>: the first error ends the collection.
\<close>

fun collect_res :: "('a \<Rightarrow> 'b result) \<Rightarrow> 'a list \<Rightarrow> 'b list result" where
  "collect_res f [] = Inr []"
| "collect_res f (x # xs) =
     bind_res (f x) (\<lambda>y. bind_res (collect_res f xs) (\<lambda>ys. Inr (y # ys)))"

lemma collect_res_Inr:
  "collect_res f xs = Inr ys \<longleftrightarrow> list_all2 (\<lambda>x y. f x = Inr y) xs ys"
proof (induction xs arbitrary: ys)
  case Nil
  then show ?case by (cases ys) auto
next
  case (Cons x xs)
  then show ?case by (cases ys) (auto simp: bind_res_Inr)
qed

text \<open>A \<^verbatim>\<open>for\<close> loop of checks: the first error ends it.\<close>

fun check_all :: "('a \<Rightarrow> unit result) \<Rightarrow> 'a list \<Rightarrow> unit result" where
  "check_all f [] = Inr ()"
| "check_all f (x # xs) = bind_res (f x) (\<lambda>_. check_all f xs)"

lemma check_all_Inr: "check_all f xs = Inr () \<longleftrightarrow> (\<forall>x \<in> set xs. f x = Inr ())"
  by (induction xs) (auto simp: bind_res_Inr)

section \<open>Computations over a state\<close>

text \<open>
  A function of the sources that acts on its environment and returns a
  \<^verbatim>\<open>Result\<close> is a function from the state to the result and the state afterwards. The
  state after an error is kept: what was done before an early return stays done.
\<close>

type_synonym ('w, 'a) io = "'w \<Rightarrow> 'a result \<times> 'w"

definition ret :: "'a \<Rightarrow> ('w, 'a) io" where
  "ret a w = (Inr a, w)"

definition fail :: "error \<Rightarrow> ('w, 'a) io" where
  "fail e w = (Inl e, w)"

definition lift_res :: "'a result \<Rightarrow> ('w, 'a) io" where
  "lift_res r w = (r, w)"

text \<open>The question mark operator: run, return early on an error, go on with the value.\<close>

definition and_then :: "('w, 'a) io \<Rightarrow> ('a \<Rightarrow> ('w, 'b) io) \<Rightarrow> ('w, 'b) io" where
  "and_then m f w =
     (case m w of (Inl e, w') \<Rightarrow> (Inl e, w') | (Inr a, w') \<Rightarrow> f a w')"

definition in_context :: "string \<Rightarrow> ('w, 'a) io \<Rightarrow> ('w, 'a) io" where
  "in_context c m w = (case m w of (r, w') \<Rightarrow> (with_context c r, w'))"

definition modify :: "('w \<Rightarrow> 'w) \<Rightarrow> ('w, unit) io" where
  "modify f w = (Inr (), f w)"

definition gets :: "('w \<Rightarrow> 'a) \<Rightarrow> ('w, 'a) io" where
  "gets f w = (Inr (f w), w)"

fun for_each :: "'a list \<Rightarrow> ('a \<Rightarrow> ('w, unit) io) \<Rightarrow> ('w, unit) io" where
  "for_each [] f = ret ()"
| "for_each (x # xs) f = and_then (f x) (\<lambda>_. for_each xs f)"

lemma io_basic [simp]:
  "ret a w = (Inr a, w)"
  "fail e w = (Inl e, w)"
  "lift_res r w = (r, w)"
  "modify g w = (Inr (), g w)"
  "gets h w = (Inr (h w), w)"
  by (simp_all add: ret_def fail_def lift_res_def modify_def gets_def)

lemma and_then_run:
  "m w = (Inr a, w') \<Longrightarrow> and_then m f w = f a w'"
  "m w = (Inl e, w') \<Longrightarrow> and_then m f w = (Inl e, w')"
  by (simp_all add: and_then_def)

lemma and_then_simps [simp]:
  "and_then (ret a) f w = f a w"
  "and_then (fail e) f w = (Inl e, w)"
  "and_then (lift_res (Inr a)) f w = f a w"
  "and_then (lift_res (Inl e)) f w = (Inl e, w)"
  "and_then (modify g) k w = k () (g w)"
  "and_then (gets h) f w = f (h w) w"
  by (simp_all add: and_then_def)

lemma and_then_assoc: "and_then (and_then m f) g = and_then m (\<lambda>a. and_then (f a) g)"
  by (rule ext) (simp add: and_then_def split: prod.splits sum.splits)

lemma and_then_Inr [io_simps]:
  "and_then m f w = (Inr b, w'') \<longleftrightarrow> (\<exists>a w'. m w = (Inr a, w') \<and> f a w' = (Inr b, w''))"
  by (auto simp: and_then_def split: prod.splits sum.splits)

lemma and_then_Inl [io_simps]:
  "and_then m f w = (Inl e, w'') \<longleftrightarrow>
     m w = (Inl e, w'') \<or> (\<exists>a w'. m w = (Inr a, w') \<and> f a w' = (Inl e, w''))"
  by (auto simp: and_then_def split: prod.splits sum.splits)

lemma in_context_Inr [io_simps]: "in_context c m w = (Inr a, w') \<longleftrightarrow> m w = (Inr a, w')"
  by (auto simp: in_context_def split: prod.splits)

lemma in_context_Inl [io_simps]:
  "in_context c m w = (Inl e, w') \<longleftrightarrow> (\<exists>e'. m w = (Inl e', w') \<and> e = add_context c e')"
  by (auto simp: in_context_def with_context_def split: prod.splits sum.splits)

lemma in_context_run:
  "m w = (Inr a, w') \<Longrightarrow> in_context c m w = (Inr a, w')"
  "m w = (Inl e, w') \<Longrightarrow> in_context c m w = (Inl (add_context c e), w')"
  by (simp_all add: in_context_def)

text \<open>
  A relation between the states before and after that is reflexive and transitive holds
  across a loop when it holds across its body, whether the loop ends early or not.
\<close>

lemma for_each_rel:
  assumes body: "\<And>x w. x \<in> set xs \<Longrightarrow> R w (snd (f x w))"
    and refl: "\<And>w. R w w" and trans: "\<And>a b c. R a b \<Longrightarrow> R b c \<Longrightarrow> R a c"
  shows "R w (snd (for_each xs f w))"
  using body
proof (induction xs arbitrary: w)
  case Nil
  then show ?case by (simp add: refl)
next
  case (Cons x xs)
  obtain r w' where fx: "f x w = (r, w')" by force
  with Cons.prems [of x w] have one: "R w w'" by simp
  show ?case
  proof (cases r)
    case (Inl e)
    with fx one show ?thesis by (simp add: and_then_def)
  next
    case (Inr u)
    moreover have "R w' (snd (for_each xs f w'))"
      using Cons by simp
    ultimately show ?thesis using fx one trans by (auto simp: and_then_def)
  qed
qed

lemma and_then_rel:
  assumes "R w (snd (m w))" and "\<And>a w'. m w = (Inr a, w') \<Longrightarrow> R w' (snd (f a w'))"
    and trans: "\<And>a b c. R a b \<Longrightarrow> R b c \<Longrightarrow> R a c"
  shows "R w (snd (and_then m f w))"
  using assms by (auto simp: and_then_def split: prod.splits sum.splits)

lemma in_context_snd [simp]: "snd (in_context c m w) = snd (m w)"
  by (simp add: in_context_def split: prod.splits)

section \<open>Big-endian bytes\<close>

text \<open>\<^verbatim>\<open>to_be_bytes\<close> and \<^verbatim>\<open>from_be_bytes\<close>, for any number of bytes.\<close>

fun be_bytes :: "nat \<Rightarrow> nat \<Rightarrow> bytes" where
  "be_bytes 0 v = []"
| "be_bytes (Suc k) v = be_bytes k (v div 256) @ [of_nat (v mod 256)]"

definition be_value :: "bytes \<Rightarrow> nat" where
  "be_value bs = foldl (\<lambda>a b. a * 256 + unat b) 0 bs"

lemma be_value_snoc [simp]: "be_value (bs @ [b]) = be_value bs * 256 + unat b"
  by (simp add: be_value_def)

lemma length_be_bytes [simp]: "length (be_bytes k v) = k"
  by (induction k arbitrary: v) simp_all

lemma be_value_be_bytes [simp]: "v < 256 ^ k \<Longrightarrow> be_value (be_bytes k v) = v"
proof (induction k arbitrary: v)
  case (Suc k)
  then have "v div 256 < 256 ^ k" by (simp add: less_mult_imp_div_less mult.commute)
  with Suc.IH show ?case by (simp add: unat_of_nat)
qed (simp add: be_value_def)

lemma be_value_less: "be_value bs < 256 ^ length bs"
proof (induction bs rule: rev_induct)
  case (snoc b bs)
  have "unat b < 2 ^ LENGTH(8)" by (rule unsigned_less)
  with snoc show ?case by simp
qed (simp add: be_value_def)

lemma be_bytes_be_value [simp]: "be_bytes (length bs) (be_value bs) = bs"
proof (induction bs rule: rev_induct)
  case (snoc b bs)
  have "unat b < 2 ^ LENGTH(8)" by (rule unsigned_less)
  with snoc show ?case by simp
qed simp

end
