(* ===== verification/Rust_Strings.thy ===== *)
theory Rust_Strings
  imports Prelude
begin

text \<open>
  The string and number formatting functions of Rust's standard library that the sources
  call: \<^verbatim>\<open>str::contains\<close>, \<^verbatim>\<open>str::replace\<close>, \<^verbatim>\<open>str::trim\<close>, \<^verbatim>\<open>trim_start_matches\<close>,
  \<^verbatim>\<open>trim_matches\<close>, and the decimal \<^verbatim>\<open>format!\<close> directives with and without a zero-padded
  width. A \<^verbatim>\<open>String\<close> is its list of bytes; white space is the ASCII white space.
\<close>

section \<open>Searching and replacing\<close>

fun str_contains :: "string \<Rightarrow> string \<Rightarrow> bool" where
  "str_contains [] pat = (pat = [])"
| "str_contains (c # cs) pat = (prefix pat (c # cs) \<or> str_contains cs pat)"

lemma str_contains_iff: "str_contains s pat \<longleftrightarrow> (\<exists>l r. s = l @ pat @ r)"
proof (induction s)
  case Nil
  then show ?case by auto
next
  case (Cons c cs)
  show ?case
  proof
    assume "str_contains (c # cs) pat"
    then consider "prefix pat (c # cs)" | "str_contains cs pat" by auto
    then show "\<exists>l r. c # cs = l @ pat @ r"
    proof cases
      case 1
      then obtain zs where "c # cs = [] @ pat @ zs" by (auto simp: prefix_def)
      then show ?thesis by blast
    next
      case 2
      then obtain l r where "c # cs = (c # l) @ pat @ r" by (auto simp: Cons.IH)
      then show ?thesis by blast
    qed
  next
    assume "\<exists>l r. c # cs = l @ pat @ r"
    then obtain l r where eq: "c # cs = l @ pat @ r" by blast
    show "str_contains (c # cs) pat"
    proof (cases l)
      case Nil
      with eq have "prefix pat (c # cs)" by (metis append_Nil prefixI)
      then show ?thesis by simp
    next
      case (Cons d l')
      with eq have "cs = l' @ pat @ r" by simp
      with Cons.IH have "str_contains cs pat" by blast
      then show ?thesis by simp
    qed
  qed
qed

text \<open>
  \<^verbatim>\<open>s.replace(pat, to)\<close> for a non-empty pattern: occurrences from the left, without overlap,
  the replacement is not searched again.
\<close>

function str_replace :: "string \<Rightarrow> string \<Rightarrow> string \<Rightarrow> string" where
  "str_replace pat to [] = []"
| "str_replace pat to (c # cs) =
     (if pat \<noteq> [] \<and> prefix pat (c # cs)
      then to @ str_replace pat to (drop (length pat) (c # cs))
      else c # str_replace pat to cs)"
  by pat_completeness auto
termination
  by (relation "measure (\<lambda>(pat, to, s). length s)") auto

lemma str_replace_absent: "\<not> str_contains s pat \<Longrightarrow> str_replace pat to s = s"
  by (induction pat to s rule: str_replace.induct) auto

lemma str_replace_prefix:
  "pat \<noteq> [] \<Longrightarrow> str_replace pat to (pat @ s) = to @ str_replace pat to s"
  by (cases pat) simp_all

section \<open>Trimming\<close>

definition is_space :: "char \<Rightarrow> bool" where
  "is_space c \<longleftrightarrow> c \<in> {CHR '' '', CHR 0x09, CHR 0x0A, CHR 0x0B, CHR 0x0C, CHR 0x0D}"

definition trim_start_matches :: "char \<Rightarrow> string \<Rightarrow> string" where
  "trim_start_matches c s = dropWhile (\<lambda>d. d = c) s"

definition trim_end_matches :: "char \<Rightarrow> string \<Rightarrow> string" where
  "trim_end_matches c s = rev (dropWhile (\<lambda>d. d = c) (rev s))"

definition trim_matches :: "char \<Rightarrow> string \<Rightarrow> string" where
  "trim_matches c s = trim_end_matches c (trim_start_matches c s)"

definition trim :: "string \<Rightarrow> string" where
  "trim s = rev (dropWhile is_space (rev (dropWhile is_space s)))"

definition trim_end :: "string \<Rightarrow> string" where
  "trim_end s = rev (dropWhile is_space (rev s))"

lemma dropWhile_hd: "dropWhile P xs = y # ys \<Longrightarrow> \<not> P y"
  by (induction xs) (auto split: if_splits)

lemma trim_start_matches_hd: "trim_start_matches c s = d # ds \<Longrightarrow> d \<noteq> c"
  unfolding trim_start_matches_def by (drule dropWhile_hd) simp

lemma trim_start_matches_id: "s = [] \<or> hd s \<noteq> c \<Longrightarrow> trim_start_matches c s = s"
  by (cases s) (auto simp: trim_start_matches_def)

lemma trim_matches_all: "set s \<subseteq> {c} \<Longrightarrow> trim_matches c s = []"
proof -
  assume "set s \<subseteq> {c}"
  then have e: "dropWhile (\<lambda>d. d = c) s = []" by (auto simp: dropWhile_eq_Nil_conv)
  show ?thesis by (simp only: trim_matches_def trim_start_matches_def trim_end_matches_def e) simp
qed

lemma set_dropWhile_sub: "set (dropWhile P xs) \<subseteq> set xs"
  using set_dropWhileD by fast

lemma trim_matches_not_all:
  assumes "\<not> set s \<subseteq> {c}"
  obtains d ds where "trim_matches c s = d # ds" and "d \<noteq> c"
proof -
  have "dropWhile (\<lambda>d. d = c) s \<noteq> []" using assms by (auto simp: dropWhile_eq_Nil_conv)
  then obtain d ds where ds: "dropWhile (\<lambda>d. d = c) s = d # ds" by (cases "dropWhile (\<lambda>d. d = c) s") auto
  then have d: "d \<noteq> c" by (rule dropWhile_hd)
  have "rev (dropWhile (\<lambda>x. x = c) (rev ds @ [d])) = d # rev (dropWhile (\<lambda>x. x = c) (rev ds))"
    using d by (induction "rev ds" rule: list.induct) (auto simp: dropWhile_append3 dropWhile_append)
  then have "trim_matches c s = d # rev (dropWhile (\<lambda>x. x = c) (rev ds))"
    by (simp add: trim_matches_def trim_start_matches_def trim_end_matches_def ds)
  then show thesis using d that by blast
qed

lemma trim_empty_iff: "trim s = [] \<longleftrightarrow> (\<forall>c \<in> set s. is_space c)"
proof
  assume "trim s = []"
  then have all: "\<forall>c \<in> set (dropWhile is_space s). is_space c"
    by (simp add: trim_def dropWhile_eq_Nil_conv)
  have "dropWhile is_space s = []"
  proof (cases "dropWhile is_space s")
    case (Cons d ds)
    then have "\<not> is_space d" by (rule dropWhile_hd)
    with all Cons show ?thesis by simp
  qed simp
  then show "\<forall>c \<in> set s. is_space c" by (simp add: dropWhile_eq_Nil_conv)
next
  assume "\<forall>c \<in> set s. is_space c"
  then have e: "dropWhile is_space s = []" by (simp add: dropWhile_eq_Nil_conv)
  show "trim s = []" by (simp only: trim_def e) simp
qed

section \<open>Decimal numbers\<close>

definition digit :: "nat \<Rightarrow> char" where
  "digit d = char_of (48 + d)"

fun show_nat :: "nat \<Rightarrow> string" where
  "show_nat n = (if n < 10 then [digit n] else show_nat (n div 10) @ [digit (n mod 10)])"

declare show_nat.simps [simp del]

definition zero_pad :: "nat \<Rightarrow> string \<Rightarrow> string" where
  "zero_pad w s = replicate (w - length s) (CHR ''0'') @ s"

text \<open>\<^verbatim>\<open>format!\<close> of an unsigned value with the directive \<^verbatim>\<open>{:0w}\<close>.\<close>

definition fmt_nat :: "nat \<Rightarrow> nat \<Rightarrow> string" where
  "fmt_nat w n = zero_pad w (show_nat n)"

text \<open>The same for a signed value: the sign counts towards the width.\<close>

definition fmt_int :: "nat \<Rightarrow> int \<Rightarrow> string" where
  "fmt_int w i =
     (if i < 0 then CHR ''-'' # zero_pad (w - 1) (show_nat (nat (- i)))
      else zero_pad w (show_nat (nat i)))"

definition show_int :: "int \<Rightarrow> string" where
  "show_int i = fmt_int 0 i"

text \<open>Reading the digits back, to argue that printing loses nothing.\<close>

definition digit_val :: "char \<Rightarrow> nat" where
  "digit_val c = of_char c - 48"

definition dec_val :: "string \<Rightarrow> nat" where
  "dec_val s = foldl (\<lambda>a c. 10 * a + digit_val c) 0 s"

definition is_digit :: "char \<Rightarrow> bool" where
  "is_digit c \<longleftrightarrow> 48 \<le> (of_char c :: nat) \<and> (of_char c :: nat) \<le> 57"

lemma of_char_digit: "d < 10 \<Longrightarrow> (of_char (digit d) :: nat) = 48 + d"
  by (simp add: digit_def)

lemma digit_val_digit [simp]: "d < 10 \<Longrightarrow> digit_val (digit d) = d"
  by (simp add: digit_val_def of_char_digit)

lemma is_digit_digit [simp]: "d < 10 \<Longrightarrow> is_digit (digit d)"
  by (simp add: is_digit_def of_char_digit)

lemma dec_val_snoc: "dec_val (s @ [c]) = 10 * dec_val s + digit_val c"
  by (simp add: dec_val_def)

lemma dec_val_show_nat [simp]: "dec_val (show_nat n) = n"
proof (induction n rule: show_nat.induct)
  case (1 n)
  show ?case
  proof (cases "n < 10")
    case True
    then show ?thesis by (simp add: show_nat.simps [of n] dec_val_def)
  next
    case False
    then show ?thesis using 1 by (simp add: show_nat.simps [of n] dec_val_snoc)
  qed
qed

lemma show_nat_digits: "\<forall>c \<in> set (show_nat n). is_digit c"
proof (induction n rule: show_nat.induct)
  case (1 n)
  then show ?case by (subst show_nat.simps) auto
qed

lemma show_nat_nonempty [simp]: "show_nat n \<noteq> []"
  by (subst show_nat.simps) simp

lemma dec_val_zeros: "dec_val (replicate k (CHR ''0'') @ s) = dec_val s"
  by (induction k) (simp_all add: dec_val_def digit_val_def)

lemma dec_val_fmt_nat [simp]: "dec_val (fmt_nat w n) = n"
  by (simp add: fmt_nat_def zero_pad_def dec_val_zeros)

lemma fmt_nat_inj [simp]: "fmt_nat w m = fmt_nat w n \<longleftrightarrow> m = n"
  by (metis dec_val_fmt_nat)

lemma show_nat_inj [simp]: "show_nat m = show_nat n \<longleftrightarrow> m = n"
  by (metis dec_val_show_nat)

lemma fmt_nat_digits: "c \<in> set (fmt_nat w n) \<Longrightarrow> is_digit c"
  using show_nat_digits [of n] by (auto simp: fmt_nat_def zero_pad_def is_digit_def)

lemma length_show_nat_two: "n < 100 \<Longrightarrow> length (show_nat n) \<le> 2"
proof -
  assume "n < 100"
  then have "n div 10 < 10" by simp
  then show ?thesis by (simp add: show_nat.simps [of n] show_nat.simps [of "n div 10"])
qed

lemma length_fmt_nat_two [simp]: "n < 100 \<Longrightarrow> length (fmt_nat 2 n) = 2"
  using length_show_nat_two [of n] by (simp add: fmt_nat_def zero_pad_def)

lemma minus_not_digit: "\<not> is_digit (CHR ''-'')"
  by (simp add: is_digit_def)

lemma fmt_int_inj: "fmt_int w i = fmt_int w j \<longleftrightarrow> i = j"
proof
  assume eq: "fmt_int w i = fmt_int w j"
  have nonneg: "CHR ''-'' \<notin> set (fmt_int w k)" if "0 \<le> k" for k
    using that fmt_nat_digits [of "CHR ''-''" w "nat k"] minus_not_digit
    by (auto simp: fmt_int_def fmt_nat_def)
  have neg: "CHR ''-'' \<in> set (fmt_int w k)" if "k < 0" for k
    using that by (simp add: fmt_int_def)
  consider "0 \<le> i" "0 \<le> j" | "i < 0" "j < 0"
    using eq nonneg neg by (metis linorder_not_le)
  then show "i = j"
  proof cases
    case 1
    with eq have "fmt_nat w (nat i) = fmt_nat w (nat j)" by (simp add: fmt_int_def fmt_nat_def)
    with 1 show ?thesis by simp
  next
    case 2
    with eq have "fmt_nat (w - 1) (nat (- i)) = fmt_nat (w - 1) (nat (- j))"
      by (simp add: fmt_int_def fmt_nat_def)
    with 2 show ?thesis by simp
  qed
qed simp

section \<open>UTF-8\<close>

text \<open>The byte sequences \<^verbatim>\<open>str::from_utf8\<close> accepts.\<close>

definition utf8_cont :: "u8 \<Rightarrow> bool" where
  "utf8_cont b \<longleftrightarrow> 128 \<le> b \<and> b \<le> 191"

definition utf8_second :: "u8 \<Rightarrow> u8 \<Rightarrow> bool" where
  "utf8_second a b \<longleftrightarrow>
     utf8_cont b \<and> (a = 224 \<longrightarrow> 160 \<le> b) \<and> (a = 237 \<longrightarrow> b \<le> 159) \<and>
     (a = 240 \<longrightarrow> 144 \<le> b) \<and> (a = 244 \<longrightarrow> b \<le> 143)"

fun valid_utf8 :: "bytes \<Rightarrow> bool" where
  "valid_utf8 [] = True"
| "valid_utf8 (a # bs) =
     (if a < 128 then valid_utf8 bs
      else if 194 \<le> a \<and> a \<le> 223
        then (case bs of b # r \<Rightarrow> utf8_second a b \<and> valid_utf8 r | _ \<Rightarrow> False)
      else if 224 \<le> a \<and> a \<le> 239
        then (case bs of b # c # r \<Rightarrow> utf8_second a b \<and> utf8_cont c \<and> valid_utf8 r | _ \<Rightarrow> False)
      else if 240 \<le> a \<and> a \<le> 244
        then (case bs of b # c # d # r \<Rightarrow> utf8_second a b \<and> utf8_cont c \<and> utf8_cont d \<and> valid_utf8 r
              | _ \<Rightarrow> False)
      else False)"

lemma valid_utf8_ascii: "\<forall>b \<in> set bs. b < 128 \<Longrightarrow> valid_utf8 bs"
  by (induction bs) auto

end
