(* ===== verification/Rust_Net.thy ===== *)
theory Rust_Net
  imports Rust_Strings
begin

text \<open>
  The address types of \<^verbatim>\<open>std::net\<close> with their textual forms. The parsers follow the
  standard library's: a parser takes the rest of the input and gives the value with the
  remaining input, or nothing, in which case nothing is consumed; \<^verbatim>\<open>FromStr\<close> succeeds when
  the whole input is used.
\<close>

datatype ipv4_addr = Ipv4 u8 u8 u8 u8
datatype ipv6_addr = Ipv6 "u16 list"
datatype ip_addr = V4 ipv4_addr | V6 ipv6_addr
datatype socket_addr = SocketV4 ipv4_addr u16 | SocketV6 ipv6_addr u16

type_synonym 'a parser = "string \<Rightarrow> ('a \<times> string) option"

definition to_digit :: "nat \<Rightarrow> char \<Rightarrow> nat option" where
  "to_digit radix c =
     (let n = (of_char c :: nat);
          d = (if 48 \<le> n \<and> n \<le> 57 then n - 48
               else if 97 \<le> n \<and> n \<le> 122 then n - 87
               else if 65 \<le> n \<and> n \<le> 90 then n - 55
               else radix)
      in if d < radix then Some d else None)"

definition digits_value :: "nat \<Rightarrow> string \<Rightarrow> nat" where
  "digits_value radix ds = foldl (\<lambda>a c. radix * a + the (to_digit radix c)) 0 ds"

text \<open>
  \<^verbatim>\<open>read_number\<close>: the longest run of digits; refused when it is empty, longer than
  \<open>max_digits\<close>, above \<open>bound\<close>, or has a leading zero that is not allowed.
\<close>

definition read_number :: "nat \<Rightarrow> nat option \<Rightarrow> bool \<Rightarrow> nat \<Rightarrow> nat parser" where
  "read_number radix max_digits allow_zero_prefix bound s =
     (let ds = takeWhile (\<lambda>c. to_digit radix c \<noteq> None) s; v = digits_value radix ds
      in if ds = [] then None
         else if (case max_digits of None \<Rightarrow> False | Some m \<Rightarrow> m < length ds) then None
         else if \<not> allow_zero_prefix \<and> hd ds = CHR ''0'' \<and> 1 < length ds then None
         else if bound < v then None
         else Some (v, drop (length ds) s))"

fun read_given_char :: "char \<Rightarrow> unit parser" where
  "read_given_char t [] = None"
| "read_given_char t (c # cs) = (if c = t then Some ((), cs) else None)"

definition read_separator :: "char \<Rightarrow> nat \<Rightarrow> 'a parser \<Rightarrow> 'a parser" where
  "read_separator sep i inner s =
     (if 0 < i then (case read_given_char sep s of None \<Rightarrow> None | Some (_, s') \<Rightarrow> inner s')
      else inner s)"

abbreviation read_octet :: "nat \<Rightarrow> nat parser" where
  "read_octet i \<equiv> read_separator (CHR ''.'') i (read_number 10 (Some 3) False 255)"

definition read_ipv4_addr :: "ipv4_addr parser" where
  "read_ipv4_addr s =
     Option.bind (read_octet 0 s) (\<lambda>(a, s).
     Option.bind (read_octet 1 s) (\<lambda>(b, s).
     Option.bind (read_octet 2 s) (\<lambda>(c, s).
     Option.bind (read_octet 3 s) (\<lambda>(d, s).
       Some (Ipv4 (of_nat a) (of_nat b) (of_nat c) (of_nat d), s)))))"

definition be16 :: "u8 \<Rightarrow> u8 \<Rightarrow> u16" where
  "be16 a b = ucast a * 256 + ucast b"

text \<open>\<open>read_groups k i s\<close> fills the \<open>k\<close> slots that are left, the first of them slot \<open>i\<close>.\<close>

fun read_groups :: "nat \<Rightarrow> nat \<Rightarrow> string \<Rightarrow> u16 list \<times> bool \<times> string" where
  "read_groups 0 i s = ([], False, s)"
| "read_groups (Suc k) i s =
     (case (if 1 \<le> k then read_separator (CHR '':'') i read_ipv4_addr s else None) of
        Some (Ipv4 a b c d, s') \<Rightarrow> ([be16 a b, be16 c d], True, s')
      | None \<Rightarrow>
          (case read_separator (CHR '':'') i (read_number 16 (Some 4) True 65535) s of
             None \<Rightarrow> ([], False, s)
           | Some (g, s') \<Rightarrow>
               (case read_groups k (Suc i) s' of (gs, v4, s'') \<Rightarrow> (of_nat g # gs, v4, s''))))"

definition read_ipv6_addr :: "ipv6_addr parser" where
  "read_ipv6_addr s =
     (case read_groups 8 0 s of (head, v4, s1) \<Rightarrow>
        if length head = 8 then Some (Ipv6 head, s1)
        else if v4 then None
        else
          Option.bind (read_given_char (CHR '':'') s1) (\<lambda>(_, s2).
          Option.bind (read_given_char (CHR '':'') s2) (\<lambda>(_, s3).
            (case read_groups (7 - length head) 0 s3 of (tail, _, s4) \<Rightarrow>
               Some (Ipv6 (head @ replicate (8 - length head - length tail) 0 @ tail), s4)))))"

definition read_port :: "u16 parser" where
  "read_port s =
     Option.bind (read_given_char (CHR '':'') s) (\<lambda>(_, s).
     Option.bind (read_number 10 None True 65535 s) (\<lambda>(n, s). Some (of_nat n, s)))"

definition read_scope_id :: "unit parser" where
  "read_scope_id s =
     Option.bind (read_given_char (CHR ''%'') s) (\<lambda>(_, s).
     Option.bind (read_number 10 None True (2 ^ 32 - 1) s) (\<lambda>(n, s). Some ((), s)))"

definition read_socket_v4 :: "socket_addr parser" where
  "read_socket_v4 s =
     Option.bind (read_ipv4_addr s) (\<lambda>(a, s).
     Option.bind (read_port s) (\<lambda>(p, s). Some (SocketV4 a p, s)))"

definition read_socket_v6 :: "socket_addr parser" where
  "read_socket_v6 s =
     Option.bind (read_given_char (CHR ''['') s) (\<lambda>(_, s).
     Option.bind (read_ipv6_addr s) (\<lambda>(a, s).
     Option.bind (read_given_char (CHR '']'')
                    (case read_scope_id s of None \<Rightarrow> s | Some (_, s') \<Rightarrow> s')) (\<lambda>(_, s).
     Option.bind (read_port s) (\<lambda>(p, s). Some (SocketV6 a p, s)))))"

definition parse_with :: "'a parser \<Rightarrow> string \<Rightarrow> 'a option" where
  "parse_with p s = (case p s of Some (a, []) \<Rightarrow> Some a | _ \<Rightarrow> None)"

definition parse_ipv4 :: "string \<Rightarrow> ipv4_addr option" where
  "parse_ipv4 s = (if 15 < length s then None else parse_with read_ipv4_addr s)"

definition parse_ipv6 :: "string \<Rightarrow> ipv6_addr option" where
  "parse_ipv6 s = parse_with read_ipv6_addr s"

definition or_else :: "'a parser \<Rightarrow> 'a parser \<Rightarrow> 'a parser" where
  "or_else p q s = (case p s of Some r \<Rightarrow> Some r | None \<Rightarrow> q s)"

definition read_ip_addr :: "ip_addr parser" where
  "read_ip_addr =
     or_else (\<lambda>s. map_option (apfst V4) (read_ipv4_addr s))
             (\<lambda>s. map_option (apfst V6) (read_ipv6_addr s))"

definition parse_ip :: "string \<Rightarrow> ip_addr option" where
  "parse_ip s = parse_with read_ip_addr s"

definition parse_socket :: "string \<Rightarrow> socket_addr option" where
  "parse_socket s = parse_with (or_else read_socket_v4 read_socket_v6) s"

text \<open>\<^verbatim>\<open>Display\<close> of an IPv4 address and of an IPv4 socket address.\<close>

fun show_ipv4 :: "ipv4_addr \<Rightarrow> string" where
  "show_ipv4 (Ipv4 a b c d) =
     show_nat (unat a) @ CHR ''.'' # show_nat (unat b) @ CHR ''.'' #
     show_nat (unat c) @ CHR ''.'' # show_nat (unat d)"

lemmas read_groups_eight = read_groups.simps(2) [of 7, simplified]

section \<open>Printing and parsing IPv4 addresses\<close>

lemma to_digit_digit: "is_digit c \<Longrightarrow> to_digit 10 c = Some (digit_val c)"
  by (auto simp: to_digit_def is_digit_def digit_val_def Let_def)

lemma to_digit_ten: "to_digit 10 c \<noteq> None \<longleftrightarrow> is_digit c"
  by (auto simp: to_digit_def is_digit_def Let_def split: if_splits)

lemma takeWhile_run:
  assumes "\<forall>c \<in> set xs. P c" and "ys = [] \<or> \<not> P (hd ys)"
  shows "takeWhile P (xs @ ys) = xs"
  using assms by (cases ys) (auto simp: takeWhile_append2 takeWhile_tail)

lemma digits_value_ten: "\<forall>c \<in> set ds. is_digit c \<Longrightarrow> digits_value 10 ds = dec_val ds"
  unfolding digits_value_def dec_val_def
  by (rule foldl_cong) (auto simp: to_digit_digit)

lemma hd_show_nat_zero: "hd (show_nat n) = CHR ''0'' \<Longrightarrow> n = 0"
proof (induction n rule: show_nat.induct)
  case (1 n)
  show ?case
  proof (cases "n < 10")
    case True
    with 1(2) have "digit n = CHR ''0''" by (simp add: show_nat.simps [of n])
    then have "digit_val (digit n) = digit_val (CHR ''0'')" by simp
    with True show ?thesis by (simp add: digit_val_def [of "CHR ''0''"])
  next
    case False
    with 1(2) have "hd (show_nat (n div 10)) = CHR ''0''"
      by (simp add: show_nat.simps [of n])
    with False 1(1) have "n div 10 = 0" by simp
    with False show ?thesis by simp
  qed
qed

lemma length_show_nat_three: "n < 1000 \<Longrightarrow> length (show_nat n) \<le> 3"
proof -
  assume "n < 1000"
  then have "n div 10 < 100" by simp
  then have "length (show_nat (n div 10)) \<le> 2" by (rule length_show_nat_two)
  then show ?thesis by (simp add: show_nat.simps [of n])
qed

lemma read_number_show_nat:
  assumes "n \<le> 255" and "s = [] \<or> \<not> is_digit (hd s)"
  shows "read_number 10 (Some 3) False 255 (show_nat n @ s) = Some (n, s)"
proof -
  have run: "takeWhile (\<lambda>c. to_digit 10 c \<noteq> None) (show_nat n @ s) = show_nat n"
    unfolding to_digit_ten using show_nat_digits [of n] assms(2) by (rule takeWhile_run)
  have val: "digits_value 10 (show_nat n) = n"
    by (simp add: digits_value_ten show_nat_digits)
  have len: "length (show_nat n) \<le> 3" using assms(1) by (intro length_show_nat_three) simp
  have zero: "\<not> (hd (show_nat n) = CHR ''0'' \<and> 1 < length (show_nat n))"
    using hd_show_nat_zero [of n] by (auto simp: show_nat.simps [of 0])
  show ?thesis
    unfolding read_number_def Let_def run val using len zero assms(1) by auto
qed

lemma unat_u8_le: "unat (a :: u8) \<le> 255"
proof -
  have "unat a < 2 ^ LENGTH(8)" by (rule unsigned_less)
  then show ?thesis by simp
qed

lemma dot_not_digit [simp]: "\<not> is_digit (CHR ''.'')" "\<not> is_digit (CHR '':'')"
  by (simp_all add: is_digit_def)

lemma read_ipv4_show_ipv4:
  assumes "s = [] \<or> \<not> is_digit (hd s)"
  shows "read_ipv4_addr (show_ipv4 ip @ s) = Some (ip, s)"
proof (cases ip)
  case (Ipv4 a b c d)
  then show ?thesis
    using assms
    by (simp add: read_ipv4_addr_def read_separator_def read_number_show_nat unat_u8_le)
qed

lemma length_show_ipv4: "length (show_ipv4 ip) \<le> 15"
proof (cases ip)
  case (Ipv4 a b c d)
  have "length (show_nat (unat x)) \<le> 3" for x :: u8
    using unat_u8_le [of x] by (intro length_show_nat_three) simp
  from this [of a] this [of b] this [of c] this [of d] show ?thesis using Ipv4 by simp
qed

lemma parse_ipv4_show_ipv4 [simp]: "parse_ipv4 (show_ipv4 ip) = Some ip"
  using read_ipv4_show_ipv4 [of "[]" ip] length_show_ipv4 [of ip]
  by (simp add: parse_ipv4_def parse_with_def)

lemma parse_ip_show_ipv4 [simp]: "parse_ip (show_ipv4 ip) = Some (V4 ip)"
  using read_ipv4_show_ipv4 [of "[]" ip]
  by (simp add: parse_ip_def parse_with_def read_ip_addr_def or_else_def)

section \<open>An IPv6 address needs brackets in a socket address\<close>

lemma read_number_split:
  assumes "read_number 10 m z b s = Some (v, r)"
  obtains ds where "s = ds @ r" "ds \<noteq> []" "\<forall>c \<in> set ds. is_digit c" "r = [] \<or> \<not> is_digit (hd r)"
proof -
  let ?ds = "takeWhile is_digit s"
  have "takeWhile (\<lambda>c. to_digit 10 c \<noteq> None) s = ?ds"
    by (simp only: to_digit_ten)
  then have "?ds \<noteq> []" "r = drop (length ?ds) s"
    using assms by (auto simp: read_number_def Let_def split: if_splits)
  moreover have "drop (length ?ds) s = dropWhile is_digit s"
    by (simp add: dropWhile_eq_drop)
  ultimately show thesis
    using that [of ?ds] by (metis hd_dropWhile set_takeWhileD takeWhile_dropWhile_id)
qed

lemma read_ipv4_dot:
  assumes "read_ipv4_addr s = Some x"
  obtains ds y where "s = ds @ CHR ''.'' # y" "ds \<noteq> []" "\<forall>c \<in> set ds. is_digit c"
proof -
  obtain a s1 where a: "read_number 10 (Some 3) False 255 s = Some (a, s1)"
    and sep: "read_given_char (CHR ''.'') s1 \<noteq> None"
    using assms
    by (auto simp: read_ipv4_addr_def read_separator_def bind_eq_Some_conv split: option.splits)
  from sep obtain y where "s1 = CHR ''.'' # y" by (cases s1) (auto split: if_splits)
  with a show thesis by (elim read_number_split) (use that in blast)
qed

lemma read_groups_dot:
  assumes "ds \<noteq> []" "\<forall>c \<in> set ds. is_digit c"
    and "read_groups 8 0 (ds @ CHR ''.'' # y) = (h, v4, s1)"
  shows "length h < 8 \<and> (v4 \<or> (\<forall>r. s1 \<noteq> CHR '':'' # r))"
proof (cases "read_ipv4_addr (ds @ CHR ''.'' # y)")
  case (Some r)
  then obtain a b c d s' where "r = (Ipv4 a b c d, s')" by (metis ipv4_addr.exhaust surj_pair)
  then show ?thesis
    using Some assms(3) by (auto simp: read_separator_def read_groups_eight)
next
  case None
  have dot: "to_digit 16 (CHR ''.'') = None" by (simp add: to_digit_def Let_def)
  have hex: "to_digit 16 c \<noteq> None" if "is_digit c" for c
    using that by (auto simp: to_digit_def is_digit_def Let_def)
  have run: "takeWhile (\<lambda>c. to_digit 16 c \<noteq> None) (ds @ CHR ''.'' # y) = ds"
    using assms(2) hex dot by (intro takeWhile_run) auto
  have rest: "s' = CHR ''.'' # y"
    if "read_number 16 (Some 4) True 65535 (ds @ CHR ''.'' # y) = Some (g, s')" for g s'
    using that run by (auto simp: read_number_def Let_def split: if_splits)
  have stop: "read_groups k (Suc 0) (CHR ''.'' # y) = ([], False, CHR ''.'' # y)" for k
    by (cases k) (simp_all add: read_separator_def)
  have first: "ds @ CHR ''.'' # y \<noteq> CHR '':'' # r" for r
    using assms(1,2) by (cases ds) auto
  show ?thesis
  proof (cases "read_number 16 (Some 4) True 65535 (ds @ CHR ''.'' # y)")
    case None2: None
    then have "read_groups 8 0 (ds @ CHR ''.'' # y) = ([], False, ds @ CHR ''.'' # y)"
      using None by (simp add: read_separator_def read_groups_eight)
    with assms(3) first show ?thesis by simp
  next
    case (Some q)
    then obtain g s' where q: "q = (g, s')" by force
    with Some rest have "s' = CHR ''.'' # y" by simp
    with q Some None stop [of 7]
    have "read_groups 8 0 (ds @ CHR ''.'' # y) = ([of_nat g], False, CHR ''.'' # y)"
      by (simp add: read_separator_def read_groups_eight)
    with assms(3) show ?thesis by auto
  qed
qed

lemma ipv6_no_leading_dotted:
  assumes "parse_ipv6 s = Some a" "ds \<noteq> []" "\<forall>c \<in> set ds. is_digit c"
  shows "s \<noteq> ds @ CHR ''.'' # y"
proof
  assume s: "s = ds @ CHR ''.'' # y"
  obtain h v4 s1 where g: "read_groups 8 0 s = (h, v4, s1)" by (metis prod_cases3)
  with s assms(2,3) have "length h < 8 \<and> (v4 \<or> (\<forall>r. s1 \<noteq> CHR '':'' # r))"
    by (intro read_groups_dot [of ds y]) auto
  with g assms(1) show False
    by (cases s1)
       (auto simp: parse_ipv6_def parse_with_def read_ipv6_addr_def split: option.splits if_splits)
qed

lemma ipv6_no_bracket: "parse_ipv6 (CHR ''['' # s) = None"
proof -
  have "read_number 10 (Some 3) False 255 (CHR ''['' # s) = None"
    "read_number 16 (Some 4) True 65535 (CHR ''['' # s) = None"
    by (simp_all add: read_number_def to_digit_def Let_def)
  then have "read_groups 8 0 (CHR ''['' # s) = ([], False, CHR ''['' # s)"
    by (simp add: read_separator_def read_ipv4_addr_def read_groups_eight)
  then show ?thesis by (simp add: parse_ipv6_def parse_with_def read_ipv6_addr_def)
qed

text \<open>
  Whatever follows the colon, an IPv6 address with a port appended the way an IPv4 address
  takes it is no socket address.
\<close>

lemma parse_socket_bare_ipv6:
  assumes "parse_ipv6 s = Some a"
  shows "parse_socket (s @ CHR '':'' # port) = None"
proof -
  let ?x = "s @ CHR '':'' # port"
  have "read_ipv4_addr ?x = None"
  proof (rule ccontr)
    assume "read_ipv4_addr ?x \<noteq> None"
    then obtain r where "read_ipv4_addr ?x = Some r" by blast
    then obtain ds y where x: "?x = ds @ CHR ''.'' # y" and ds: "ds \<noteq> []" "\<forall>c \<in> set ds. is_digit c"
      by (rule read_ipv4_dot)
    from x obtain us where us: "s = ds @ us \<and> us @ CHR '':'' # port = CHR ''.'' # y \<or>
        s @ us = ds \<and> CHR '':'' # port = us @ CHR ''.'' # y"
      by (auto simp: append_eq_append_conv2)
    then show False
    proof
      assume "s = ds @ us \<and> us @ CHR '':'' # port = CHR ''.'' # y"
      then obtain y' where "s = ds @ CHR ''.'' # y'" by (cases us) auto
      with ipv6_no_leading_dotted [OF assms ds] show False by blast
    next
      assume "s @ us = ds \<and> CHR '':'' # port = us @ CHR ''.'' # y"
      with ds(2) show False by (cases us) auto
    qed
  qed
  moreover have "hd ?x \<noteq> CHR ''[''"
  proof (cases s)
    case Nil
    with assms show ?thesis by simp
  next
    case (Cons c cs)
    with assms ipv6_no_bracket [of cs] show ?thesis by auto
  qed
  then have "read_given_char (CHR ''['') ?x = None" by (cases ?x) auto
  ultimately show ?thesis
    by (simp add: parse_socket_def parse_with_def or_else_def read_socket_v4_def read_socket_v6_def)
qed

end
