(* ===== verification/Rust_Path.thy ===== *)
theory Rust_Path
  imports Rust_Strings
begin

text \<open>
  \<^verbatim>\<open>std::path\<close> on Unix, as far as the archive uses it. A path is its string. The functions
  follow the backward scan of \<^verbatim>\<open>Components\<close>: empty components and \<^verbatim>\<open>.\<close> components are
  skipped (a leading \<^verbatim>\<open>.\<close> of a relative path is kept), \<^verbatim>\<open>..\<close> is a component that is no
  file name.
\<close>

type_synonym path = string

abbreviation slash :: char where "slash \<equiv> CHR ''/''"

definition is_absolute :: "path \<Rightarrow> bool" where
  "is_absolute p \<longleftrightarrow> (case p of [] \<Rightarrow> False | c # _ \<Rightarrow> c = slash)"

definition include_cur_dir :: "path \<Rightarrow> bool" where
  "include_cur_dir p \<longleftrightarrow> p = ''.'' \<or> prefix ''./'' p"

definition body_start :: "path \<Rightarrow> nat" where
  "body_start p = (if is_absolute p \<or> include_cur_dir p then 1 else 0)"

definition last_piece :: "string \<Rightarrow> string" where
  "last_piece b = rev (takeWhile (\<lambda>c. c \<noteq> slash) (rev b))"

definition before_piece :: "string \<Rightarrow> string" where
  "before_piece b = rev (drop (Suc (length (last_piece b))) (rev b))"

lemma length_before_piece: "b \<noteq> [] \<Longrightarrow> length (before_piece b) < length b"
  by (simp add: before_piece_def)

definition skipped :: "string \<Rightarrow> bool" where
  "skipped c \<longleftrightarrow> c = [] \<or> c = ''.''"

text \<open>The next component from the back with what precedes it.\<close>

function next_back :: "string \<Rightarrow> string option \<times> string" where
  "next_back b =
     (if b = [] then (None, [])
      else if skipped (last_piece b) then next_back (before_piece b)
      else (Some (last_piece b), before_piece b))"
  by pat_completeness auto
termination
  by (relation "measure length") (auto simp: length_before_piece)

function trim_right :: "string \<Rightarrow> string" where
  "trim_right b =
     (if b = [] then []
      else if skipped (last_piece b) then trim_right (before_piece b)
      else b)"
  by pat_completeness auto
termination
  by (relation "measure length") (auto simp: length_before_piece)

declare next_back.simps [simp del] trim_right.simps [simp del]

definition file_name :: "path \<Rightarrow> string option" where
  "file_name p =
     (case next_back (drop (body_start p) p) of
        (Some c, _) \<Rightarrow> if c = ''..'' then None else Some c
      | (None, _) \<Rightarrow> None)"

definition parent :: "path \<Rightarrow> path option" where
  "parent p =
     (case next_back (drop (body_start p) p) of
        (Some c, rest) \<Rightarrow> Some (take (body_start p) p @ trim_right rest)
      | (None, _) \<Rightarrow> if include_cur_dir p then Some [] else None)"

definition push :: "path \<Rightarrow> path \<Rightarrow> path" where
  "push p q =
     (if is_absolute q then q
      else if p \<noteq> [] \<and> last p \<noteq> slash then p @ slash # q
      else p @ q)"

definition join :: "path \<Rightarrow> path \<Rightarrow> path" where
  "join p q = push p q"

definition pop :: "path \<Rightarrow> path" where
  "pop p = (case parent p of Some q \<Rightarrow> q | None \<Rightarrow> p)"

definition set_file_name :: "path \<Rightarrow> string \<Rightarrow> path" where
  "set_file_name p n = (if file_name p \<noteq> None then push (pop p) n else push p n)"

definition extension :: "path \<Rightarrow> string option" where
  "extension p =
     (case file_name p of
        None \<Rightarrow> None
      | Some f \<Rightarrow>
          (let after = rev (takeWhile (\<lambda>c. c \<noteq> CHR ''.'') (rev f))
           in if CHR ''.'' \<notin> set f \<or> length f = Suc (length after) then None else Some after))"

section \<open>Paths that end in a plain file name\<close>

definition plain_name :: "string \<Rightarrow> bool" where
  "plain_name n \<longleftrightarrow> n \<noteq> [] \<and> slash \<notin> set n \<and> n \<noteq> ''.'' \<and> n \<noteq> ''..''"

lemma takeWhile_no_slash:
  assumes "slash \<notin> set n"
  shows "takeWhile (\<lambda>c. c \<noteq> slash) (rev n @ slash # r) = rev n"
    and "takeWhile (\<lambda>c. c \<noteq> slash) (rev n) = rev n"
proof -
  have all: "\<And>c. c \<in> set (rev n) \<Longrightarrow> c \<noteq> slash" using assms by auto
  then show "takeWhile (\<lambda>c. c \<noteq> slash) (rev n @ slash # r) = rev n"
    by (subst takeWhile_append2) auto
  show "takeWhile (\<lambda>c. c \<noteq> slash) (rev n) = rev n"
    using all by (subst takeWhile_eq_all_conv) auto
qed

lemma last_piece_append [simp]:
  "slash \<notin> set n \<Longrightarrow> last_piece (d @ slash # n) = n"
  by (simp add: last_piece_def takeWhile_no_slash)

lemma last_piece_alone [simp]: "slash \<notin> set n \<Longrightarrow> last_piece n = n"
  by (simp add: last_piece_def takeWhile_no_slash)

lemma before_piece_append [simp]:
  "slash \<notin> set n \<Longrightarrow> before_piece (d @ slash # n) = d"
  by (simp add: before_piece_def)

lemma next_back_plain [simp]:
  "plain_name n \<Longrightarrow> next_back (d @ slash # n) = (Some n, d)"
  "plain_name n \<Longrightarrow> next_back n = (Some n, [])"
  by (simp_all add: next_back.simps [of "d @ slash # n"] next_back.simps [of n]
      plain_name_def skipped_def before_piece_def)

lemma trim_right_plain [simp]:
  "plain_name n \<Longrightarrow> trim_right (d @ slash # n) = d @ slash # n"
  "plain_name n \<Longrightarrow> trim_right n = n"
  by (simp_all add: trim_right.simps [of "d @ slash # n"] trim_right.simps [of n]
      plain_name_def skipped_def)

lemma trim_right_Nil [simp]: "trim_right [] = []"
  by (simp add: trim_right.simps)

lemma plain_nameD: "plain_name n \<Longrightarrow> slash \<notin> set n" "plain_name n \<Longrightarrow> n \<noteq> []"
  by (simp_all add: plain_name_def)

lemma body_start_cases:
  assumes "p = d @ slash # n"
  shows "drop (body_start p) p = n \<and> d = [] \<or> drop (body_start p) p = drop (body_start p) d @ slash # n \<and> body_start p \<le> length d"
  using assms
  by (cases d) (auto simp: body_start_def is_absolute_def include_cur_dir_def)

lemma file_name_append [simp]:
  assumes "plain_name n"
  shows "file_name (d @ slash # n) = Some n"
  using body_start_cases [of "d @ slash # n" d n] assms
  by (auto simp: file_name_def plain_name_def)

text \<open>The parent of a file in a directory whose own name is plain is that directory.\<close>

lemma parent_append:
  assumes n: "plain_name n" and m: "plain_name m"
  shows "parent (d @ slash # m @ slash # n) = Some (d @ slash # m)"
proof -
  let ?p = "d @ slash # m @ slash # n"
  have start: "body_start ?p \<le> 1" by (simp add: body_start_def)
  have eq: "?p = (d @ slash # m) @ slash # n" by simp
  have body: "drop (body_start ?p) ?p = drop (body_start ?p) (d @ slash # m) @ slash # n"
    using start by (cases d; cases "body_start ?p") auto
  have tr: "trim_right (drop (body_start ?p) (d @ slash # m)) = drop (body_start ?p) (d @ slash # m)"
  proof (cases d)
    case Nil
    with m show ?thesis using start by (auto simp: body_start_def is_absolute_def)
  next
    case (Cons c d')
    with m start show ?thesis
      by (cases "body_start ?p") (auto simp del: append_Cons simp add: append_Cons [symmetric])
  qed
  have tk: "take (body_start ?p) ?p = take (body_start ?p) (d @ slash # m)"
    using start by (cases d) (auto simp: body_start_def)
  show ?thesis using n
    by (simp only: parent_def body next_back_plain(1) prod.case option.case tr tk append_take_drop_id)
qed

lemma set_file_name_append:
  assumes "plain_name n" "plain_name m" "\<not> is_absolute k"
  shows "set_file_name (d @ slash # m @ slash # n) k = d @ slash # m @ slash # k"
proof -
  have "file_name (d @ slash # m @ slash # n) = Some n"
    using file_name_append [of n "d @ slash # m"] assms by simp
  moreover have "last (d @ slash # m) \<noteq> slash"
    using assms(2) by (auto simp: plain_name_def last_append dest: last_in_set)
  ultimately show ?thesis
    using parent_append [OF assms(1,2), of d] assms(3)
    by (simp add: set_file_name_def pop_def push_def)
qed

lemma join_relative:
  "r \<noteq> [] \<Longrightarrow> last r \<noteq> slash \<Longrightarrow> \<not> is_absolute q \<Longrightarrow> join r q = r @ slash # q"
  by (simp add: join_def push_def)

lemma last_join: "b \<noteq> [] \<Longrightarrow> last (join a b) = last b"
  by (simp add: join_def push_def)

end
