(* ===== verification/Config.thy ===== *)
theory Config
  imports Rust_Net Rust_Path
begin

text \<open>
  \<^verbatim>\<open>src/config/mod.rs\<close>: the configuration with its defaults and its validation. The
  checks keep the order of the source, so that the error reported is the first one. Parsing
  of a prefix (crate \<^verbatim>\<open>ipnet\<close>) and of the TOML text (crate \<^verbatim>\<open>toml\<close>) are parameters.
\<close>

section \<open>Data\<close>

datatype ip_net = NetV4 ipv4_addr u8 | NetV6 ipv6_addr u8

datatype layout_profile = RouteViews | Ris | Custom
datatype compression_kind = Gzip | Bzip2 | Zstd
datatype rib_source = AdjRibIn | LocRib
datatype destination_type = Local | S3
datatype destination_mode = Primary | AsyncReplica

record global_config =
  gc_asn :: u32
  gc_router_id :: string
  gc_listen :: bool
  gc_listen_addr :: string
  gc_control_socket :: path
  gc_log_level :: string

record peer_config =
  pc_address :: string
  pc_remote_as :: u32
  pc_local_as :: "u32 option"
  pc_hold_time_secs :: u16
  pc_connect_retry_secs :: u16
  pc_remote_port :: u16
  pc_local_address :: "string option"
  pc_enabled :: bool
  pc_passive :: bool
  pc_route_refresh :: bool
  pc_name :: "string option"
  pc_password :: "string option"

record prefix_config =
  px_network :: string
  px_next_hop :: "string option"

record custom_layout_templates =
  ct_updates :: string
  ct_ribs :: string

record archive_destination_config =
  ad_type :: destination_type
  ad_mode :: destination_mode
  ad_path :: "path option"
  ad_required :: "bool option"
  ad_endpoint :: "string option"
  ad_bucket :: "string option"
  ad_prefix :: "string option"
  ad_upload_concurrency :: "u64 option"
  ad_retry_backoff_secs :: "u64 option"
  ad_max_retries :: "u32 option"
  ad_region :: "string option"
  ad_access_key_id :: "string option"
  ad_secret_access_key :: "string option"
  ad_session_token :: "string option"

record archive_config =
  ac_enabled :: bool
  ac_collector_id :: string
  ac_layout_profile :: layout_profile
  ac_updates_interval_secs :: u32
  ac_ribs_interval_secs :: u32
  ac_compression :: compression_kind
  ac_root :: path
  ac_tmp_root :: path
  ac_fsync_on_rotate :: bool
  ac_include_peer_state_records :: bool
  ac_rib_source :: rib_source
  ac_custom_templates :: "custom_layout_templates option"
  ac_destinations :: "archive_destination_config list"

record focl_config =
  fc_global :: global_config
  fc_peers :: "peer_config list"
  fc_prefixes :: "prefix_config list"
  fc_archive :: archive_config

section \<open>Defaults\<close>

definition default_listen :: bool where "default_listen = True"
definition default_listen_addr :: string where "default_listen_addr = ''0.0.0.0:179''"
definition default_control_socket :: path where "default_control_socket = ''/tmp/focld.sock''"
definition default_log_level :: string where "default_log_level = ''info''"
definition default_hold_time :: u16 where "default_hold_time = 90"
definition default_connect_retry :: u16 where "default_connect_retry = 5"
definition default_remote_port :: u16 where "default_remote_port = 179"
definition default_collector_id :: string where "default_collector_id = ''focl01''"
definition default_updates_interval :: u32 where "default_updates_interval = 900"
definition default_ribs_interval :: u32 where "default_ribs_interval = 7200"
definition default_archive_root :: path where "default_archive_root = ''/var/lib/focld/archive''"
definition default_archive_tmp_root :: path where
  "default_archive_tmp_root = ''/var/lib/focld/archive/.tmp''"

definition default_archive :: archive_config where
  "default_archive =
     \<lparr>ac_enabled = False,
      ac_collector_id = default_collector_id,
      ac_layout_profile = RouteViews,
      ac_updates_interval_secs = default_updates_interval,
      ac_ribs_interval_secs = default_ribs_interval,
      ac_compression = Gzip,
      ac_root = default_archive_root,
      ac_tmp_root = default_archive_tmp_root,
      ac_fsync_on_rotate = True,
      ac_include_peer_state_records = True,
      ac_rib_source = AdjRibIn,
      ac_custom_templates = None,
      ac_destinations =
        [\<lparr>ad_type = Local, ad_mode = Primary, ad_path = Some default_archive_root,
          ad_required = Some True, ad_endpoint = None, ad_bucket = None, ad_prefix = None,
          ad_upload_concurrency = Some 4, ad_retry_backoff_secs = Some 5,
          ad_max_retries = Some 0, ad_region = None, ad_access_key_id = None,
          ad_secret_access_key = None, ad_session_token = None\<rparr>]\<rparr>"

lemmas config_defaults =
  default_listen_def default_listen_addr_def default_control_socket_def default_log_level_def
  default_hold_time_def default_connect_retry_def default_remote_port_def
  default_collector_id_def default_updates_interval_def default_ribs_interval_def
  default_archive_root_def default_archive_tmp_root_def

section \<open>Accessors of a destination\<close>

definition retry_backoff_secs :: "archive_destination_config \<Rightarrow> u64" where
  "retry_backoff_secs d = (case ad_retry_backoff_secs d of Some n \<Rightarrow> n | None \<Rightarrow> 5)"

definition max_retries :: "archive_destination_config \<Rightarrow> u32" where
  "max_retries d = (case ad_max_retries d of Some n \<Rightarrow> n | None \<Rightarrow> 0)"

definition upload_concurrency :: "archive_destination_config \<Rightarrow> u64" where
  "upload_concurrency d = (case ad_upload_concurrency d of Some n \<Rightarrow> n | None \<Rightarrow> 4)"

definition or_missing :: "string option \<Rightarrow> string" where
  "or_missing x = (case x of Some s \<Rightarrow> s | None \<Rightarrow> ''<missing>'')"

definition destination_key :: "archive_destination_config \<Rightarrow> string" where
  "destination_key d =
     (case ad_type d of
        Local \<Rightarrow> ''local:'' @ or_missing (ad_path d)
      | S3 \<Rightarrow> ''s3:'' @ or_missing (ad_endpoint d) @ '':'' @ or_missing (ad_bucket d))"

definition compression_extension :: "compression_kind \<Rightarrow> string" where
  "compression_extension k = (case k of Gzip \<Rightarrow> ''gz'' | Bzip2 \<Rightarrow> ''bz2'' | Zstd \<Rightarrow> ''zst'')"

section \<open>Validation\<close>

definition bail_if :: "bool \<Rightarrow> string \<Rightarrow> unit result \<Rightarrow> unit result" where
  "bail_if b m r = (if b then Inl (Msg m) else r)"

lemma bail_if_Inr [simp]: "bail_if b m r = Inr () \<longleftrightarrow> \<not> b \<and> r = Inr ()"
  by (simp add: bail_if_def)

definition template_validate :: "string \<times> string \<Rightarrow> unit result" where
  "template_validate = (\<lambda>(name, tmpl).
     bail_if (\<not> str_contains tmpl ''{collector}'')
       (''[archive.custom_templates].'' @ name @ '' must contain {collector} token'')
     (bail_if (\<not> str_contains tmpl ''{yyyymmdd}'' \<or> \<not> str_contains tmpl ''{hhmm}'')
       (''[archive.custom_templates].'' @ name @ '' must contain {yyyymmdd} and {hhmm} tokens'')
     (Inr ())))"

definition templates_validate :: "custom_layout_templates \<Rightarrow> unit result" where
  "templates_validate t =
     check_all template_validate [(''updates'', ct_updates t), (''ribs'', ct_ribs t)]"

definition destination_validate :: "archive_destination_config \<Rightarrow> unit result" where
  "destination_validate d =
     (case ad_type d of
        Local \<Rightarrow> bail_if (ad_path d = None)
          ''archive destination type=local requires path'' (Inr ())
      | S3 \<Rightarrow> bail_if (ad_endpoint d = None \<or> ad_bucket d = None)
          ''archive destination type=s3 requires endpoint and bucket'' (Inr ()))"

definition archive_validate :: "archive_config \<Rightarrow> unit result" where
  "archive_validate c =
     (if \<not> ac_enabled c then Inr ()
      else
      bail_if (trim (ac_collector_id c) = [])
        ''[archive].collector_id must not be empty''
      (bail_if (ac_updates_interval_secs c = 0 \<or> 3600 mod ac_updates_interval_secs c \<noteq> 0)
        (''[archive].updates_interval_secs must be >0 and divide 3600, got '' @
         show_nat (unat (ac_updates_interval_secs c)))
      (bail_if (ac_ribs_interval_secs c = 0 \<or>
                ac_ribs_interval_secs c mod ac_updates_interval_secs c \<noteq> 0)
        ''[archive].ribs_interval_secs must be >0 and a multiple of updates_interval_secs''
      (bail_if (ac_destinations c = [])
        ''[archive].destinations must include at least one destination''
      (bail_if (length (filter (\<lambda>d. ad_mode d = Primary) (ac_destinations c)) = 0)
        ''[archive].destinations must include at least one mode=primary destination''
      (bind_res
        (if ac_layout_profile c = Custom
         then bind_res
                (ok_or (Msg ''[archive].layout_profile=custom requires [archive.custom_templates]'')
                  (ac_custom_templates c))
                templates_validate
         else Inr ())
        (\<lambda>_. check_all destination_validate (ac_destinations c))))))))"

definition peer_validate :: "peer_config \<Rightarrow> unit result" where
  "peer_validate p =
     bail_if (pc_remote_as p = 0)
       (''peer '' @ pc_address p @ '' has invalid remote_as 0'')
     (bail_if (pc_remote_port p = 0)
       (''peer '' @ pc_address p @ '' has invalid remote_port 0'')
     (bail_if (pc_hold_time_secs p \<noteq> 0 \<and> pc_hold_time_secs p < 3)
       (''peer '' @ pc_address p @ '' has invalid hold_time_secs '' @
        show_nat (unat (pc_hold_time_secs p)) @ ''; must be 0 or >=3'')
     (case pc_local_address p of
        None \<Rightarrow> Inr ()
      | Some local \<Rightarrow>
          bail_if (parse_socket local = None \<and> parse_ip local = None)
            (''peer '' @ pc_address p @ '' has invalid local_address '' @ local @
             ''; expected IP or socket address'') (Inr ()))))"

definition focl_validate :: "(string \<Rightarrow> ip_net result) \<Rightarrow> focl_config \<Rightarrow> unit result" where
  "focl_validate parse_net c =
     bail_if (gc_asn (fc_global c) = 0) ''[global].asn must be non-zero''
     (bail_if (parse_ipv4 (gc_router_id (fc_global c)) = None)
       ''[global].router_id must be a valid IPv4 address''
     (bind_res (check_all peer_validate (fc_peers c)) (\<lambda>_.
      bind_res
        (check_all
           (\<lambda>p. bind_res
              (with_context (''invalid IP prefix in [[prefixes]]: '' @ px_network p)
                 (parse_net (px_network p)))
              (\<lambda>_. Inr ()))
           (fc_prefixes c)) (\<lambda>_.
      archive_validate (fc_archive c)))))"

definition focl_load ::
  "(path \<Rightarrow> string result) \<Rightarrow> (string \<Rightarrow> focl_config result) \<Rightarrow> (string \<Rightarrow> ip_net result) \<Rightarrow>
   path \<Rightarrow> focl_config result" where
  "focl_load read_to_string from_toml parse_net p =
     bind_res (with_context (''failed to read config file '' @ p) (read_to_string p)) (\<lambda>raw.
     bind_res (with_context (''failed to parse TOML in '' @ p) (from_toml raw)) (\<lambda>cfg.
     bind_res (with_context (''config validation failed for '' @ p) (focl_validate parse_net cfg))
       (\<lambda>_. Inr cfg)))"

section \<open>What validation guarantees\<close>

lemma word_mod_zero_iff: "a mod b = (0 :: u32) \<longleftrightarrow> unat b dvd unat a"
  by (metis dvd_eq_mod_eq_0 unat_0 unat_eq_zero unat_mod)

lemma word_nonzero_unat: "(a :: 'a::len word) \<noteq> 0 \<longleftrightarrow> 0 < unat a"
  by (simp add: unat_gt_0)

definition template_ok :: "string \<Rightarrow> bool" where
  "template_ok t \<longleftrightarrow>
     str_contains t ''{collector}'' \<and> str_contains t ''{yyyymmdd}'' \<and> str_contains t ''{hhmm}''"

definition destination_ok :: "archive_destination_config \<Rightarrow> bool" where
  "destination_ok d \<longleftrightarrow>
     (ad_type d = Local \<longrightarrow> ad_path d \<noteq> None) \<and>
     (ad_type d = S3 \<longrightarrow> ad_endpoint d \<noteq> None \<and> ad_bucket d \<noteq> None)"

definition archive_ok :: "archive_config \<Rightarrow> bool" where
  "archive_ok c \<longleftrightarrow>
     (\<exists>ch \<in> set (ac_collector_id c). \<not> is_space ch) \<and>
     0 < unat (ac_updates_interval_secs c) \<and> unat (ac_updates_interval_secs c) dvd 3600 \<and>
     0 < unat (ac_ribs_interval_secs c) \<and>
     unat (ac_updates_interval_secs c) dvd unat (ac_ribs_interval_secs c) \<and>
     (\<exists>d \<in> set (ac_destinations c). ad_mode d = Primary) \<and>
     (ac_layout_profile c = Custom \<longrightarrow>
        (\<exists>t. ac_custom_templates c = Some t \<and> template_ok (ct_updates t) \<and> template_ok (ct_ribs t))) \<and>
     (\<forall>d \<in> set (ac_destinations c). destination_ok d)"

lemma destination_validate_iff: "destination_validate d = Inr () \<longleftrightarrow> destination_ok d"
  by (cases "ad_type d") (auto simp: destination_validate_def destination_ok_def)

lemma templates_validate_iff:
  "templates_validate t = Inr () \<longleftrightarrow> template_ok (ct_updates t) \<and> template_ok (ct_ribs t)"
  by (auto simp: templates_validate_def bind_res_Inr template_validate_def template_ok_def)

lemma archive_validate_ok_iff:
  assumes "ac_enabled c"
  shows "archive_validate c = Inr () \<longleftrightarrow> archive_ok c"
  using assms
  unfolding archive_validate_def archive_ok_def
  by (cases "ac_layout_profile c = Custom"; cases "ac_custom_templates c")
     (auto simp: trim_empty_iff word_mod_zero_iff word_nonzero_unat filter_empty_conv
        check_all_Inr destination_validate_iff templates_validate_iff bind_res_Inr)

definition peer_ok :: "peer_config \<Rightarrow> bool" where
  "peer_ok p \<longleftrightarrow>
     pc_remote_as p \<noteq> 0 \<and> pc_remote_port p \<noteq> 0 \<and>
     (unat (pc_hold_time_secs p) = 0 \<or> 3 \<le> unat (pc_hold_time_secs p)) \<and>
     (\<forall>l \<in> set_option (pc_local_address p). parse_socket l \<noteq> None \<or> parse_ip l \<noteq> None)"

lemma peer_validate_iff: "peer_validate p = Inr () \<longleftrightarrow> peer_ok p"
  by (auto simp: peer_validate_def peer_ok_def word_less_nat_alt unat_eq_0 split: option.splits)

lemma archive_validate_disabled: "\<not> ac_enabled c \<Longrightarrow> archive_validate c = Inr ()"
  by (simp add: archive_validate_def)


definition demo_peer :: peer_config where
  "demo_peer =
     \<lparr>pc_address = ''192.0.2.1'', pc_remote_as = 64512, pc_local_as = None,
      pc_hold_time_secs = 90, pc_connect_retry_secs = 5, pc_remote_port = 179,
      pc_local_address = Some ''192.0.2.9'', pc_enabled = True, pc_passive = False,
      pc_route_refresh = True, pc_name = None, pc_password = None\<rparr>"

definition demo_config :: focl_config where
  "demo_config =
     \<lparr>fc_global = \<lparr>gc_asn = 65000, gc_router_id = ''192.0.2.7'', gc_listen = default_listen,
        gc_listen_addr = default_listen_addr, gc_control_socket = default_control_socket,
        gc_log_level = default_log_level\<rparr>,
      fc_peers = [demo_peer], fc_prefixes = [], fc_archive = default_archive\<lparr>ac_enabled := True\<rparr>\<rparr>"

lemma demo_archive_ok: "archive_ok (default_archive\<lparr>ac_enabled := True\<rparr>)"
  by (simp add: archive_ok_def default_archive_def config_defaults destination_ok_def is_space_def)


end
