(* ===== verification/Types.thy ===== *)
theory Types
  imports Prelude
begin

text \<open>
  \<^verbatim>\<open>src/types.rs\<close>: the control protocol's messages, the states of a peer and the events the
  daemon broadcasts. A JSON document (\<^verbatim>\<open>serde_json::Value\<close>) is a value of the datatype
  \<open>json\<close>; turning it into text and back is left to the components that do so.
\<close>

datatype json =
    JNull
  | JBool bool
  | JNum int
  | JStr string
  | JArr "json list"
  | JObj "(string \<times> json) list"

record control_request =
  req_version :: u16
  req_id :: string
  req_cmd :: string
  req_args :: json

record control_error =
  err_code :: string
  err_message :: string

record control_response =
  resp_version :: u16
  resp_id :: string
  resp_ok :: bool
  resp_result :: "json option"
  resp_error :: "control_error option"

definition response_ok :: "string \<Rightarrow> json \<Rightarrow> control_response" where
  "response_ok rid result =
     \<lparr>resp_version = 1, resp_id = rid, resp_ok = True, resp_result = Some result,
      resp_error = None\<rparr>"

definition response_err :: "string \<Rightarrow> string \<Rightarrow> string \<Rightarrow> control_response" where
  "response_err rid code message =
     \<lparr>resp_version = 1, resp_id = rid, resp_ok = False, resp_result = None,
      resp_error = Some \<lparr>err_code = code, err_message = message\<rparr>\<rparr>"

datatype peer_state = Idle | Connect | Active | OpenSent | OpenConfirm | Established

datatype event =
    PeerStateEvent string peer_state
  | ArchiveSegmentOpened string string int
  | ArchiveSegmentFinalized string string int u64
  | ArchiveReplicationSucceeded string string
  | ArchiveReplicationFailed string string string

record event_envelope =
  env_version :: u16
  env_type :: string
  env_event :: event

definition envelope_new :: "event \<Rightarrow> event_envelope" where
  "envelope_new e = \<lparr>env_version = 1, env_type = ''event'', env_event = e\<rparr>"

lemmas response_defs = response_ok_def response_err_def

end
