(* ===== verification/Archive_Types.thy ===== *)
theory Archive_Types
  imports Config Types
begin

text \<open>
  \<^verbatim>\<open>src/archive/types.rs\<close>: the records the archive's components exchange.
\<close>

datatype archive_stream = Updates | Ribs

definition stream_as_str :: "archive_stream \<Rightarrow> string" where
  "stream_as_str s = (case s of Updates \<Rightarrow> ''updates'' | Ribs \<Rightarrow> ''ribs'')"

record seg_paths =
  sp_tmp_path :: path
  sp_final_path :: path
  sp_relative_path :: path

record finalized_segment =
  fs_stream :: archive_stream
  fs_start_ts :: int
  fs_end_ts :: int
  fs_record_count :: u64
  fs_bytes :: u64
  fs_compression :: compression_kind
  fs_final_path :: path
  fs_relative_path :: path
  fs_manifest_path :: path

record update_record_input =
  ur_timestamp :: int
  ur_peer_asn :: u32
  ur_local_asn :: u32
  ur_interface_index :: u16
  ur_peer_ip :: ipv4_addr
  ur_local_ip :: ipv4_addr
  ur_bgp_message :: bytes

record peer_state_record_input =
  ps_timestamp :: int
  ps_peer_asn :: u32
  ps_local_asn :: u32
  ps_interface_index :: u16
  ps_peer_ip :: ipv4_addr
  ps_local_ip :: ipv4_addr
  ps_old_state :: u16
  ps_new_state :: u16

record snapshot_peer =
  sn_peer_bgp_id :: ipv4_addr
  sn_peer_ip :: ip_addr
  sn_peer_asn :: u32

record snapshot_route =
  sr_sequence :: u32
  sr_prefix :: ipv4_addr
  sr_prefix_len :: u8
  sr_peer_index :: u16
  sr_originated_time :: u32
  sr_path_attributes :: bytes

record rib_snapshot_input =
  rs_timestamp :: int
  rs_collector_bgp_id :: ipv4_addr
  rs_view_name :: string
  rs_peers :: "snapshot_peer list"
  rs_routes :: "snapshot_route list"

record archive_status =
  as_enabled :: bool
  as_collector_id :: string
  as_updates_interval_secs :: u32
  as_ribs_interval_secs :: u32
  as_updates_open_path :: "path option"
  as_updates_record_count :: u64
  as_ribs_last_path :: "path option"
  as_ribs_last_record_count :: u64
  as_queued_replication_jobs :: u64
  as_replication_failures :: u64

end
