(* ===== verification/Control.thy ===== *)
theory Control
  imports Archive_Types
begin

text \<open>
  \<^verbatim>\<open>src/control/mod.rs\<close>: the commands of the control socket and their arguments and results.
  Texts and arguments are read and printed by \<^verbatim>\<open>serde\<close> and \<^verbatim>\<open>serde_json\<close>, through code derived
  from the types: these functions are gathered in \<open>serde_lib\<close>, and \<open>serde_laws\<close> says what the
  daemon and its client rely on. The fields of a JSON object are listed in the order of the
  sources.
\<close>

datatype command_kind =
    Ping
  | DaemonStatus
  | Shutdown
  | Reload
  | PeerList
  | PeerShow
  | PeerReset
  | RibSummary
  | RibIn
  | RibOut
  | ArchiveStatus
  | ArchiveRollover
  | ArchiveSnapshotNow
  | ArchiveDestinations
  | ArchiveReplicatorRetry
  | Unsupported

definition command_names :: "(string \<times> command_kind) list" where
  "command_names =
     [(''ping'', Ping),
      (''daemon_status'', DaemonStatus),
      (''shutdown'', Shutdown),
      (''reload'', Reload),
      (''peer_list'', PeerList),
      (''peer_show'', PeerShow),
      (''peer_reset'', PeerReset),
      (''rib_summary'', RibSummary),
      (''rib_in'', RibIn),
      (''rib_out'', RibOut),
      (''archive_status'', ArchiveStatus),
      (''archive_rollover'', ArchiveRollover),
      (''archive_snapshot_now'', ArchiveSnapshotNow),
      (''archive_destinations'', ArchiveDestinations),
      (''archive_replicator_retry'', ArchiveReplicatorRetry)]"

definition from_request :: "control_request \<Rightarrow> command_kind" where
  "from_request req =
     (case map_of command_names (req_cmd req) of Some k \<Rightarrow> k | None \<Rightarrow> Unsupported)"

record peer_key_args =
  pk_peer :: string

datatype control_stream = UpdatesStream | RibsStream

record archive_rollover_args =
  ra_stream :: control_stream

record archive_status_result =
  sr_enabled :: bool
  sr_collector_id :: string
  sr_updates_interval_secs :: u32
  sr_ribs_interval_secs :: u32
  sr_updates_open_path :: "string option"
  sr_updates_record_count :: u64
  sr_ribs_last_path :: "string option"
  sr_ribs_last_record_count :: u64
  sr_queued_replication_jobs :: u64
  sr_replication_failures :: u64

section \<open>Values\<close>

definition opt_str :: "string option \<Rightarrow> json" where
  "opt_str x = (case x of None \<Rightarrow> JNull | Some s \<Rightarrow> JStr s)"

definition word_num :: "'l::len word \<Rightarrow> json" where
  "word_num x = JNum (uint x)"

definition status_as_value :: "archive_status_result \<Rightarrow> json" where
  "status_as_value s =
     JObj [(''enabled'', JBool (sr_enabled s)),
           (''collector_id'', JStr (sr_collector_id s)),
           (''updates_interval_secs'', word_num (sr_updates_interval_secs s)),
           (''ribs_interval_secs'', word_num (sr_ribs_interval_secs s)),
           (''updates_open_path'', opt_str (sr_updates_open_path s)),
           (''updates_record_count'', word_num (sr_updates_record_count s)),
           (''ribs_last_path'', opt_str (sr_ribs_last_path s)),
           (''ribs_last_record_count'', word_num (sr_ribs_last_record_count s)),
           (''queued_replication_jobs'', word_num (sr_queued_replication_jobs s)),
           (''replication_failures'', word_num (sr_replication_failures s))]"

record archive_destination_result =
  dr_key :: string
  dr_mode :: string
  dr_destination_type :: string

definition destination_value :: "archive_destination_result \<Rightarrow> json" where
  "destination_value d =
     JObj [(''key'', JStr (dr_key d)), (''mode'', JStr (dr_mode d)), (''type'', JStr (dr_destination_type d))]"

definition destinations_as_value :: "archive_destination_result list \<Rightarrow> json" where
  "destinations_as_value ds = JObj [(''destinations'', JArr (map destination_value ds))]"

section \<open>Reading and printing\<close>

record serde_lib =
  sx_request :: "string \<Rightarrow> control_request result"
  sx_show_request :: "control_request \<Rightarrow> string result"
  sx_response :: "string \<Rightarrow> control_response result"
  sx_show_response :: "control_response \<Rightarrow> string result"
  sx_pretty_response :: "control_response \<Rightarrow> string result"
  sx_show_event :: "event_envelope \<Rightarrow> string result"
  sx_peer_key :: "json \<Rightarrow> peer_key_args result"
  sx_rollover :: "json \<Rightarrow> archive_rollover_args result"

text \<open>A compact JSON document is a line of text of its own.\<close>

definition newline :: char where
  "newline = CHR 0x0A"

definition one_line :: "string \<Rightarrow> bool" where
  "one_line t \<longleftrightarrow> t \<noteq> [] \<and> newline \<notin> set t \<and> trim_end t = t \<and> valid_utf8 (map of_char (t @ [newline]))"

text \<open>
  A printed request is read back; so is a printed response, unless its result is the value
  null, which is read as a missing one. The empty text is no document. Objects with the one field of the arguments are read as
  these arguments; the streams have names in snake case.
\<close>

definition serde_laws :: "'y serde_lib_scheme \<Rightarrow> bool" where
  "serde_laws S \<longleftrightarrow>
     (\<forall>r. \<exists>t. sx_show_request S r = Inr t \<and> one_line t \<and> sx_request S t = Inr r) \<and>
     (\<forall>r. \<exists>t. sx_show_response S r = Inr t \<and> one_line t \<and>
        (resp_result r \<noteq> Some JNull \<longrightarrow> sx_response S t = Inr r)) \<and>
     (\<exists>e. sx_response S [] = Inl e) \<and>
     (\<forall>p. sx_peer_key S (JObj [(''peer'', JStr p)]) = Inr \<lparr>pk_peer = p\<rparr>) \<and>
     sx_rollover S (JObj [(''stream'', JStr ''updates'')]) = Inr \<lparr>ra_stream = UpdatesStream\<rparr> \<and>
     sx_rollover S (JObj [(''stream'', JStr ''ribs'')]) = Inr \<lparr>ra_stream = RibsStream\<rparr>"

lemma trim_end_newline [simp]: "trim_end (t @ [newline]) = trim_end t"
  by (simp add: trim_end_def newline_def is_space_def)

end
