(* ===== verification/Json_Text.thy ===== *)
theory Json_Text
  imports Control
begin

text \<open>
  A text format for JSON values with a reader for its printer. It is the concrete function the
  witnesses put in the place of \<^verbatim>\<open>serde_json\<close>, so that the laws assumed of it are seen to hold
  together. Only visible ASCII characters are used, so every text is a line of its own.
\<close>

definition half :: "nat \<Rightarrow> char" where
  "half n = char_of (65 + n)"

definition half_val :: "char \<Rightarrow> nat" where
  "half_val c = of_char c - 65"

lemma half_val_half [simp]: "n < 16 \<Longrightarrow> half_val (half n) = n"
  by (simp add: half_def half_val_def)

fun put_str :: "string \<Rightarrow> string" where
  "put_str [] = ''.''"
| "put_str (c # cs) = CHR ''c'' # half (of_char c div 16) # half (of_char c mod 16) # put_str cs"

fun get_str :: "string \<Rightarrow> (string \<times> string) option" where
  "get_str (t # a # b # s) =
     (if t = CHR ''c'' then map_option (\<lambda>(x, r). (char_of (half_val a * 16 + half_val b) # x, r)) (get_str s)
      else if t = CHR ''.'' then Some ([], a # b # s) else None)"
| "get_str (t # s) = (if t = CHR ''.'' then Some ([], s) else None)"
| "get_str [] = None"

lemma char_parts: "of_char c div 16 < (16 :: nat)" "of_char c mod 16 < (16 :: nat)"
  using nat_of_char_less_256 [of c] by (simp_all add: less_mult_imp_div_less)

lemma get_put_str [simp]: "get_str (put_str s @ r) = Some (s, r)"
proof (induction s)
  case Nil
  show ?case by (cases r; cases "tl r") auto
next
  case (Cons c s)
  have "half_val (half (of_char c div 16)) * 16 + half_val (half (of_char c mod 16)) = of_char c"
    using char_parts [of c] by simp
  with Cons show ?case by simp
qed

definition put_num :: "int \<Rightarrow> string" where
  "put_num i = (if i < 0 then CHR ''m'' else CHR ''p'') # replicate (nat \<bar>i\<bar>) (CHR ''1'') @ ''.''"

fun get_ones :: "string \<Rightarrow> (nat \<times> string) option" where
  "get_ones (c # s) =
     (if c = CHR ''.'' then Some (0, s) else map_option (\<lambda>(n, r). (Suc n, r)) (get_ones s))"
| "get_ones [] = None"

fun get_num :: "string \<Rightarrow> (int \<times> string) option" where
  "get_num (c # s) = map_option (\<lambda>(n, r). (if c = CHR ''m'' then - int n else int n, r)) (get_ones s)"
| "get_num [] = None"

lemma get_ones_replicate: "get_ones (replicate n (CHR ''1'') @ CHR ''.'' # r) = Some (n, r)"
  by (induction n) simp_all

lemma get_put_num [simp]: "get_num (put_num i @ r) = Some (i, r)"
  by (simp add: put_num_def get_ones_replicate)

fun put_json :: "json \<Rightarrow> string" where
  "put_json JNull = ''n''"
| "put_json (JBool b) = (if b then ''t'' else ''f'')"
| "put_json (JNum i) = CHR ''i'' # put_num i"
| "put_json (JStr s) = CHR ''s'' # put_str s"
| "put_json (JArr xs) = CHR ''a'' # concat (map (\<lambda>x. CHR ''e'' # put_json x) xs) @ ''.''"
| "put_json (JObj kvs) = CHR ''o'' # concat (map (\<lambda>kv. CHR ''e'' # put_str (fst kv) @ put_json (snd kv)) kvs) @ ''.''"

text \<open>The first argument bounds the nesting; the length of the text is enough.\<close>

fun get_json :: "nat \<Rightarrow> string \<Rightarrow> (json \<times> string) option"
  and get_items :: "nat \<Rightarrow> string \<Rightarrow> (json list \<times> string) option"
  and get_fields :: "nat \<Rightarrow> string \<Rightarrow> ((string \<times> json) list \<times> string) option" where
  "get_json 0 s = None"
| "get_json (Suc n) [] = None"
| "get_json (Suc n) (c # s) =
     (if c = CHR ''n'' then Some (JNull, s)
      else if c = CHR ''t'' then Some (JBool True, s)
      else if c = CHR ''f'' then Some (JBool False, s)
      else if c = CHR ''i'' then map_option (apfst JNum) (get_num s)
      else if c = CHR ''s'' then map_option (apfst JStr) (get_str s)
      else if c = CHR ''a'' then map_option (apfst JArr) (get_items n s)
      else if c = CHR ''o'' then map_option (apfst JObj) (get_fields n s)
      else None)"
| "get_items 0 s = None"
| "get_items (Suc n) [] = None"
| "get_items (Suc n) (c # s) =
     (if c = CHR ''.'' then Some ([], s)
      else Option.bind (get_json n s) (\<lambda>(x, r). map_option (apfst ((#) x)) (get_items n r)))"
| "get_fields 0 s = None"
| "get_fields (Suc n) [] = None"
| "get_fields (Suc n) (c # s) =
     (if c = CHR ''.'' then Some ([], s)
      else Option.bind (get_str s) (\<lambda>(k, r1). Option.bind (get_json n r1) (\<lambda>(x, r).
        map_option (apfst ((#) (k, x))) (get_fields n r))))"

lemma get_items_put:
  assumes "\<And>x r n. x \<in> set xs \<Longrightarrow> length (put_json x) \<le> n \<Longrightarrow> get_json n (put_json x @ r) = Some (x, r)"
    and "length (concat (map (\<lambda>x. CHR ''e'' # put_json x) xs)) < n"
  shows "get_items n (concat (map (\<lambda>x. CHR ''e'' # put_json x) xs) @ CHR ''.'' # r) = Some (xs, r)"
  using assms
proof (induction xs arbitrary: n)
  case (Cons x xs)
  then obtain m where "n = Suc m" by (cases n) auto
  with Cons show ?case by simp
qed (auto simp: gr0_conv_Suc)

lemma get_fields_put:
  assumes "\<And>kv r n. kv \<in> set kvs \<Longrightarrow> length (put_json (snd kv)) \<le> n \<Longrightarrow> get_json n (put_json (snd kv) @ r) = Some (snd kv, r)"
    and "length (concat (map (\<lambda>kv. CHR ''e'' # put_str (fst kv) @ put_json (snd kv)) kvs)) < n"
  shows "get_fields n (concat (map (\<lambda>kv. CHR ''e'' # put_str (fst kv) @ put_json (snd kv)) kvs) @ CHR ''.'' # r) = Some (kvs, r)"
  using assms
proof (induction kvs arbitrary: n)
  case (Cons kv kvs)
  then obtain m where "n = Suc m" by (cases n) auto
  with Cons show ?case by simp
qed (auto simp: gr0_conv_Suc)

lemma get_put_json: "length (put_json j) \<le> n \<Longrightarrow> get_json n (put_json j @ r) = Some (j, r)"
proof (induction j arbitrary: n r)
  case (JArr xs)
  then obtain m where n: "n = Suc m" by (cases n) auto
  have "get_items m (concat (map (\<lambda>x. CHR ''e'' # put_json x) xs) @ CHR ''.'' # r) = Some (xs, r)"
    using JArr n by (intro get_items_put) auto
  with n show ?case by simp
next
  case (JObj kvs)
  then obtain m where n: "n = Suc m" by (cases n) auto
  have "get_fields m (concat (map (\<lambda>kv. CHR ''e'' # put_str (fst kv) @ put_json (snd kv)) kvs) @ CHR ''.'' # r) = Some (kvs, r)"
    using JObj n by (intro get_fields_put) (auto intro: snds.intros)
  with n show ?case by simp
qed (auto simp: neq_Nil_conv Suc_le_eq gr0_conv_Suc dest!: less_imp_Suc_add)

section \<open>Texts are lines\<close>

definition visible :: "string \<Rightarrow> bool" where
  "visible s \<longleftrightarrow> (\<forall>c \<in> set s. 32 < (of_char c :: nat) \<and> (of_char c :: nat) < 127)"

lemma visible_simps [simp]:
  "visible []" "visible (c # s) \<longleftrightarrow> 32 < (of_char c :: nat) \<and> (of_char c :: nat) < 127 \<and> visible s"
  "visible (s @ t) \<longleftrightarrow> visible s \<and> visible t" "visible (concat ss) \<longleftrightarrow> (\<forall>s \<in> set ss. visible s)"
  by (auto simp: visible_def)

lemma visible_half: "n < 16 \<Longrightarrow> 32 < (of_char (half n) :: nat) \<and> (of_char (half n) :: nat) < 127"
  by (simp add: half_def)

lemma visible_put_str [simp]: "visible (put_str s)"
  using char_parts visible_half by (induction s) simp_all

lemma visible_put_num [simp]: "visible (put_num i)"
proof -
  have "visible (replicate n (CHR ''1''))" for n by (induction n) simp_all
  then show ?thesis by (simp add: put_num_def)
qed

lemma visible_put_json [simp]: "visible (put_json j)"
  by (induction j) (auto intro: snds.intros)

lemma put_json_nonempty [simp]: "put_json j \<noteq> []"
  by (cases j) simp_all

lemma byte_of_char: "(of_char c :: nat) < 128 \<Longrightarrow> (of_char c :: u8) < 128"
proof -
  assume "(of_char c :: nat) < 128"
  then have "unat (of_nat (of_char c) :: u8) < 128" by (simp add: unat_of_nat)
  then show ?thesis by (simp add: word_less_nat_alt of_nat_of_char)
qed

lemma visible_one_line:
  assumes "visible t" "t \<noteq> []"
  shows "one_line t"
proof -
  have no_space: "\<not> is_space c" if "c \<in> set t" for c
    using assms(1) that by (auto simp: is_space_def visible_def)
  then have "newline \<notin> set t" by (auto simp: newline_def is_space_def)
  moreover have "trim_end t = t"
    using no_space [of "last t"] assms(2) by (cases t rule: rev_cases) (simp_all add: trim_end_def)
  moreover have "valid_utf8 (map of_char (t @ [newline]))"
  proof (rule valid_utf8_ascii)
    show "\<forall>b \<in> set (map of_char (t @ [newline])). b < (128 :: u8)"
      using assms(1) by (auto simp: visible_def newline_def intro!: byte_of_char)
  qed
  ultimately show ?thesis using assms(2) by (simp add: one_line_def)
qed

section \<open>The messages\<close>

definition request_json :: "control_request \<Rightarrow> json" where
  "request_json r = JArr [JNum (uint (req_version r)), JStr (req_id r), JStr (req_cmd r), req_args r]"

definition json_request :: "json \<Rightarrow> control_request result" where
  "json_request j =
     (case j of
        JArr [JNum v, JStr i, JStr c, a] \<Rightarrow> Inr \<lparr>req_version = of_int v, req_id = i, req_cmd = c, req_args = a\<rparr>
      | _ \<Rightarrow> Inl (Msg ''not a request''))"

definition error_json :: "control_error option \<Rightarrow> json" where
  "error_json e = (case e of None \<Rightarrow> JNull | Some x \<Rightarrow> JArr [JStr (err_code x), JStr (err_message x)])"

definition json_error :: "json \<Rightarrow> control_error option" where
  "json_error j = (case j of JArr [JStr c, JStr m] \<Rightarrow> Some \<lparr>err_code = c, err_message = m\<rparr> | _ \<Rightarrow> None)"

definition response_json :: "control_response \<Rightarrow> json" where
  "response_json p =
     JArr [JNum (uint (resp_version p)), JStr (resp_id p), JBool (resp_ok p),
           (case resp_result p of None \<Rightarrow> JNull | Some j \<Rightarrow> j), error_json (resp_error p)]"

definition json_response :: "json \<Rightarrow> control_response result" where
  "json_response j =
     (case j of
        JArr [JNum v, JStr i, JBool k, r, e] \<Rightarrow>
          Inr \<lparr>resp_version = of_int v, resp_id = i, resp_ok = k, resp_result = (if r = JNull then None else Some r),
               resp_error = json_error e\<rparr>
      | _ \<Rightarrow> Inl (Msg ''not a response''))"

definition read_all :: "(json \<Rightarrow> 'a result) \<Rightarrow> string \<Rightarrow> 'a result" where
  "read_all f t = (case get_json (length t) t of Some (j, []) \<Rightarrow> f j | _ \<Rightarrow> Inl (Msg ''not a document''))"

definition demo_serde :: serde_lib where
  "demo_serde =
     \<lparr>sx_request = read_all json_request, sx_show_request = (\<lambda>r. Inr (put_json (request_json r))),
      sx_response = read_all json_response, sx_show_response = (\<lambda>p. Inr (put_json (response_json p))),
      sx_pretty_response = (\<lambda>p. Inr (put_json (response_json p))),
      sx_show_event = (\<lambda>e. Inr (put_str (env_type e))),
      sx_peer_key = (\<lambda>j. case j of
         JObj [(k, JStr p)] \<Rightarrow> if k = ''peer'' then Inr \<lparr>pk_peer = p\<rparr> else Inl (Msg ''missing field'')
       | _ \<Rightarrow> Inl (Msg ''invalid type'')),
      sx_rollover = (\<lambda>j.
         if j = JObj [(''stream'', JStr ''updates'')] then Inr \<lparr>ra_stream = UpdatesStream\<rparr>
         else if j = JObj [(''stream'', JStr ''ribs'')] then Inr \<lparr>ra_stream = RibsStream\<rparr>
         else Inl (Msg ''invalid stream''))\<rparr>"

lemma read_all_put: "read_all f (put_json j) = f j"
  using get_put_json [of j "length (put_json j)" "[]"] by (simp add: read_all_def)

lemma json_request_json [simp]: "json_request (request_json r) = Inr r"
  by (simp add: json_request_def request_json_def)

lemma json_response_json: "resp_result p \<noteq> Some JNull \<Longrightarrow> json_response (response_json p) = Inr p"
proof -
  assume "resp_result p \<noteq> Some JNull"
  moreover have "json_error (error_json e) = e" for e by (cases e) (simp_all add: json_error_def error_json_def)
  ultimately show ?thesis by (cases "resp_result p") (auto simp: json_response_def response_json_def)
qed

lemma demo_serde_laws: "serde_laws demo_serde"
proof -
  have "read_all f [] = Inl (Msg ''not a document'')" for f :: "json \<Rightarrow> 'a result" by (simp add: read_all_def)
  then show ?thesis
    by (auto simp: serde_laws_def demo_serde_def read_all_put json_response_json intro!: visible_one_line)
qed

end
