(* ===== verification/World.thy ===== *)
theory World
  imports Rust_Path Types
begin

text \<open>
  The environment the daemon acts on: the files, the clock, and the broadcast events. Every
  call into the operating system is numbered by \<open>w_step\<close>; whether it fails, and with which
  message, is decided by the environment's \<open>w_fault\<close> from the number and the call, and
  reading the clock gives the \<open>w_clock\<close> value of that step, and \<open>w_io_len\<close> says how many
  bytes a partial read or write transfers. Nothing is assumed about any of them, so every
  error branch of the sources can be taken at every call. The database and the object store
  extend this record in the components that own them.
\<close>

datatype io_op =
    OpCreateDirAll path
  | OpCreateFile path
  | OpEncoder string path
  | OpSyncAll path
  | OpRename path path
  | OpMetadata path
  | OpOpen path
  | OpRead path
  | OpWriteFile path
  | OpReadFile path
  | OpCopy path path
  | OpRemoveFile path
  | OpReadDir path
  | OpBind path
  | OpSql string
  | OpS3Put string string string string

record world =
  w_files :: "path \<Rightarrow> bytes option"
  w_fault :: "nat \<Rightarrow> io_op \<Rightarrow> string option"
  w_clock :: "nat \<Rightarrow> int"
  w_io_len :: "nat \<Rightarrow> nat"
  w_step :: nat
  w_events :: "event_envelope list"

definition syscall :: "io_op \<Rightarrow> ('z world_scheme, unit) io" where
  "syscall op w =
     (case w_fault w (w_step w) op of
        Some m \<Rightarrow> (Inl (Msg m), w\<lparr>w_step := Suc (w_step w)\<rparr>)
      | None \<Rightarrow> (Inr (), w\<lparr>w_step := Suc (w_step w)\<rparr>))"

definition utc_now :: "('z world_scheme, int) io" where
  "utc_now w = (Inr (w_clock w (w_step w)), w\<lparr>w_step := Suc (w_step w)\<rparr>)"

text \<open>\<^verbatim>\<open>broadcast::Sender::send\<close>; that nobody listens is ignored by every caller.\<close>

definition emit :: "event \<Rightarrow> ('z world_scheme, unit) io" where
  "emit e = modify (\<lambda>w. w\<lparr>w_events := w_events w @ [envelope_new e]\<rparr>)"

section \<open>Files\<close>

definition not_found :: error where
  "not_found = Msg ''No such file or directory (os error 2)''"

definition set_file :: "path \<Rightarrow> bytes option \<Rightarrow> 'z world_scheme \<Rightarrow> 'z world_scheme" where
  "set_file p c w = w\<lparr>w_files := (w_files w)(p := c)\<rparr>"

definition content :: "path \<Rightarrow> ('z world_scheme, bytes) io" where
  "content p w = (ok_or not_found (w_files w p), w)"

definition create_dir_all :: "path \<Rightarrow> ('z world_scheme, unit) io" where
  "create_dir_all p = syscall (OpCreateDirAll p)"

definition file_create :: "path \<Rightarrow> ('z world_scheme, unit) io" where
  "file_create p = and_then (syscall (OpCreateFile p)) (\<lambda>_. modify (set_file p (Some [])))"

definition rename :: "path \<Rightarrow> path \<Rightarrow> ('z world_scheme, unit) io" where
  "rename a b =
     and_then (syscall (OpRename a b)) (\<lambda>_.
     and_then (content a) (\<lambda>c.
       modify (\<lambda>w. set_file b (Some c) (set_file a None w))))"

definition metadata_len :: "path \<Rightarrow> ('z world_scheme, u64) io" where
  "metadata_len p =
     and_then (syscall (OpMetadata p)) (\<lambda>_.
     and_then (content p) (\<lambda>c. ret (of_nat (length c))))"

text \<open>
  Writing a whole file is not atomic: a call that fails leaves the file as it was, or
  truncated and holding some of the bytes.
\<close>

definition file_store :: "io_op \<Rightarrow> path \<Rightarrow> bytes \<Rightarrow> ('z world_scheme, unit) io" where
  "file_store op p c w =
     (case syscall op w of
        (Inr _, w') \<Rightarrow> (Inr (), set_file p (Some c) w')
      | (Inl e, w') \<Rightarrow>
          (Inl e, case w_io_len w (w_step w) of
                    0 \<Rightarrow> w' | Suc k \<Rightarrow> set_file p (Some (take k c)) w'))"

definition write_file :: "path \<Rightarrow> bytes \<Rightarrow> ('z world_scheme, unit) io" where
  "write_file p c = file_store (OpWriteFile p) p c"

definition read_file :: "path \<Rightarrow> ('z world_scheme, bytes) io" where
  "read_file p = and_then (syscall (OpReadFile p)) (\<lambda>_. content p)"

text \<open>\<^verbatim>\<open>fs::copy\<close> truncates the target before it reads: a file copied to itself is lost.\<close>

definition copy_file :: "path \<Rightarrow> path \<Rightarrow> ('z world_scheme, unit) io" where
  "copy_file a b =
     and_then (content a) (\<lambda>c. file_store (OpCopy a b) b (if a = b then [] else c))"

definition remove_file :: "path \<Rightarrow> ('z world_scheme, unit) io" where
  "remove_file p =
     and_then (syscall (OpRemoveFile p)) (\<lambda>_.
     and_then (content p) (\<lambda>_. modify (set_file p None)))"

lemmas file_op_defs =
  create_dir_all_def file_create_def rename_def metadata_len_def write_file_def read_file_def
  copy_file_def remove_file_def

section \<open>Rules\<close>

lemma set_file_simps [simp]:
  "w_files (set_file p c w) = (w_files w)(p := c)"
  "w_fault (set_file p c w) = w_fault w"
  "w_clock (set_file p c w) = w_clock w"
  "w_io_len (set_file p c w) = w_io_len w"
  "w_step (set_file p c w) = w_step w"
  "w_events (set_file p c w) = w_events w"
  by (simp_all add: set_file_def)

lemma syscall_Inr [io_simps]:
  "syscall op w = (Inr u, w') \<longleftrightarrow>
     w_fault w (w_step w) op = None \<and> w' = w\<lparr>w_step := Suc (w_step w)\<rparr>"
  by (auto simp: syscall_def split: option.splits)

lemma syscall_Inl [io_simps]:
  "syscall op w = (Inl e, w') \<longleftrightarrow>
     (\<exists>m. w_fault w (w_step w) op = Some m \<and> e = Msg m \<and> w' = w\<lparr>w_step := Suc (w_step w)\<rparr>)"
  by (auto simp: syscall_def split: option.splits)

lemma utc_now_Inr [io_simps]:
  "utc_now w = (Inr t, w') \<longleftrightarrow>
     t = w_clock w (w_step w) \<and> w' = w\<lparr>w_step := Suc (w_step w)\<rparr>"
  by (auto simp: utc_now_def)

lemma utc_now_Inl [io_simps]: "utc_now w \<noteq> (Inl e, w')"
  by (simp add: utc_now_def)

lemma content_Inr [io_simps]: "content p w = (Inr c, w') \<longleftrightarrow> w_files w p = Some c \<and> w' = w"
  by (auto simp: content_def)

lemma content_Inl [io_simps]:
  "content p w = (Inl e, w') \<longleftrightarrow> w_files w p = None \<and> e = not_found \<and> w' = w"
  by (auto simp: content_def ok_or_def split: option.splits)

lemma file_store_Inr [io_simps]:
  "file_store op p c w = (Inr u, w') \<longleftrightarrow>
     w_fault w (w_step w) op = None \<and> w' = set_file p (Some c) (w\<lparr>w_step := Suc (w_step w)\<rparr>)"
  by (auto simp: file_store_def syscall_def split: option.splits)

lemma file_store_cases:
  obtains "snd (file_store op p c w) = w\<lparr>w_step := Suc (w_step w)\<rparr>"
    | c' where "snd (file_store op p c w) = set_file p (Some c') (w\<lparr>w_step := Suc (w_step w)\<rparr>)"
  by (cases "w_fault w (w_step w) op"; cases "w_io_len w (w_step w)") (auto simp: file_store_def syscall_def)

text \<open>
  An environment without faults. Its runs are the normal runs of the daemon; a property of
  such a run says that the code returns, not only what it returns.
\<close>

definition fault_free :: "'z world_scheme \<Rightarrow> bool" where
  "fault_free w \<longleftrightarrow> (\<forall>n op. w_fault w n op = None)"

lemma syscall_fault_free:
  "fault_free w \<Longrightarrow> syscall op w = (Inr (), w\<lparr>w_step := Suc (w_step w)\<rparr>)"
  by (simp add: syscall_def fault_free_def)

lemma fault_free_simps [simp]:
  "fault_free (w\<lparr>w_step := n\<rparr>) = fault_free w"
  "fault_free (w\<lparr>w_files := f\<rparr>) = fault_free w"
  "fault_free (w\<lparr>w_events := es\<rparr>) = fault_free w"
  "fault_free (set_file p c w) = fault_free w"
  by (simp_all add: fault_free_def)

text \<open>
  What no operation changes: the faults and the clock belong to the environment, the step
  number never goes back, events are only appended.
\<close>

definition env_le :: "'z world_scheme \<Rightarrow> 'z world_scheme \<Rightarrow> bool" where
  "env_le w w' \<longleftrightarrow>
     w_fault w' = w_fault w \<and> w_clock w' = w_clock w \<and>
     w_io_len w' = w_io_len w \<and> w_step w \<le> w_step w' \<and>
     prefix (w_events w) (w_events w')"

lemma env_le_refl [simp]: "env_le w w"
  by (simp add: env_le_def)

lemma env_le_trans: "env_le a b \<Longrightarrow> env_le b c \<Longrightarrow> env_le a c"
  by (auto simp: env_le_def)

lemma env_le_step [simp]: "env_le w (w\<lparr>w_step := Suc (w_step w)\<rparr>)"
  by (simp add: env_le_def)

lemma env_le_set_file [simp]: "env_le w (set_file p c w)"
  by (simp add: env_le_def)

lemma env_le_fault_free: "env_le w w' \<Longrightarrow> fault_free w \<Longrightarrow> fault_free w'"
  by (simp add: env_le_def fault_free_def)

text \<open>One step of the environment, for the simplifier.\<close>

abbreviation tick :: "'z world_scheme \<Rightarrow> 'z world_scheme" where
  "tick w \<equiv> w\<lparr>w_step := Suc (w_step w)\<rparr>"

lemma and_then_syscall:
  "fault_free w \<Longrightarrow> and_then (syscall op) f w = f () (tick w)"
  by (simp add: and_then_def syscall_fault_free)

lemma and_then_in_context_syscall:
  "fault_free w \<Longrightarrow> and_then (in_context c (syscall op)) f w = f () (tick w)"
  by (simp add: and_then_def in_context_def syscall_fault_free)

lemma file_store_fault_free:
  "fault_free w \<Longrightarrow> file_store op p c w = (Inr (), set_file p (Some c) (tick w))"
  by (simp add: file_store_def syscall_fault_free)

section \<open>Computations that only observe\<close>

text \<open>
  A computation that reads the environment but leaves everything except the step number as
  it was, whether it succeeds or fails.
\<close>

definition observes :: "('z world_scheme, 'a) io \<Rightarrow> bool" where
  "observes m \<longleftrightarrow> (\<forall>w. \<exists>n. w_step w \<le> n \<and> snd (m w) = w\<lparr>w_step := n\<rparr>)"

lemma observesI: "(\<And>w. \<exists>n. w_step w \<le> n \<and> snd (m w) = w\<lparr>w_step := n\<rparr>) \<Longrightarrow> observes m"
  by (simp add: observes_def)

lemma observesE:
  assumes "observes m" "m w = (r, w')"
  obtains n where "w_step w \<le> n" "w' = w\<lparr>w_step := n\<rparr>"
  using assms by (metis observes_def snd_conv)

lemma observes_nothing: "(\<And>w. snd (m w) = w) \<Longrightarrow> observes m"
  by (rule observesI) (metis order.refl world.surjective world.update_convs(5))

lemma observes_tick: "(\<And>w. snd (m w) = tick w) \<Longrightarrow> observes m"
  by (rule observesI) (metis le_SucI order.refl)

lemma observes_pure [intro, simp]:
  "observes (ret a)" "observes (fail e)" "observes (lift_res r)" "observes (content p)"
  "observes (gets h)"
  by (rule observes_nothing; simp add: content_def)+

lemma observes_syscall [intro, simp]: "observes (syscall op)" "observes utc_now"
  by (rule observes_tick; simp add: syscall_def utc_now_def split: option.splits)+

lemma observes_and_then [intro]:
  assumes "observes m" "\<And>a. observes (f a)"
  shows "observes (and_then m f)"
proof (rule observesI)
  fix w
  obtain r w1 where m: "m w = (r, w1)" by force
  from observesE [OF assms(1) m] obtain n where n: "w_step w \<le> n" "w1 = w\<lparr>w_step := n\<rparr>" .
  show "\<exists>n. w_step w \<le> n \<and> snd (and_then m f w) = w\<lparr>w_step := n\<rparr>"
  proof (cases r)
    case (Inl e)
    with m n show ?thesis by (auto simp: and_then_def)
  next
    case (Inr a)
    from assms(2) [of a] obtain k where "w_step w1 \<le> k" "snd (f a w1) = w1\<lparr>w_step := k\<rparr>"
      unfolding observes_def by blast
    with m n Inr show ?thesis by (intro exI [of _ k]) (simp add: and_then_def)
  qed
qed

lemma observes_in_context [intro]: "observes m \<Longrightarrow> observes (in_context c m)"
  by (simp add: observes_def)

lemma observes_env_le: "observes m \<Longrightarrow> env_le w (snd (m w))"
proof -
  assume "observes m"
  then obtain n where "w_step w \<le> n" "snd (m w) = w\<lparr>w_step := n\<rparr>" unfolding observes_def by blast
  then show ?thesis by (simp add: env_le_def)
qed

section \<open>Computations that touch some files only\<close>

definition touches :: "path set \<Rightarrow> ('z world_scheme, 'a) io \<Rightarrow> bool" where
  "touches Q m \<longleftrightarrow> (\<forall>w q. q \<notin> Q \<longrightarrow> w_files (snd (m w)) q = w_files w q)"

named_theorems touches_intros "computations that touch some files only"

lemma touchesD: "touches Q m \<Longrightarrow> m w = (r, w') \<Longrightarrow> q \<notin> Q \<Longrightarrow> w_files w' q = w_files w q"
  unfolding touches_def by (metis snd_conv)

lemma touches_and_then [touches_intros]:
  assumes "touches Q m" "\<And>a. touches Q (f a)"
  shows "touches Q (and_then m f)"
  unfolding touches_def
proof (intro allI impI)
  fix w q assume "q \<notin> Q"
  then show "w_files (snd (and_then m f w)) q = w_files w q"
    using assms unfolding touches_def
    by (intro and_then_rel [where R = "\<lambda>a b. w_files b q = w_files a q"]) auto
qed

lemma touches_in_context [touches_intros]: "touches Q m \<Longrightarrow> touches Q (in_context c m)"
  by (simp add: touches_def)

lemma touches_observes: "observes m \<Longrightarrow> touches Q m"
  unfolding touches_def observes_def
  by (metis world.ext_inject world.surjective world.update_convs(5))

lemma touches_basic [touches_intros]:
  "touches Q (ret a)" "touches Q (fail e)" "touches Q (lift_res r)" "touches Q (gets h)"
  "touches Q (content p)" "touches Q (syscall op)" "touches Q utc_now" "touches Q (create_dir_all p)"
  by (auto intro!: touches_observes simp: create_dir_all_def)

lemma touches_emit [touches_intros]: "touches Q (emit e)"
  by (simp add: touches_def emit_def)

lemma touches_file_create [touches_intros]: "p \<in> Q \<Longrightarrow> touches Q (file_create p)"
  by (auto simp: touches_def file_create_def and_then_def syscall_def split: option.splits)

lemma touches_remove_file [touches_intros]: "p \<in> Q \<Longrightarrow> touches Q (remove_file p)"
  by (auto simp: touches_def remove_file_def and_then_def syscall_def content_def ok_or_def
      split: option.splits)

lemma touches_for_each [touches_intros]:
  "(\<And>x. x \<in> set xs \<Longrightarrow> touches Q (f x)) \<Longrightarrow> touches Q (for_each xs f)"
  by (induction xs) (auto intro: touches_intros)

lemma touches_option [touches_intros]:
  "touches Q m \<Longrightarrow> (\<And>x. o1 = Some x \<Longrightarrow> touches Q (n x)) \<Longrightarrow> touches Q (case o1 of None \<Rightarrow> m | Some x \<Rightarrow> n x)"
  by (simp split: option.splits)

lemma touches_if [touches_intros]: "touches Q m \<Longrightarrow> touches Q n \<Longrightarrow> touches Q (if b then m else n)"
  by simp

end
