(* ===== verification/Queue.thy ===== *)
theory Queue
  imports World "HOL-Library.Monad_Syntax"
begin

text \<open>
  \<^verbatim>\<open>src/archive/queue.rs\<close>: the replication queue, one SQLite table in a file of its own.
  SQLite is a library of the environment; what the sources use of it is written out here as
  the table's rows and its \<^verbatim>\<open>AUTOINCREMENT\<close> counter. Every statement is one atomic call that
  can fail and then changes nothing; what a transaction did before a failure is rolled back.
\<close>

datatype job_status = Pending | InProgress | Failed

record queue_row =
  qr_id :: int
  qr_segment_path :: path
  qr_manifest_path :: path
  qr_destination_key :: string
  qr_attempts :: u32
  qr_max_retries :: u32
  qr_next_retry_ts :: int
  qr_status :: job_status
  qr_last_error :: "string option"
  qr_created_ts :: int
  qr_updated_ts :: int

record queue_table =
  qt_rows :: "queue_row list"
  qt_next_id :: int

text \<open>The environment of the archive: databases by path, objects stored in S3, and the
  replicator's counter of failures.\<close>

record store = world +
  st_dbs :: "path \<Rightarrow> queue_table option"
  st_objects :: "string \<times> string \<times> string \<Rightarrow> bytes option"
  st_failures :: u64

record replication_queue =
  rq_db_path :: path

record replication_job =
  rj_id :: int
  rj_segment_path :: path
  rj_manifest_path :: path
  rj_destination_key :: string
  rj_attempts :: u32
  rj_max_retries :: u32

section \<open>Statements\<close>

definition sql :: "string \<Rightarrow> ('z store_scheme, unit) io" where
  "sql stmt = syscall (OpSql stmt)"

definition no_such_table :: error where
  "no_such_table = Msg ''no such table: replication_queue''"

definition table :: "replication_queue \<Rightarrow> ('z store_scheme, queue_table) io" where
  "table q w = (ok_or no_such_table (st_dbs w (rq_db_path q)), w)"

definition put_table :: "replication_queue \<Rightarrow> queue_table \<Rightarrow> ('z store_scheme, unit) io" where
  "put_table q t = modify (\<lambda>w. w\<lparr>st_dbs := (st_dbs w)(rq_db_path q \<mapsto> t)\<rparr>)"

text \<open>A statement that reads and replaces the table, and commits by itself.\<close>

definition sql_update ::
  "replication_queue \<Rightarrow> string \<Rightarrow> (queue_table \<Rightarrow> (queue_table \<times> 'a) result) \<Rightarrow> ('z store_scheme, 'a) io" where
  "sql_update q stmt f =
     and_then (sql stmt) (\<lambda>_.
     and_then (table q) (\<lambda>t.
     and_then (lift_res (f t)) (\<lambda>(t', a).
     and_then (put_table q t') (\<lambda>_. ret a))))"

definition update_rows :: "(queue_row \<Rightarrow> bool) \<Rightarrow> (queue_row \<Rightarrow> queue_row) \<Rightarrow> queue_table \<Rightarrow> queue_table" where
  "update_rows P f t = t\<lparr>qt_rows := map (\<lambda>r. if P r then f r else r) (qt_rows t)\<rparr>"

definition delete_rows :: "(queue_row \<Rightarrow> bool) \<Rightarrow> queue_table \<Rightarrow> queue_table" where
  "delete_rows P t = t\<lparr>qt_rows := filter (\<lambda>r. \<not> P r) (qt_rows t)\<rparr>"

text \<open>\<^verbatim>\<open>AUTOINCREMENT\<close> never gives an id twice, and fails when the ids are used up.\<close>

definition insert_row :: "(int \<Rightarrow> queue_row) \<Rightarrow> queue_table \<Rightarrow> (queue_table \<times> unit) result" where
  "insert_row row t =
     (if qt_next_id t < 2 ^ 63
      then Inr (\<lparr>qt_rows = qt_rows t @ [row (qt_next_id t)], qt_next_id = qt_next_id t + 1\<rparr>, ())
      else Inl (Msg ''database or disk is full''))"

definition take_limit :: "int \<Rightarrow> 'a list \<Rightarrow> 'a list" where
  "take_limit n xs = (if n < 0 then xs else take (nat n) xs)"

section \<open>Operations\<close>

definition queue_open :: "replication_queue \<Rightarrow> ('z store_scheme, unit) io" where
  "queue_open q = in_context (''failed opening queue db '' @ rq_db_path q) (sql ''OPEN'')"

definition empty_table :: queue_table where
  "empty_table = \<lparr>qt_rows = [], qt_next_id = 1\<rparr>"

definition queue_init :: "replication_queue \<Rightarrow> ('z store_scheme, unit) io" where
  "queue_init q =
     and_then (queue_open q) (\<lambda>_.
     and_then (sql ''CREATE TABLE IF NOT EXISTS'') (\<lambda>_.
     and_then (modify (\<lambda>w. if st_dbs w (rq_db_path q) = None
                           then w\<lparr>st_dbs := (st_dbs w)(rq_db_path q \<mapsto> empty_table)\<rparr> else w)) (\<lambda>_.
       sql ''CREATE INDEX IF NOT EXISTS'')))"

definition queue_new :: "path \<Rightarrow> ('z store_scheme, replication_queue) io" where
  "queue_new root =
     (let db_path = join (join root ''.replication'') ''queue.sqlite''
      in and_then
           (case parent db_path of
              None \<Rightarrow> ret ()
            | Some d \<Rightarrow> in_context (''failed creating replication dir '' @ d) (create_dir_all d)) (\<lambda>_.
         and_then (queue_init \<lparr>rq_db_path = db_path\<rparr>) (\<lambda>_.
           ret \<lparr>rq_db_path = db_path\<rparr>)))"

definition new_row :: "path \<Rightarrow> path \<Rightarrow> string \<Rightarrow> u32 \<Rightarrow> int \<Rightarrow> int \<Rightarrow> queue_row" where
  "new_row segment_path manifest_path destination_key max_retries now i =
     \<lparr>qr_id = i, qr_segment_path = segment_path, qr_manifest_path = manifest_path,
      qr_destination_key = destination_key, qr_attempts = 0, qr_max_retries = max_retries,
      qr_next_retry_ts = now, qr_status = Pending, qr_last_error = None,
      qr_created_ts = now, qr_updated_ts = now\<rparr>"

definition enqueue ::
  "replication_queue \<Rightarrow> path \<Rightarrow> path \<Rightarrow> string \<Rightarrow> u32 \<Rightarrow> ('z store_scheme, unit) io" where
  "enqueue q segment_path manifest_path destination_key max_retries =
     and_then utc_now (\<lambda>now.
     and_then (queue_open q) (\<lambda>_.
       sql_update q ''INSERT''
         (insert_row (new_row segment_path manifest_path destination_key max_retries now))))"

definition row_job :: "queue_row \<Rightarrow> replication_job" where
  "row_job r =
     \<lparr>rj_id = qr_id r, rj_segment_path = qr_segment_path r, rj_manifest_path = qr_manifest_path r,
      rj_destination_key = qr_destination_key r, rj_attempts = qr_attempts r,
      rj_max_retries = qr_max_retries r\<rparr>"

definition row_ready :: "int \<Rightarrow> queue_row \<Rightarrow> bool" where
  "row_ready now r \<longleftrightarrow> qr_status r = Pending \<and> qr_next_retry_ts r \<le> now"

definition select_ready :: "int \<Rightarrow> int \<Rightarrow> queue_table \<Rightarrow> replication_job list" where
  "select_ready now limit t =
     map row_job (take_limit limit (sort_key qr_id (filter (row_ready now) (qt_rows t))))"

definition set_in_progress :: "int \<Rightarrow> int \<Rightarrow> queue_table \<Rightarrow> queue_table" where
  "set_in_progress now i =
     update_rows (\<lambda>r. qr_id r = i) (\<lambda>r. r\<lparr>qr_status := InProgress, qr_updated_ts := now\<rparr>)"

text \<open>The updates of \<^verbatim>\<open>claim_ready\<close> act on the transaction's own view of the table.\<close>

fun claim_updates :: "int \<Rightarrow> replication_job list \<Rightarrow> queue_table \<Rightarrow> ('z store_scheme, queue_table) io" where
  "claim_updates now [] t = ret t"
| "claim_updates now (job # jobs) t =
     and_then (sql ''UPDATE'') (\<lambda>_. claim_updates now jobs (set_in_progress now (rj_id job) t))"

definition claim_ready :: "replication_queue \<Rightarrow> u64 \<Rightarrow> ('z store_scheme, replication_job list) io" where
  "claim_ready q limit =
     and_then utc_now (\<lambda>now.
     and_then (queue_open q) (\<lambda>_.
     and_then (sql ''BEGIN'') (\<lambda>_.
     and_then (sql ''SELECT'') (\<lambda>_.
     and_then (table q) (\<lambda>t.
     let jobs = select_ready now (u64_as_i64 limit) t
     in
     and_then (claim_updates now jobs t) (\<lambda>t'.
     and_then (sql ''COMMIT'') (\<lambda>_.
     and_then (put_table q t') (\<lambda>_. ret jobs))))))))"

definition mark_success :: "replication_queue \<Rightarrow> int \<Rightarrow> ('z store_scheme, unit) io" where
  "mark_success q job_id =
     and_then (queue_open q) (\<lambda>_.
       sql_update q ''DELETE'' (\<lambda>t. Inr (delete_rows (\<lambda>r. qr_id r = job_id) t, ())))"

definition job_exhausted :: "replication_job \<Rightarrow> bool" where
  "job_exhausted job \<longleftrightarrow>
     rj_max_retries job > 0 \<and> saturating_add_u32 (rj_attempts job) 1 \<ge> rj_max_retries job"

definition set_failed :: "replication_job \<Rightarrow> string \<Rightarrow> u64 \<Rightarrow> int \<Rightarrow> queue_row \<Rightarrow> queue_row" where
  "set_failed job err backoff now r =
     (if job_exhausted job
      then r\<lparr>qr_attempts := saturating_add_u32 (rj_attempts job) 1, qr_status := Failed,
             qr_last_error := Some err, qr_updated_ts := now\<rparr>
      else r\<lparr>qr_attempts := saturating_add_u32 (rj_attempts job) 1, qr_status := Pending,
             qr_next_retry_ts := wrap_i64 (now + u64_as_i64 backoff),
             qr_last_error := Some err, qr_updated_ts := now\<rparr>)"

definition mark_failed ::
  "replication_queue \<Rightarrow> replication_job \<Rightarrow> string \<Rightarrow> u64 \<Rightarrow> ('z store_scheme, unit) io" where
  "mark_failed q job err backoff =
     and_then utc_now (\<lambda>now.
     and_then (queue_open q) (\<lambda>_.
       sql_update q ''UPDATE'' (\<lambda>t.
         Inr (update_rows (\<lambda>r. qr_id r = rj_id job) (set_failed job err backoff now) t, ()))))"

definition count_status :: "job_status set \<Rightarrow> queue_table \<Rightarrow> u64" where
  "count_status S t = of_nat (length (filter (\<lambda>r. qr_status r \<in> S) (qt_rows t)))"

definition pending_count :: "replication_queue \<Rightarrow> ('z store_scheme, u64) io" where
  "pending_count q =
     and_then (queue_open q) (\<lambda>_.
     and_then (sql ''COUNT'') (\<lambda>_.
     and_then (table q) (\<lambda>t. ret (count_status {Pending, InProgress} t))))"

definition failed_count :: "replication_queue \<Rightarrow> ('z store_scheme, u64) io" where
  "failed_count q =
     and_then (queue_open q) (\<lambda>_.
     and_then (sql ''COUNT'') (\<lambda>_.
     and_then (table q) (\<lambda>t. ret (count_status {Failed} t))))"

definition retry_failed :: "replication_queue \<Rightarrow> ('z store_scheme, u64) io" where
  "retry_failed q =
     and_then utc_now (\<lambda>now.
     and_then (queue_open q) (\<lambda>_.
       sql_update q ''UPDATE'' (\<lambda>t.
         Inr (update_rows (\<lambda>r. qr_status r = Failed)
                (\<lambda>r. r\<lparr>qr_status := Pending, qr_next_retry_ts := now, qr_updated_ts := now\<rparr>) t,
              count_status {Failed} t))))"

section \<open>The table as a map\<close>

definition row_at :: "queue_table \<Rightarrow> int \<Rightarrow> queue_row option" where
  "row_at t = map_of (map (\<lambda>r. (qr_id r, r)) (qt_rows t))"

text \<open>Ids are distinct, ascending, and below the counter.\<close>

definition table_ok :: "queue_table \<Rightarrow> bool" where
  "table_ok t \<longleftrightarrow>
     sorted_wrt (<) (map qr_id (qt_rows t)) \<and> (\<forall>r \<in> set (qt_rows t). qr_id r < qt_next_id t)"

lemma update_rows_simps:
  "qt_rows (update_rows P f t) = map (\<lambda>r. if P r then f r else r) (qt_rows t)"
  "qt_next_id (update_rows P f t) = qt_next_id t" "qt_next_id (delete_rows P t) = qt_next_id t"
  by (simp_all add: update_rows_def delete_rows_def)

lemma map_of_rows_map:
  assumes "\<And>r. qr_id (g r) = qr_id r"
  shows "map_of (map (\<lambda>r. (qr_id r, r)) (map g rs)) i = map_option g (map_of (map (\<lambda>r. (qr_id r, r)) rs) i)"
  using assms by (induction rs) auto

lemma row_at_update:
  assumes "\<And>r. qr_id (f r) = qr_id r"
  shows "row_at (update_rows P f t) i = map_option (\<lambda>r. if P r then f r else r) (row_at t i)"
proof -
  have "qr_id (if P r then f r else r) = qr_id r" for r by (simp add: assms)
  from map_of_rows_map [where g = "\<lambda>r. if P r then f r else r", OF this] show ?thesis
    by (simp only: row_at_def update_rows_simps)
qed

lemma row_at_id: "row_at t i = Some r \<Longrightarrow> qr_id r = i \<and> r \<in> set (qt_rows t)"
  by (auto simp: row_at_def dest: map_of_SomeD)

lemma row_at_mem: "table_ok t \<Longrightarrow> r \<in> set (qt_rows t) \<Longrightarrow> row_at t (qr_id r) = Some r"
  by (auto simp: row_at_def table_ok_def strict_sorted_iff map_of_eq_Some_iff comp_def)

lemma row_at_delete: "row_at (delete_rows (\<lambda>r. qr_id r = j) t) = (row_at t)(j := None)"
proof (rule ext)
  fix i
  have "map_of (map (\<lambda>r. (qr_id r, r)) (filter (\<lambda>r. qr_id r \<noteq> j) rs)) i =
    (if i = j then None else map_of (map (\<lambda>r. (qr_id r, r)) rs) i)" for rs
    by (induction rs) auto
  then show "row_at (delete_rows (\<lambda>r. qr_id r = j) t) i = ((row_at t)(j := None)) i"
    by (auto simp: row_at_def delete_rows_def)
qed

lemma row_at_fresh: "table_ok t \<Longrightarrow> qt_next_id t \<le> i \<Longrightarrow> row_at t i = None"
  by (cases "row_at t i") (auto simp: table_ok_def dest!: row_at_id)

lemma row_at_append:
  assumes "table_ok t" "qr_id r = qt_next_id t"
  shows "row_at \<lparr>qt_rows = qt_rows t @ [r], qt_next_id = n\<rparr> = (row_at t)(qt_next_id t \<mapsto> r)"
  using row_at_fresh [OF assms(1), of "qt_next_id t"] assms(2)
  by (auto simp: row_at_def map_add_def fun_eq_iff split: option.splits)

section \<open>Every statement keeps the table well formed\<close>

lemma table_ok_empty [simp]: "table_ok empty_table"
  by (simp add: table_ok_def empty_table_def)

lemma table_ok_update:
  assumes "table_ok t" "\<And>r. qr_id (f r) = qr_id r"
  shows "table_ok (update_rows P f t)"
proof -
  have "map qr_id (map (\<lambda>r. if P r then f r else r) (qt_rows t)) = map qr_id (qt_rows t)"
    by (simp add: assms(2))
  moreover have "\<forall>r \<in> set (map (\<lambda>r. if P r then f r else r) (qt_rows t)). qr_id r < qt_next_id t"
    using assms by (auto simp: table_ok_def)
  ultimately show ?thesis
    using assms(1) unfolding table_ok_def update_rows_simps by (simp only: simp_thms)
qed

lemma table_ok_delete: "table_ok t \<Longrightarrow> table_ok (delete_rows P t)"
  by (auto simp: table_ok_def delete_rows_def sorted_wrt_map sorted_wrt_filter)

lemma table_ok_insert:
  assumes "table_ok t" "\<And>i. qr_id (row i) = i" "insert_row row t = Inr (t', u)"
  shows "table_ok t'"
  using assms
  by (auto simp: table_ok_def insert_row_def sorted_wrt_append split: if_splits)
     (meson order.strict_implies_order)

lemma set_in_progress_facts:
  "table_ok t \<Longrightarrow> table_ok (set_in_progress now i t)"
  "qt_next_id (set_in_progress now i t) = qt_next_id t"
  "row_at (set_in_progress now i t) k =
     (if k = i then map_option (\<lambda>r. r\<lparr>qr_status := InProgress, qr_updated_ts := now\<rparr>) (row_at t k)
      else row_at t k)"
  by (auto simp: set_in_progress_def table_ok_update row_at_update update_rows_simps dest: row_at_id
      intro!: option.map_cong) (cases "row_at t k"; auto dest: row_at_id)

section \<open>What the queue promises\<close>

text \<open>
  The specification forgets the time stamps and the error text of a row and the order of the
  table: an entry is a job, its status, and the time it is due. One step of the queue is one
  of the rules below; \<open>qs_next\<close> bounds the ids given out so far.
\<close>

record entry =
  en_job :: replication_job
  en_status :: job_status
  en_due :: int

record queue_state =
  qs_entries :: "int \<Rightarrow> entry option"
  qs_next :: int

definition entry_of :: "queue_row \<Rightarrow> entry" where
  "entry_of r = \<lparr>en_job = row_job r, en_status = qr_status r, en_due = qr_next_retry_ts r\<rparr>"

definition abs_table :: "queue_table \<Rightarrow> queue_state" where
  "abs_table t = \<lparr>qs_entries = (\<lambda>i. map_option entry_of (row_at t i)), qs_next = qt_next_id t\<rparr>"

datatype action =
    Submit int
  | Claim "replication_job list"
  | Done int
  | Retry_later int
  | Give_up int
  | Missing int
  | Revive
  | Observe

definition claim_entries :: "int set \<Rightarrow> (int \<Rightarrow> entry option) \<Rightarrow> int \<Rightarrow> entry option" where
  "claim_entries I m i =
     (if i \<in> I then map_option (\<lambda>e. e\<lparr>en_status := InProgress\<rparr>) (m i) else m i)"

definition revive_entries :: "int \<Rightarrow> (int \<Rightarrow> entry option) \<Rightarrow> int \<Rightarrow> entry option" where
  "revive_entries now m i =
     map_option (\<lambda>e. if en_status e = Failed then e\<lparr>en_status := Pending, en_due := now\<rparr> else e) (m i)"

inductive queue_step :: "action \<Rightarrow> queue_state \<Rightarrow> queue_state \<Rightarrow> bool" where
  submit: "i = qs_next s \<Longrightarrow> qs_entries s i = None \<Longrightarrow> rj_id j = i \<Longrightarrow> rj_attempts j = 0 \<Longrightarrow>
    queue_step (Submit i) s
      \<lparr>qs_entries = (qs_entries s)(i \<mapsto> \<lparr>en_job = j, en_status = Pending, en_due = now\<rparr>),
       qs_next = i + 1\<rparr>"
| claim: "sorted_wrt (<) (map rj_id js) \<Longrightarrow>
    (\<And>j. j \<in> set js \<Longrightarrow> \<exists>e. qs_entries s (rj_id j) = Some e \<and> en_job e = j \<and>
       en_status e = Pending \<and> en_due e \<le> now) \<Longrightarrow>
    queue_step (Claim js) s (s\<lparr>qs_entries := claim_entries (rj_id ` set js) (qs_entries s)\<rparr>)"
| finish: "queue_step (Done i) s (s\<lparr>qs_entries := (qs_entries s)(i := None)\<rparr>)"
| retry_later: "qs_entries s (rj_id j) = Some e \<Longrightarrow> \<not> job_exhausted j \<Longrightarrow>
    queue_step (Retry_later (rj_id j)) s (s\<lparr>qs_entries := (qs_entries s)(rj_id j \<mapsto>
      e\<lparr>en_job := (en_job e)\<lparr>rj_attempts := saturating_add_u32 (rj_attempts j) 1\<rparr>,
        en_status := Pending, en_due := wrap_i64 (now + u64_as_i64 backoff)\<rparr>)\<rparr>)"
| give_up: "qs_entries s (rj_id j) = Some e \<Longrightarrow> job_exhausted j \<Longrightarrow>
    queue_step (Give_up (rj_id j)) s (s\<lparr>qs_entries := (qs_entries s)(rj_id j \<mapsto>
      e\<lparr>en_job := (en_job e)\<lparr>rj_attempts := saturating_add_u32 (rj_attempts j) 1\<rparr>,
        en_status := Failed\<rparr>)\<rparr>)"
| revive: "queue_step Revive s (s\<lparr>qs_entries := revive_entries now (qs_entries s)\<rparr>)"
| missing: "qs_entries s i = None \<Longrightarrow> queue_step (Missing i) s s"
| observe: "queue_step Observe s s"

inductive_cases queue_stepE: "queue_step a s s'"

section \<open>The operations implement the steps\<close>

text \<open>
  The state of the queue \<open>q\<close> in a store. A computation implements an action when it leaves
  the other databases and the files alone and, on success and on failure, takes the queue from
  a well-formed table to a well-formed one by a step the action allows; a failure is no step.
\<close>

definition queue_inv :: "replication_queue \<Rightarrow> 'z store_scheme \<Rightarrow> bool" where
  "queue_inv q w \<longleftrightarrow> (\<exists>t. st_dbs w (rq_db_path q) = Some t \<and> table_ok t)"

definition queue_abs :: "replication_queue \<Rightarrow> 'z store_scheme \<Rightarrow> queue_state" where
  "queue_abs q w = abs_table (the (st_dbs w (rq_db_path q)))"

definition only_db :: "replication_queue \<Rightarrow> 'z store_scheme \<Rightarrow> 'z store_scheme \<Rightarrow> bool" where
  "only_db q w w' \<longleftrightarrow>
     (\<exists>n d. w' = w\<lparr>w_step := n, st_dbs := (st_dbs w)(rq_db_path q := d)\<rparr>)"

lemma sql_outcome: "sql stmt w = (r, w') \<Longrightarrow> w' = tick w"
  by (auto simp: sql_def syscall_def split: option.splits)

lemma queue_open_outcome: "queue_open q w = (r, w') \<Longrightarrow> w' = tick w"
  by (auto simp: queue_open_def in_context_def sql_def syscall_def split: option.splits)

lemma sql_update_Inr:
  assumes "sql_update q stmt f w = (Inr a, w')" "st_dbs w (rq_db_path q) = Some t"
  shows "\<exists>t'. f t = Inr (t', a) \<and> w' = (tick w)\<lparr>st_dbs := (st_dbs w)(rq_db_path q \<mapsto> t')\<rparr>"
  using assms
  by (auto simp: sql_update_def io_simps table_def put_table_def sql_def)

lemma sql_update_Inl:
  assumes "sql_update q stmt f w = (Inl e, w')"
  shows "w' = tick w"
  using assms
  by (auto simp: sql_update_def io_simps table_def put_table_def sql_def split: prod.splits)

lemma timed_update_Inr:
  assumes "and_then utc_now (\<lambda>now. and_then (queue_open q) (\<lambda>_. sql_update q stmt (f now))) w = (Inr a, w')"
    and "st_dbs w (rq_db_path q) = Some t"
  shows "\<exists>n t'. f (w_clock w (w_step w)) t = Inr (t', a) \<and>
    w' = w\<lparr>w_step := n, st_dbs := (st_dbs w)(rq_db_path q \<mapsto> t')\<rparr>"
  using assms by (auto simp: io_simps dest!: queue_open_outcome sql_update_Inr)

lemma timed_update_Inl:
  assumes "and_then utc_now (\<lambda>now. and_then (queue_open q) (\<lambda>_. sql_update q stmt (f now))) w = (Inl e, w')"
  shows "\<exists>n. w' = w\<lparr>w_step := n\<rparr>"
  using assms by (auto simp: io_simps dest!: queue_open_outcome sql_update_Inl)

definition implements ::
  "replication_queue \<Rightarrow> ('a \<Rightarrow> action set) \<Rightarrow> ('z store_scheme, 'a) io \<Rightarrow> bool" where
  "implements q acts m \<longleftrightarrow>
     (\<forall>w r w'. queue_inv q w \<longrightarrow> m w = (r, w') \<longrightarrow>
        queue_inv q w' \<and> only_db q w w' \<and>
        (case r of
           Inl e \<Rightarrow> queue_abs q w' = queue_abs q w
         | Inr a \<Rightarrow> \<exists>\<alpha> \<in> acts a. queue_step \<alpha> (queue_abs q w) (queue_abs q w')))"

text \<open>It is enough to look at the table.\<close>

lemma implementsI:
  assumes "\<And>w t a w'. st_dbs w (rq_db_path q) = Some t \<Longrightarrow> table_ok t \<Longrightarrow> m w = (Inr a, w') \<Longrightarrow>
      \<exists>n t'. w' = w\<lparr>w_step := n, st_dbs := (st_dbs w)(rq_db_path q \<mapsto> t')\<rparr> \<and> table_ok t' \<and>
        (\<exists>\<alpha> \<in> acts a. queue_step \<alpha> (abs_table t) (abs_table t'))"
    and "\<And>w t e w'. st_dbs w (rq_db_path q) = Some t \<Longrightarrow> m w = (Inl e, w') \<Longrightarrow> \<exists>n. w' = w\<lparr>w_step := n\<rparr>"
  shows "implements q acts m"
  unfolding implements_def
proof (intro allI impI)
  fix w r w' assume inv: "queue_inv q w" and run: "m w = (r, w')"
  from inv obtain t where t: "st_dbs w (rq_db_path q) = Some t" "table_ok t"
    by (auto simp: queue_inv_def)
  show "queue_inv q w' \<and> only_db q w w' \<and>
     (case r of Inl e \<Rightarrow> queue_abs q w' = queue_abs q w
      | Inr a \<Rightarrow> \<exists>\<alpha> \<in> acts a. queue_step \<alpha> (queue_abs q w) (queue_abs q w'))"
  proof (cases r)
    case (Inl e)
    with assms(2) [OF t(1)] run obtain n where "w' = w\<lparr>w_step := n\<rparr>" by blast
    moreover have "\<dots> = w\<lparr>w_step := n, st_dbs := (st_dbs w)(rq_db_path q := Some t)\<rparr>"
      using t(1) by (simp add: fun_upd_idem)
    ultimately show ?thesis using t Inl
      by (auto simp: queue_inv_def queue_abs_def only_db_def)
  next
    case (Inr a)
    from assms(1) [OF t run [unfolded Inr]] obtain n t' where
      "w' = w\<lparr>w_step := n, st_dbs := (st_dbs w)(rq_db_path q \<mapsto> t')\<rparr>" "table_ok t'"
      "\<exists>\<alpha> \<in> acts a. queue_step \<alpha> (abs_table t) (abs_table t')" by blast
    with t Inr show ?thesis by (auto simp: queue_inv_def queue_abs_def only_db_def)
  qed
qed

lemma new_row_id [simp]: "qr_id (new_row a b c d e i) = i"
  by (simp add: new_row_def)

lemma enqueue_implements: "implements q (\<lambda>_. range Submit) (enqueue q seg man key retries)"
proof (rule implementsI)
  fix w :: "'z store_scheme" and t u w'
  assume t: "st_dbs w (rq_db_path q) = Some t" "table_ok t" and run: "enqueue q seg man key retries w = (Inr u, w')"
  let ?row = "new_row seg man key retries (w_clock w (w_step w))"
  from timed_update_Inr [OF run [unfolded enqueue_def] t(1)] obtain n t' where
    ins: "insert_row ?row t = Inr (t', u)" and
    w': "w' = w\<lparr>w_step := n, st_dbs := (st_dbs w)(rq_db_path q \<mapsto> t')\<rparr>" by blast
  from ins have t': "t' = \<lparr>qt_rows = qt_rows t @ [?row (qt_next_id t)], qt_next_id = qt_next_id t + 1\<rparr>"
    by (auto simp: insert_row_def split: if_splits)
  have "queue_step (Submit (qt_next_id t)) (abs_table t)
    \<lparr>qs_entries = (qs_entries (abs_table t))(qt_next_id t \<mapsto>
       \<lparr>en_job = row_job (?row (qt_next_id t)), en_status = Pending, en_due = w_clock w (w_step w)\<rparr>),
     qs_next = qt_next_id t + 1\<rparr>"
    by (rule submit) (simp_all add: abs_table_def row_at_fresh t(2) row_job_def new_row_def)
  also have "\<lparr>qs_entries = (qs_entries (abs_table t))(qt_next_id t \<mapsto>
       \<lparr>en_job = row_job (?row (qt_next_id t)), en_status = Pending, en_due = w_clock w (w_step w)\<rparr>),
     qs_next = qt_next_id t + 1\<rparr> = abs_table t'"
    by (auto simp: abs_table_def t' row_at_append [OF t(2)] entry_of_def new_row_def fun_eq_iff)
  finally show "\<exists>n t'. w' = w\<lparr>w_step := n, st_dbs := (st_dbs w)(rq_db_path q \<mapsto> t')\<rparr> \<and> table_ok t' \<and>
      (\<exists>\<alpha> \<in> range Submit. queue_step \<alpha> (abs_table t) (abs_table t'))"
    using w' table_ok_insert [OF t(2) _ ins] by auto
qed (auto simp: enqueue_def dest: timed_update_Inl)

lemma mark_success_implements: "implements q (\<lambda>_. {Done i}) (mark_success q i)"
proof (rule implementsI)
  fix w :: "'z store_scheme" and t u w'
  assume t: "st_dbs w (rq_db_path q) = Some t" "table_ok t" and run: "mark_success q i w = (Inr u, w')"
  then obtain n where "w' = w\<lparr>w_step := n, st_dbs := (st_dbs w)(rq_db_path q \<mapsto> delete_rows (\<lambda>r. qr_id r = i) t)\<rparr>"
    by (auto simp: mark_success_def io_simps dest!: queue_open_outcome sql_update_Inr)
  moreover have "queue_step (Done i) (abs_table t) (abs_table (delete_rows (\<lambda>r. qr_id r = i) t))"
    using finish [of i "abs_table t"]
    by (simp add: abs_table_def row_at_delete update_rows_simps if_distrib fun_upd_def cong: if_cong)
  ultimately show "\<exists>n t'. w' = w\<lparr>w_step := n, st_dbs := (st_dbs w)(rq_db_path q \<mapsto> t')\<rparr> \<and> table_ok t' \<and>
      (\<exists>\<alpha> \<in> {Done i}. queue_step \<alpha> (abs_table t) (abs_table t'))"
    using table_ok_delete [OF t(2)] by auto
qed (auto simp: mark_success_def io_simps dest!: queue_open_outcome sql_update_Inl)

lemma set_failed_entry:
  "entry_of (set_failed job err backoff now r) =
     (let e = (entry_of r)\<lparr>en_job := (row_job r)\<lparr>rj_attempts := saturating_add_u32 (rj_attempts job) 1\<rparr>\<rparr>
      in if job_exhausted job then e\<lparr>en_status := Failed\<rparr>
         else e\<lparr>en_status := Pending, en_due := wrap_i64 (now + u64_as_i64 backoff)\<rparr>)"
  "qr_id (set_failed job err backoff now r) = qr_id r"
  by (simp_all add: set_failed_def entry_of_def row_job_def)

lemma set_failed_step:
  fixes t job err backoff now
  defines "t' \<equiv> update_rows (\<lambda>r. qr_id r = rj_id job) (set_failed job err backoff now) t"
  shows "\<exists>\<alpha> \<in> {Retry_later (rj_id job), Give_up (rj_id job), Missing (rj_id job)}.
    queue_step \<alpha> (abs_table t) (abs_table t')"
proof (cases "row_at t (rj_id job)")
  case None
  have "row_at t' i = row_at t i" for i
    using None row_at_id [of t i]
    by (cases "row_at t i") (auto simp: t'_def row_at_update set_failed_entry(2))
  then have "abs_table t' = abs_table t"
    by (simp add: abs_table_def t'_def update_rows_simps)
  with None show ?thesis using missing [of "abs_table t" "rj_id job"] by (simp add: abs_table_def)
next
  case (Some r)
  have at: "row_at t' i = (if i = rj_id job then Some (set_failed job err backoff now r) else row_at t i)" for i
    using Some
    by (cases "row_at t i") (auto simp: t'_def row_at_update set_failed_entry(2) dest: row_at_id)
  have e: "qs_entries (abs_table t) (rj_id job) = Some (entry_of r)" by (simp add: abs_table_def Some)
  have abs: "abs_table t' = (abs_table t)\<lparr>qs_entries := (qs_entries (abs_table t))(rj_id job \<mapsto>
      entry_of (set_failed job err backoff now r))\<rparr>"
    by (auto simp: abs_table_def at [unfolded t'_def] t'_def update_rows_simps fun_eq_iff)
  show ?thesis
  proof (cases "job_exhausted job")
    case True
    from give_up [OF e this] show ?thesis unfolding abs
      by (simp add: set_failed_entry(1) Let_def True) (simp add: entry_of_def)
  next
    case False
    from retry_later [OF e this, of now backoff] show ?thesis unfolding abs
      by (simp add: set_failed_entry(1) Let_def False) (simp add: entry_of_def)
  qed
qed

lemma mark_failed_implements:
  "implements q (\<lambda>_. {Retry_later (rj_id job), Give_up (rj_id job), Missing (rj_id job)}) (mark_failed q job err backoff)"
proof (rule implementsI)
  fix w :: "'z store_scheme" and t u w'
  assume t: "st_dbs w (rq_db_path q) = Some t" "table_ok t" and run: "mark_failed q job err backoff w = (Inr u, w')"
  let ?t = "update_rows (\<lambda>r. qr_id r = rj_id job) (set_failed job err backoff (w_clock w (w_step w))) t"
  from timed_update_Inr [OF run [unfolded mark_failed_def] t(1)] obtain n where
    "w' = w\<lparr>w_step := n, st_dbs := (st_dbs w)(rq_db_path q \<mapsto> ?t)\<rparr>" by auto
  then show "\<exists>n t'. w' = w\<lparr>w_step := n, st_dbs := (st_dbs w)(rq_db_path q \<mapsto> t')\<rparr> \<and> table_ok t' \<and>
      (\<exists>\<alpha> \<in> {Retry_later (rj_id job), Give_up (rj_id job), Missing (rj_id job)}. queue_step \<alpha> (abs_table t) (abs_table t'))"
    using set_failed_step [of job t err backoff] table_ok_update [OF t(2), of "set_failed job err backoff (w_clock w (w_step w))"]
      set_failed_entry(2) by blast
qed (auto simp: mark_failed_def dest: timed_update_Inl)

lemma retry_failed_implements: "implements q (\<lambda>_. {Revive}) (retry_failed q)"
proof (rule implementsI)
  fix w :: "'z store_scheme" and t a w'
  assume t: "st_dbs w (rq_db_path q) = Some t" "table_ok t" and run: "retry_failed q w = (Inr a, w')"
  let ?now = "w_clock w (w_step w)"
  let ?f = "\<lambda>r. r\<lparr>qr_status := Pending, qr_next_retry_ts := ?now, qr_updated_ts := ?now\<rparr>"
  let ?t = "update_rows (\<lambda>r. qr_status r = Failed) ?f t"
  from timed_update_Inr [OF run [unfolded retry_failed_def] t(1)] obtain n where
    w': "w' = w\<lparr>w_step := n, st_dbs := (st_dbs w)(rq_db_path q \<mapsto> ?t)\<rparr>" by auto
  have at: "row_at ?t i = map_option (\<lambda>r. if qr_status r = Failed then ?f r else r) (row_at t i)" for i
    by (rule row_at_update) simp
  have "map_option entry_of (row_at ?t i) = revive_entries ?now (\<lambda>i. map_option entry_of (row_at t i)) i" for i
    unfolding at by (cases "row_at t i") (auto simp: revive_entries_def entry_of_def row_job_def)
  then have "abs_table ?t = (abs_table t)\<lparr>qs_entries := revive_entries ?now (qs_entries (abs_table t))\<rparr>"
    by (simp add: abs_table_def update_rows_simps fun_eq_iff)
  with revive [of "abs_table t" ?now] have "queue_step Revive (abs_table t) (abs_table ?t)" by simp
  with w' table_ok_update [OF t(2), of ?f] show "\<exists>n t'. w' = w\<lparr>w_step := n, st_dbs := (st_dbs w)(rq_db_path q \<mapsto> t')\<rparr> \<and> table_ok t' \<and>
      (\<exists>\<alpha> \<in> {Revive}. queue_step \<alpha> (abs_table t) (abs_table t'))" by auto
qed (auto simp: retry_failed_def dest: timed_update_Inl)

text \<open>Claiming: the rows that are due, oldest first, at most as many as asked for.\<close>

definition claim_table :: "int \<Rightarrow> replication_job list \<Rightarrow> queue_table \<Rightarrow> queue_table" where
  "claim_table now jobs t = fold (\<lambda>j. set_in_progress now (rj_id j)) jobs t"

lemma claim_updates_Inr:
  "claim_updates now jobs t w = (Inr t', w') \<Longrightarrow> t' = claim_table now jobs t \<and> (\<exists>n. w' = w\<lparr>w_step := n\<rparr>)"
proof (induction jobs arbitrary: t w)
  case Nil
  then show ?case by (auto simp: claim_table_def intro: exI [of _ "w_step w"])
next
  case (Cons j jobs)
  then obtain w1 where upd: "sql ''UPDATE'' w = (Inr (), w1)"
    "claim_updates now jobs (set_in_progress now (rj_id j) t) w1 = (Inr t', w')"
    by (auto simp: io_simps)
  with Cons.IH [of "set_in_progress now (rj_id j) t" w1] sql_outcome [OF upd(1)] show ?case
    by (auto simp: claim_table_def)
qed

lemma claim_updates_Inl:
  "claim_updates now jobs t w = (Inl e, w') \<Longrightarrow> \<exists>n. w' = w\<lparr>w_step := n\<rparr>"
proof (induction jobs arbitrary: t w)
  case (Cons j jobs)
  then have "sql ''UPDATE'' w = (Inl e, w') \<or> (\<exists>w1. sql ''UPDATE'' w = (Inr (), w1) \<and>
    claim_updates now jobs (set_in_progress now (rj_id j) t) w1 = (Inl e, w'))"
    by (auto simp: io_simps)
  with Cons.IH [of "set_in_progress now (rj_id j) t"] show ?case
    by (fastforce dest: sql_outcome)
qed simp

lemma claim_table_facts:
  "table_ok t \<Longrightarrow> table_ok (claim_table now jobs t)"
  "qt_next_id (claim_table now jobs t) = qt_next_id t"
  "row_at (claim_table now jobs t) k =
     (if k \<in> rj_id ` set jobs
      then map_option (\<lambda>r. r\<lparr>qr_status := InProgress, qr_updated_ts := now\<rparr>) (row_at t k)
      else row_at t k)"
  unfolding claim_table_def
  by (induction jobs arbitrary: t)
     (auto simp: set_in_progress_facts option.map_comp comp_def)

lemma claim_ready_Inr:
  assumes "claim_ready q limit w = (Inr jobs, w')" "st_dbs w (rq_db_path q) = Some t"
  shows "\<exists>n. jobs = select_ready (w_clock w (w_step w)) (u64_as_i64 limit) t \<and>
    w' = w\<lparr>w_step := n, st_dbs := (st_dbs w)(rq_db_path q \<mapsto> claim_table (w_clock w (w_step w)) jobs t)\<rparr>"
  using assms
  by (auto simp: claim_ready_def io_simps Let_def table_def put_table_def
      dest!: queue_open_outcome sql_outcome claim_updates_Inr)

lemma claim_ready_Inl: "claim_ready q limit w = (Inl e, w') \<Longrightarrow> \<exists>n. w' = w\<lparr>w_step := n\<rparr>"
  by (auto simp: claim_ready_def io_simps Let_def table_def put_table_def
      dest!: queue_open_outcome sql_outcome claim_updates_Inr claim_updates_Inl)

text \<open>In a well-formed table the rows are in the order of their ids already.\<close>

lemma select_ready_rows:
  assumes "table_ok t"
  shows "select_ready now limit t = map row_job (take_limit limit (filter (row_ready now) (qt_rows t)))"
proof -
  have "sorted (map qr_id (filter (row_ready now) (qt_rows t)))"
    using assms by (simp add: table_ok_def strict_sorted_iff sorted_filter)
  then show ?thesis by (simp add: select_ready_def sort_key_id_if_sorted)
qed

lemma take_limit_take: "\<exists>n. take_limit k xs = take n xs"
  by (auto simp: take_limit_def intro: exI [of _ "length xs"])

lemma rj_id_row_job [simp]: "rj_id (row_job r) = qr_id r"
  by (simp add: row_job_def)

lemma select_ready_sorted:
  assumes "table_ok t"
  shows "sorted_wrt (<) (map rj_id (select_ready now limit t))"
proof -
  obtain n where "take_limit limit (filter (row_ready now) (qt_rows t)) = take n (filter (row_ready now) (qt_rows t))"
    using take_limit_take by blast
  then have "map rj_id (select_ready now limit t) = take n (map qr_id (filter (row_ready now) (qt_rows t)))"
    by (simp add: select_ready_rows assms take_map comp_def)
  moreover have "sorted_wrt (<) (map qr_id (filter (row_ready now) (qt_rows t)))"
    using assms by (simp add: table_ok_def sorted_wrt_map sorted_wrt_filter)
  ultimately show ?thesis by (simp add: sorted_wrt_take)
qed

lemma select_ready_mem:
  assumes "table_ok t" "j \<in> set (select_ready now limit t)"
  shows "\<exists>r. row_at t (rj_id j) = Some r \<and> j = row_job r \<and> row_ready now r"
proof -
  obtain n where "take_limit limit (filter (row_ready now) (qt_rows t)) = take n (filter (row_ready now) (qt_rows t))"
    using take_limit_take by blast
  with assms have "j \<in> row_job ` set (take n (filter (row_ready now) (qt_rows t)))"
    by (simp add: select_ready_rows)
  then obtain r where "r \<in> set (qt_rows t)" "row_ready now r" "j = row_job r"
    by (auto dest!: in_set_takeD)
  with row_at_mem [OF assms(1)] show ?thesis by auto
qed

lemma claim_ready_implements: "implements q (\<lambda>js. {Claim js}) (claim_ready q limit)"
proof (rule implementsI)
  fix w :: "'z store_scheme" and t js w'
  assume t: "st_dbs w (rq_db_path q) = Some t" "table_ok t" and run: "claim_ready q limit w = (Inr js, w')"
  let ?now = "w_clock w (w_step w)"
  from claim_ready_Inr [OF run t(1)] obtain n where js: "js = select_ready ?now (u64_as_i64 limit) t"
    and w': "w' = w\<lparr>w_step := n, st_dbs := (st_dbs w)(rq_db_path q \<mapsto> claim_table ?now js t)\<rparr>" by blast
  have "queue_step (Claim js) (abs_table t)
    ((abs_table t)\<lparr>qs_entries := claim_entries (rj_id ` set js) (qs_entries (abs_table t))\<rparr>)"
    by (rule claim)
       (auto simp: js select_ready_sorted t(2) abs_table_def entry_of_def row_ready_def dest!: select_ready_mem [OF t(2)])
  also have "(abs_table t)\<lparr>qs_entries := claim_entries (rj_id ` set js) (qs_entries (abs_table t))\<rparr> =
      abs_table (claim_table ?now js t)"
    by (auto simp: abs_table_def claim_table_facts claim_entries_def entry_of_def row_job_def
        option.map_comp comp_def fun_eq_iff)
  finally show "\<exists>n t'. w' = w\<lparr>w_step := n, st_dbs := (st_dbs w)(rq_db_path q \<mapsto> t')\<rparr> \<and> table_ok t' \<and>
      (\<exists>\<alpha> \<in> {Claim js}. queue_step \<alpha> (abs_table t) (abs_table t'))"
    using w' claim_table_facts(1) [OF t(2)] by auto
qed (rule claim_ready_Inl)

lemma observing_implements:
  assumes "\<And>w t. st_dbs w (rq_db_path q) = Some t \<Longrightarrow> \<exists>n. snd (m w) = w\<lparr>w_step := n\<rparr>"
  shows "implements q (\<lambda>_. {Observe}) m"
proof (rule implementsI)
  fix w t a w'
  assume t: "st_dbs w (rq_db_path q) = Some t" "table_ok t" and "m w = (Inr a, w')"
  with assms [OF t(1)] obtain n where "w' = w\<lparr>w_step := n\<rparr>" by auto
  moreover have "\<dots> = w\<lparr>w_step := n, st_dbs := (st_dbs w)(rq_db_path q \<mapsto> t)\<rparr>"
    using t(1) by (simp add: fun_upd_idem)
  ultimately show "\<exists>n t'. w' = w\<lparr>w_step := n, st_dbs := (st_dbs w)(rq_db_path q \<mapsto> t')\<rparr> \<and> table_ok t' \<and>
      (\<exists>\<alpha> \<in> {Observe}. queue_step \<alpha> (abs_table t) (abs_table t'))"
    using t(2) observe by (intro exI [of _ n] exI [of _ t]) auto
qed (metis assms snd_conv)

lemma count_implements:
  "implements q (\<lambda>_. {Observe}) (pending_count q)" "implements q (\<lambda>_. {Observe}) (failed_count q)"
  by (rule observing_implements;
      auto simp: pending_count_def failed_count_def and_then_def table_def queue_open_def in_context_def
        sql_def syscall_def split: option.splits sum.splits)+

lemma queue_init_implements: "implements q (\<lambda>_. {Observe}) (queue_init q)"
  by (rule observing_implements)
     (auto simp: queue_init_def and_then_def queue_open_def in_context_def
        sql_def syscall_def split: option.splits sum.splits)

section \<open>The interface of the queue\<close>

text \<open>
  What a client may rely on: each call takes the abstract queue by one of the steps its action
  allows, a call that fails changes nothing, and the invariant holds throughout.
\<close>

definition obeys ::
  "('w \<Rightarrow> bool) \<Rightarrow> ('w \<Rightarrow> queue_state) \<Rightarrow> ('a \<Rightarrow> action set) \<Rightarrow> ('w, 'a) io \<Rightarrow> bool" where
  "obeys good view acts m \<longleftrightarrow>
     (\<forall>w r w'. good w \<longrightarrow> m w = (r, w') \<longrightarrow>
        good w' \<and>
        (case r of
           Inl e \<Rightarrow> view w' = view w
         | Inr a \<Rightarrow> \<exists>\<alpha> \<in> acts a. queue_step \<alpha> (view w) (view w')))"

lemma implements_obeys: "implements q acts m \<Longrightarrow> obeys (queue_inv q) (queue_abs q) acts m"
  unfolding implements_def obeys_def by blast

text \<open>A job that has been given out, or was settled, and is not waiting to be given out.\<close>

definition held :: "int \<Rightarrow> queue_state \<Rightarrow> bool" where
  "held i s \<longleftrightarrow> i < qs_next s \<and> (\<forall>e. qs_entries s i = Some e \<longrightarrow> en_status e = InProgress)"

lemma held_step:
  assumes "queue_step \<alpha> s s'" "held i s" "\<alpha> \<noteq> Retry_later i" "\<alpha> \<noteq> Give_up i"
  shows "held i s'" "\<alpha> = Claim js \<Longrightarrow> i \<notin> rj_id ` set js"
  using assms
  by (auto elim!: queue_stepE simp: held_def claim_entries_def revive_entries_def split: if_splits)

text \<open>A job in progress changes only when it is settled.\<close>

lemma in_progress_step:
  assumes "queue_step \<alpha> s s'" "qs_entries s i = Some e" "en_status e = InProgress"
    and "\<alpha> \<noteq> Done i" "\<alpha> \<noteq> Retry_later i" "\<alpha> \<noteq> Give_up i"
  shows "qs_entries s' i = Some e"
  using assms
  by (auto elim!: queue_stepE simp: claim_entries_def revive_entries_def split: if_splits)

locale queue_service =
  fixes good :: "'w \<Rightarrow> bool" and view :: "'w \<Rightarrow> queue_state"
    and submit_op :: "path \<Rightarrow> path \<Rightarrow> string \<Rightarrow> u32 \<Rightarrow> ('w, unit) io"
    and claim_op :: "u64 \<Rightarrow> ('w, replication_job list) io"
    and succeed_op :: "int \<Rightarrow> ('w, unit) io"
    and fail_op :: "replication_job \<Rightarrow> string \<Rightarrow> u64 \<Rightarrow> ('w, unit) io"
    and revive_op :: "('w, u64) io"
  assumes submit_law: "obeys good view (\<lambda>_. range Submit) (submit_op seg man key retries)"
    and claim_law: "obeys good view (\<lambda>js. {Claim js}) (claim_op limit)"
    and succeed_law: "obeys good view (\<lambda>_. {Done i}) (succeed_op i)"
    and fail_law: "obeys good view (\<lambda>_. {Retry_later (rj_id j), Give_up (rj_id j), Missing (rj_id j)}) (fail_op j err backoff)"
    and revive_law: "obeys good view (\<lambda>_. {Revive}) revive_op"
    and bound_law: "good w \<Longrightarrow> qs_entries (view w) i = Some e \<Longrightarrow> i < qs_next (view w)"
begin

lemma held_obeys:
  assumes "obeys good view acts m" "good w" "held i (view w)" "m w = (r, w')"
    and "\<And>a \<alpha>. r = Inr a \<Longrightarrow> \<alpha> \<in> acts a \<Longrightarrow> \<alpha> \<noteq> Retry_later i \<and> \<alpha> \<noteq> Give_up i"
  shows "good w' \<and> held i (view w')"
proof (cases r)
  case (Inl e)
  with assms show ?thesis by (auto simp: obeys_def)
next
  case (Inr a)
  with assms(1,2,4) obtain \<alpha> where "good w'" "\<alpha> \<in> acts a" "queue_step \<alpha> (view w) (view w')"
    unfolding obeys_def by fastforce
  with assms(3) assms(5) [OF Inr] held_step(1) show ?thesis by blast
qed

lemma held_kept:
  assumes "good w" "held i (view w)"
  shows "submit_op seg man key retries w = (r, w') \<Longrightarrow> good w' \<and> held i (view w')"
    and "succeed_op k w = (r, w') \<Longrightarrow> good w' \<and> held i (view w')"
    and "fail_op j err b w = (r, w') \<Longrightarrow> rj_id j \<noteq> i \<Longrightarrow> good w' \<and> held i (view w')"
    and "revive_op w = (r2, w') \<Longrightarrow> good w' \<and> held i (view w')"
    and "claim_op n w = (r3, w') \<Longrightarrow> good w' \<and> held i (view w')"
  using held_obeys [OF submit_law assms] held_obeys [OF succeed_law assms]
    held_obeys [OF fail_law assms] held_obeys [OF revive_law assms] held_obeys [OF claim_law assms]
  by fastforce+

lemma claim_skips_held:
  assumes "good w" "held i (view w)" "claim_op n w = (Inr js, w')"
  shows "i \<notin> rj_id ` set js"
proof -
  from claim_law [of n] assms(1,3) have "queue_step (Claim js) (view w) (view w')"
    unfolding obeys_def by fastforce
  from held_step(2) [OF this assms(2)] show ?thesis by auto
qed

lemma entry_obeys:
  assumes "obeys good view acts m" "good w" "qs_entries (view w) i = Some e" "en_status e = InProgress"
    and "m w = (r, w')"
    and "\<And>a \<alpha>. r = Inr a \<Longrightarrow> \<alpha> \<in> acts a \<Longrightarrow> \<alpha> \<noteq> Done i \<and> \<alpha> \<noteq> Retry_later i \<and> \<alpha> \<noteq> Give_up i"
  shows "good w' \<and> qs_entries (view w') i = Some e"
proof (cases r)
  case (Inl x)
  with assms show ?thesis by (auto simp: obeys_def)
next
  case (Inr a)
  with assms(1,2,5) obtain \<alpha> where "good w'" "\<alpha> \<in> acts a" "queue_step \<alpha> (view w) (view w')"
    unfolding obeys_def by fastforce
  with assms(3,4) assms(6) [OF Inr] in_progress_step show ?thesis by blast
qed

lemma entry_kept:
  assumes "good w" "qs_entries (view w) i = Some e" "en_status e = InProgress"
  shows "submit_op seg man key retries w = (r, w') \<Longrightarrow> good w' \<and> qs_entries (view w') i = Some e"
    and "succeed_op k w = (r, w') \<Longrightarrow> k \<noteq> i \<Longrightarrow> good w' \<and> qs_entries (view w') i = Some e"
    and "fail_op j err b w = (r, w') \<Longrightarrow> rj_id j \<noteq> i \<Longrightarrow> good w' \<and> qs_entries (view w') i = Some e"
    and "revive_op w = (r2, w') \<Longrightarrow> good w' \<and> qs_entries (view w') i = Some e"
    and "claim_op n w = (r3, w') \<Longrightarrow> good w' \<and> qs_entries (view w') i = Some e"
  using entry_obeys [OF submit_law assms] entry_obeys [OF succeed_law assms]
    entry_obeys [OF fail_law assms] entry_obeys [OF revive_law assms] entry_obeys [OF claim_law assms]
  by fastforce+

text \<open>What was claimed is held.\<close>

lemma claimed_held:
  assumes "good w" "claim_op n w = (Inr js, w')" "j \<in> set js"
  shows "good w' \<and> held (rj_id j) (view w') \<and>
    (\<exists>e. qs_entries (view w') (rj_id j) = Some e \<and> en_status e = InProgress)"
proof -
  from claim_law [of n] assms(1,2) have "good w'" and step: "queue_step (Claim js) (view w) (view w')"
    unfolding obeys_def by fastforce+
  from step assms(3) obtain e where "qs_entries (view w) (rj_id j) = Some e"
    "qs_entries (view w') (rj_id j) = Some (e\<lparr>en_status := InProgress\<rparr>)"
    by (auto elim!: queue_stepE simp: claim_entries_def)
  with bound_law [of w'] \<open>good w'\<close> show ?thesis by (auto simp: held_def)
qed

end

lemma entries_below_next:
  "queue_inv q w \<Longrightarrow> qs_entries (queue_abs q w) i = Some e \<Longrightarrow> i < qs_next (queue_abs q w)"
  by (auto simp: queue_inv_def queue_abs_def abs_table_def table_ok_def dest!: row_at_id)

interpretation rq: queue_service "queue_inv q" "queue_abs q" "enqueue q" "claim_ready q"
    "mark_success q" "mark_failed q" "retry_failed q" for q
  by unfold_locales
     (intro implements_obeys enqueue_implements claim_ready_implements mark_success_implements
        mark_failed_implements retry_failed_implements | rule entries_below_next; assumption)+

section \<open>Sequences of calls\<close>

text \<open>
  The calls the daemon makes in any order: the replicator's loop, finalized segments, the
  control socket, and the opening of the queue at a restart. \<open>exec\<close> runs one of them and
  gives the jobs it hands out.
\<close>

datatype queue_call =
    CallInit
  | CallEnqueue path path string u32
  | CallClaim u64
  | CallSuccess int
  | CallFailed replication_job string u64
  | CallPendingCount
  | CallFailedCount
  | CallRetryFailed

fun exec :: "replication_queue \<Rightarrow> queue_call \<Rightarrow> 'z store_scheme \<Rightarrow> replication_job list \<times> 'z store_scheme" where
  "exec q CallInit w = ([], snd (queue_init q w))"
| "exec q (CallEnqueue seg man key n) w = ([], snd (enqueue q seg man key n w))"
| "exec q (CallClaim n) w =
     (case claim_ready q n w of (Inl e, w') \<Rightarrow> ([], w') | (Inr js, w') \<Rightarrow> (js, w'))"
| "exec q (CallSuccess i) w = ([], snd (mark_success q i w))"
| "exec q (CallFailed j err b) w = ([], snd (mark_failed q j err b w))"
| "exec q CallPendingCount w = ([], snd (pending_count q w))"
| "exec q CallFailedCount w = ([], snd (failed_count q w))"
| "exec q CallRetryFailed w = ([], snd (retry_failed q w))"

fun run_calls ::
  "replication_queue \<Rightarrow> queue_call list \<Rightarrow> 'z store_scheme \<Rightarrow> replication_job list \<times> 'z store_scheme" where
  "run_calls q [] w = ([], w)"
| "run_calls q (c # cs) w =
     (let (js, w1) = exec q c w; (js', w2) = run_calls q cs w1 in (js @ js', w2))"

text \<open>The job a call reports as failed, and the one it reports as done.\<close>

fun fails_job :: "int \<Rightarrow> queue_call \<Rightarrow> bool" where
  "fails_job i (CallFailed j err b) = (rj_id j = i)"
| "fails_job i _ = False"

fun settles_job :: "int \<Rightarrow> queue_call \<Rightarrow> bool" where
  "settles_job i (CallSuccess k) = (k = i)"
| "settles_job i (CallFailed j err b) = (rj_id j = i)"
| "settles_job i _ = False"

lemmas exec_observers = exec.simps(1) exec.simps(6) exec.simps(7)

lemma observer_kept:
  assumes "implements q (\<lambda>_. {Observe}) m" "queue_inv q w" "m w = (r, w')"
  shows "queue_inv q w' \<and> queue_abs q w' = queue_abs q w"
  using assms unfolding implements_def by (fastforce elim: queue_stepE split: sum.splits)

lemma exec_held:
  assumes w: "queue_inv q w" "held i (queue_abs q w)" and run: "exec q c w = (js, w')" and c: "\<not> fails_job i c"
  shows "queue_inv q w' \<and> held i (queue_abs q w') \<and> i \<notin> rj_id ` set js"
proof (cases c)
  case (CallClaim n)
  obtain r w1 where "claim_ready q n w = (r, w1)" by force
  with run CallClaim rq.held_kept(5) [OF w] rq.claim_skips_held [OF w] show ?thesis
    by (cases r) auto
next
  case CallInit
  with run observer_kept [OF queue_init_implements w(1)] w(2) show ?thesis
    by (metis exec_observers prod.collapse prod.inject empty_iff image_empty list.set(1))
next
  case CallPendingCount
  with run observer_kept [OF count_implements(1) w(1)] w(2) show ?thesis
    by (metis exec_observers prod.collapse prod.inject empty_iff image_empty list.set(1))
next
  case CallFailedCount
  with run observer_kept [OF count_implements(2) w(1)] w(2) show ?thesis
    by (metis exec_observers prod.collapse prod.inject empty_iff image_empty list.set(1))
next
  case (CallEnqueue seg man key n)
  with run rq.held_kept(1) [OF w, of seg man key n "fst (enqueue q seg man key n w)"] show ?thesis by auto
next
  case (CallSuccess k)
  with run rq.held_kept(2) [OF w, of k "fst (mark_success q k w)"] show ?thesis by auto
next
  case (CallFailed j err b)
  with run c rq.held_kept(3) [OF w, of j err b "fst (mark_failed q j err b w)"] show ?thesis by auto
next
  case CallRetryFailed
  with run rq.held_kept(4) [OF w, of "fst (retry_failed q w)"] show ?thesis by auto
qed

lemma run_calls_held:
  assumes "queue_inv q w" "held i (queue_abs q w)" "run_calls q cs w = (js, w')" "\<forall>c \<in> set cs. \<not> fails_job i c"
  shows "queue_inv q w' \<and> held i (queue_abs q w') \<and> i \<notin> rj_id ` set js"
  using assms
proof (induction cs arbitrary: w js)
  case (Cons c cs)
  obtain js1 w1 js2 where c: "exec q c w = (js1, w1)" "run_calls q cs w1 = (js2, w')" "js = js1 @ js2"
    using Cons.prems(3) by (auto split: prod.splits)
  from exec_held [OF Cons.prems(1,2) c(1)] Cons.prems(4)
  have one: "queue_inv q w1" "held i (queue_abs q w1)" "i \<notin> rj_id ` set js1" by auto
  from Cons.IH [OF one(1,2) c(2)] Cons.prems(4) one(3) c(3) show ?case by auto
qed simp

lemma exec_entry:
  assumes w: "queue_inv q w" "qs_entries (queue_abs q w) i = Some e" "en_status e = InProgress"
    and run: "exec q c w = (js, w')" and c: "\<not> settles_job i c"
  shows "queue_inv q w' \<and> qs_entries (queue_abs q w') i = Some e"
proof (cases c)
  case (CallClaim n)
  obtain r w1 where "claim_ready q n w = (r, w1)" by force
  with run CallClaim rq.entry_kept(5) [OF w] show ?thesis by (cases r) auto
next
  case CallInit
  with run observer_kept [OF queue_init_implements w(1)] w(2) show ?thesis
    by (metis exec_observers prod.collapse prod.inject)
next
  case CallPendingCount
  with run observer_kept [OF count_implements(1) w(1)] w(2) show ?thesis
    by (metis exec_observers prod.collapse prod.inject)
next
  case CallFailedCount
  with run observer_kept [OF count_implements(2) w(1)] w(2) show ?thesis
    by (metis exec_observers prod.collapse prod.inject)
next
  case (CallEnqueue seg man key n)
  with run rq.entry_kept(1) [OF w, of seg man key n "fst (enqueue q seg man key n w)"] show ?thesis by auto
next
  case (CallSuccess k)
  with run c rq.entry_kept(2) [OF w, of k "fst (mark_success q k w)"] show ?thesis by auto
next
  case (CallFailed j err b)
  with run c rq.entry_kept(3) [OF w, of j err b "fst (mark_failed q j err b w)"] show ?thesis by auto
next
  case CallRetryFailed
  with run rq.entry_kept(4) [OF w, of "fst (retry_failed q w)"] show ?thesis by auto
qed

lemma run_calls_entry:
  assumes "queue_inv q w" "qs_entries (queue_abs q w) i = Some e" "en_status e = InProgress"
    and "run_calls q cs w = (js, w')" "\<forall>c \<in> set cs. \<not> settles_job i c"
  shows "queue_inv q w' \<and> qs_entries (queue_abs q w') i = Some e"
  using assms
proof (induction cs arbitrary: w js)
  case (Cons c cs)
  obtain js1 w1 js2 where c: "exec q c w = (js1, w1)" "run_calls q cs w1 = (js2, w')" "js = js1 @ js2"
    using Cons.prems(4) by (auto split: prod.splits)
  from exec_entry [OF Cons.prems(1-3) c(1)] Cons.prems(5)
  have one: "queue_inv q w1" "qs_entries (queue_abs q w1) i = Some e" by auto
  from Cons.IH [OF one Cons.prems(3) c(2)] Cons.prems(5) show ?case by auto
qed simp

section \<open>Runs without faults and repeated failures\<close>

lemma claim_updates_fault_free:
  "fault_free w \<Longrightarrow> \<exists>n. claim_updates now jobs t w = (Inr (claim_table now jobs t), w\<lparr>w_step := n\<rparr>)"
proof (induction jobs arbitrary: t w)
  case Nil
  show ?case by (intro exI [of _ "w_step w"]) (simp add: claim_table_def)
next
  case (Cons j jobs)
  from Cons.IH [of "tick w" "set_in_progress now (rj_id j) t"] Cons.prems show ?case
    by (simp add: sql_def and_then_syscall claim_table_def)
qed

lemma claim_ready_fault_free:
  assumes "fault_free w" "st_dbs w (rq_db_path q) = Some t"
  shows "\<exists>w'. claim_ready q n w = (Inr (select_ready (w_clock w (w_step w)) (u64_as_i64 n) t), w')"
proof -
  let ?now = "w_clock w (w_step w)" and ?w = "w\<lparr>w_step := Suc (Suc (Suc (Suc (w_step w))))\<rparr>"
  obtain k where "claim_updates ?now (select_ready ?now (u64_as_i64 n) t) t ?w =
      (Inr (claim_table ?now (select_ready ?now (u64_as_i64 n) t) t), w\<lparr>w_step := k\<rparr>)"
    using claim_updates_fault_free [of ?w] assms(1) by fastforce
  with assms show ?thesis
    by (simp add: claim_ready_def queue_open_def sql_def and_then_def utc_now_def in_context_def
        syscall_fault_free table_def Let_def put_table_def)
qed

lemma u64_as_i64_small: "unat n < 2 ^ 63 \<Longrightarrow> u64_as_i64 n = int (unat n)"
proof -
  assume "unat n < 2 ^ 63"
  then have "int (unat n) < 2 ^ 63" by (simp only: of_nat_less_numeral_power_cancel_iff)
  moreover have "int (unat n) = uint n" by (rule uint_nat [symmetric])
  moreover have "- (2 ^ 63) \<le> int (unat n)" by (rule order.trans [OF _ of_nat_0_le_iff]) simp
  ultimately show ?thesis unfolding u64_as_i64_def by (metis in_i64_def wrap_i64_id)
qed

lemma select_ready_limit:
  assumes "table_ok t" "unat n < 2 ^ 63"
  shows "select_ready now (u64_as_i64 n) t = map row_job (take (unat n) (filter (row_ready now) (qt_rows t)))"
  using assms by (simp add: select_ready_rows u64_as_i64_small take_limit_def)

text \<open>
  A row that is claimed and fails once for every element of the list (the error, the back-off
  and the time of the failure); in between it may have been given up and revived.
\<close>

definition fail_round :: "string \<times> u64 \<times> int \<Rightarrow> queue_row \<Rightarrow> queue_row" where
  "fail_round = (\<lambda>(err, backoff, now) r.
     set_failed (row_job r) err backoff now (r\<lparr>qr_status := InProgress\<rparr>))"

lemma fail_round_facts:
  "qr_max_retries (fail_round x r) = qr_max_retries r"
  "unat (qr_attempts (fail_round x r)) = min (unat (qr_attempts r) + 1) (2 ^ 32 - 1)"
  "qr_status (fail_round x r) =
     (if qr_max_retries r = 0 \<or> unat (qr_attempts (fail_round x r)) < unat (qr_max_retries r)
      then Pending else Failed)"
  by (simp_all add: fail_round_def set_failed_def row_job_def unat_saturating_add_u32 job_exhausted_def
      word_le_nat_alt word_less_nat_alt unat_eq_zero split: prod.splits)

lemma fail_rounds:
  "qr_max_retries (fold fail_round xs r) = qr_max_retries r \<and>
   unat (qr_attempts (fold fail_round xs r)) = min (unat (qr_attempts r) + length xs) (2 ^ 32 - 1) \<and>
   (xs \<noteq> [] \<longrightarrow> qr_status (fold fail_round xs r) =
     (if qr_max_retries r = 0 \<or> unat (qr_attempts r) + length xs < unat (qr_max_retries r)
      then Pending else Failed))"
proof (induction xs rule: rev_induct)
  case (snoc x xs)
  have "unat (qr_max_retries r) < 2 ^ LENGTH(32)" by (rule unsigned_less)
  with snoc show ?case by (auto simp: fail_round_facts)
next
  case Nil
  have "unat (qr_attempts r) < 2 ^ LENGTH(32)" by (rule unsigned_less)
  then show ?case by simp
qed

section \<open>Properties\<close>

text \<open>
  C2: a job that \<^verbatim>\<open>claim_ready\<close> has handed out is not handed out again, to any caller and
  whatever calls come between and whichever of them fail, unless it is reported as failed:
  no two workers ever hold the same job, and the id of a finished job is not used again.
\<close>

theorem claim_exclusive:
  assumes "queue_inv q w" "claim_ready q n w = (Inr js, w1)" "j \<in> set js"
    and "\<forall>c \<in> set calls. \<not> fails_job (rj_id j) c" "run_calls q calls w1 = (js', w2)"
  shows "rj_id j \<notin> rj_id ` set js'"
proof -
  from rq.claimed_held [OF assms(1-3)]
  have "queue_inv q w1" "held (rj_id j) (queue_abs q w1)" by auto
  from run_calls_held [OF this assms(5,4)] show ?thesis by simp
qed

text \<open>
  C34: a job that was claimed and never settled stays in progress for ever: no other call takes
  it back, neither opening the queue again after a restart nor \<^verbatim>\<open>retry_failed\<close>. A daemon that
  stops between the claim and the settlement leaves such a job behind; it is counted as
  pending and never replicated.
\<close>

theorem in_progress_never_reclaimed:
  assumes "queue_inv q w" "claim_ready q n w = (Inr js, w1)" "j \<in> set js"
    and "\<forall>c \<in> set calls. \<not> settles_job (rj_id j) c" "run_calls q calls w1 = (js', w2)"
  shows "\<exists>t r. st_dbs w2 (rq_db_path q) = Some t \<and> row_at t (rj_id j) = Some r \<and>
    qr_status r = InProgress"
proof -
  from rq.claimed_held [OF assms(1-3)] obtain e where
    "queue_inv q w1" "qs_entries (queue_abs q w1) (rj_id j) = Some e" "en_status e = InProgress" by auto
  with run_calls_entry [OF this assms(5,4)] show ?thesis
    by (auto simp: queue_inv_def queue_abs_def abs_table_def entry_of_def)
qed

text \<open>
  C1: every operation on the queue's table is one step of the specified queue, from a
  well-formed table to a well-formed table, and an operation that fails at any of its calls is
  no step at all; nothing but the queue's own database changes.
\<close>

theorem queue_refines_spec:
  "implements q (\<lambda>_. range Submit) (enqueue q seg man key retries) \<and>
   implements q (\<lambda>js. {Claim js}) (claim_ready q limit) \<and>
   implements q (\<lambda>_. {Done i}) (mark_success q i) \<and>
   implements q (\<lambda>_. {Retry_later (rj_id job), Give_up (rj_id job), Missing (rj_id job)}) (mark_failed q job err backoff) \<and>
   implements q (\<lambda>_. {Revive}) (retry_failed q) \<and>
   implements q (\<lambda>_. {Observe}) (pending_count q) \<and>
   implements q (\<lambda>_. {Observe}) (failed_count q) \<and>
   implements q (\<lambda>_. {Observe}) (queue_init q)"
  by (intro conjI enqueue_implements claim_ready_implements mark_success_implements
      mark_failed_implements retry_failed_implements count_implements queue_init_implements)

text \<open>
  C30: \<^verbatim>\<open>claim_ready\<close> hands out the oldest jobs that are pending and due, no more than asked
  for and none twice; when it fails, at any of its calls, nothing has been claimed; without
  faults it does not fail.
\<close>

theorem claim_ready_oldest_due:
  assumes "st_dbs w (rq_db_path q) = Some t" "table_ok t" "unat n < 2 ^ 63"
  shows "(\<forall>js w'. claim_ready q n w = (Inr js, w') \<longrightarrow>
      js = map row_job (take (unat n) (filter (row_ready (w_clock w (w_step w))) (qt_rows t))) \<and>
      sorted_wrt (<) (map rj_id js)) \<and>
    (\<forall>e w'. claim_ready q n w = (Inl e, w') \<longrightarrow> st_dbs w' = st_dbs w) \<and>
    (fault_free w \<longrightarrow> (\<exists>js w'. claim_ready q n w = (Inr js, w')))"
proof (intro conjI allI impI)
  fix js w' assume run: "claim_ready q n w = (Inr js, w')"
  from claim_ready_Inr [OF this assms(1)]
  have js: "js = select_ready (w_clock w (w_step w)) (u64_as_i64 n) t" by blast
  then show "js = map row_job (take (unat n) (filter (row_ready (w_clock w (w_step w))) (qt_rows t)))"
    by (simp only: select_ready_limit [OF assms(2,3)])
  from js show "sorted_wrt (<) (map rj_id js)" by (simp only: select_ready_sorted [OF assms(2)])
next
  fix e w' assume "claim_ready q n w = (Inl e, w')"
  from claim_ready_Inl [OF this] show "st_dbs w' = st_dbs w" by auto
next
  assume "fault_free w"
  from claim_ready_fault_free [OF this assms(1)] show "\<exists>js w'. claim_ready q n w = (Inr js, w')" by blast
qed


section \<open>Witnesses\<close>

definition demo_queue :: replication_queue where
  "demo_queue = \<lparr>rq_db_path = ''q''\<rparr>"

definition demo_table :: queue_table where
  "demo_table = \<lparr>qt_rows = [new_row ''s'' ''m'' ''local:/b'' 3 5 1, new_row ''s2'' ''m2'' ''local:/b'' 3 5 2],
     qt_next_id = 3\<rparr>"

definition demo_store :: "(path \<Rightarrow> bytes option) \<Rightarrow> store" where
  "demo_store fs =
     \<lparr>w_files = fs, w_fault = (\<lambda>_ _. None), w_clock = (\<lambda>n. 1700000000), w_io_len = (\<lambda>_. 3),
      w_step = 0, w_events = [], st_dbs = [''q'' \<mapsto> demo_table], st_objects = Map.empty, st_failures = 0\<rparr>"

lemma demo_table_ok [simp]: "table_ok demo_table"
  by (simp add: table_ok_def demo_table_def)

lemma demo_store_facts:
  "queue_inv demo_queue (demo_store fs)" "fault_free (demo_store fs)"
  "st_dbs (demo_store fs) (rq_db_path demo_queue) = Some demo_table"
  by (simp_all add: queue_inv_def demo_queue_def demo_store_def fault_free_def)

lemma demo_claim:
  obtains w1 where "claim_ready demo_queue 1 (demo_store fs) = (Inr [row_job (hd (qt_rows demo_table))], w1)"
proof -
  have "select_ready (w_clock (demo_store fs) (w_step (demo_store fs))) (u64_as_i64 1) demo_table =
      [row_job (hd (qt_rows demo_table))]"
    using select_ready_limit [OF demo_table_ok, of 1]
    by (simp add: demo_store_def demo_table_def row_ready_def new_row_def)
  with claim_ready_fault_free [OF demo_store_facts(2,3), of 1] that show ?thesis by metis
qed

theorem claim_exclusive_witness:
  "1 \<notin> rj_id ` set (fst (run_calls demo_queue [CallRetryFailed, CallClaim 5]
     (snd (claim_ready demo_queue 1 (demo_store Map.empty)))))"
proof -
  obtain w1 where c: "claim_ready demo_queue 1 (demo_store Map.empty) =
    (Inr [row_job (hd (qt_rows demo_table))], w1)" by (rule demo_claim)
  have i: "rj_id (row_job (hd (qt_rows demo_table))) = 1" by (simp add: demo_table_def)
  show ?thesis
    using claim_exclusive [OF demo_store_facts(1) c, of "row_job (hd (qt_rows demo_table))"
        "[CallRetryFailed, CallClaim 5]"] i c
    by (metis list.set_intros(1) prod.collapse fails_job.simps set_ConsD snd_conv empty_iff list.set(1))
qed

theorem in_progress_never_reclaimed_witness:
  "\<exists>t r. st_dbs (snd (run_calls demo_queue [CallInit, CallRetryFailed, CallClaim 5]
      (snd (claim_ready demo_queue 1 (demo_store Map.empty))))) ''q'' = Some t \<and>
    row_at t 1 = Some r \<and> qr_status r = InProgress"
proof -
  obtain w1 where c: "claim_ready demo_queue 1 (demo_store Map.empty) =
    (Inr [row_job (hd (qt_rows demo_table))], w1)" by (rule demo_claim)
  have i: "rj_id (row_job (hd (qt_rows demo_table))) = 1" by (simp add: demo_table_def)
  have q: "rq_db_path demo_queue = ''q''" by (simp add: demo_queue_def)
  show ?thesis
    using in_progress_never_reclaimed [OF demo_store_facts(1) c, of "row_job (hd (qt_rows demo_table))"
        "[CallInit, CallRetryFailed, CallClaim 5]"] i c unfolding q
    by (metis list.set_intros(1) prod.collapse settles_job.simps set_ConsD snd_conv empty_iff list.set(1))
qed

theorem claim_ready_oldest_due_witness:
  "\<exists>js w'. claim_ready demo_queue 1 (demo_store Map.empty) = (Inr js, w') \<and> map rj_id js = [1]"
proof -
  have n: "unat (1 :: u64) < 2 ^ 63" by simp
  obtain js w' where run: "claim_ready demo_queue 1 (demo_store Map.empty) = (Inr js, w')"
    using claim_ready_oldest_due [OF demo_store_facts(3) demo_table_ok n, of Map.empty] demo_store_facts(2)
    by blast
  then have "js = map row_job (take (unat (1 :: u64))
      (filter (row_ready (w_clock (demo_store Map.empty) (w_step (demo_store Map.empty)))) (qt_rows demo_table)))"
    using claim_ready_oldest_due [OF demo_store_facts(3) demo_table_ok n, of Map.empty] by blast
  then have "map rj_id js = [1]"
    by (simp add: demo_store_def demo_table_def row_ready_def new_row_def)
  with run show ?thesis by (intro exI conjI)
qed


end
