(* ===== verification/Codec.thy ===== *)
theory Codec
  imports Rust_Strings
begin

text \<open>
  A small binary format with a decoder for every encoder. The sources hand the text format of
  manifests to \<^verbatim>\<open>serde_json\<close>, which is a parameter of the model; this format is the concrete
  function the witnesses put in its place, so that the laws assumed of the parameter are seen
  to hold together.
\<close>

fun put_string :: "string \<Rightarrow> bytes" where
  "put_string [] = [0]"
| "put_string (c # cs) = 1 # of_nat (of_char c div 16) # of_nat (of_char c mod 16) # put_string cs"

definition get_char :: "u8 \<Rightarrow> u8 \<Rightarrow> char" where
  "get_char a b = char_of (unat a * 16 + unat b)"

fun get_string :: "bytes \<Rightarrow> (string \<times> bytes) option" where
  "get_string (b # bs) =
     (if b = 0 then Some ([], bs)
      else case bs of
             c # d # cs \<Rightarrow> map_option (\<lambda>(s, r). (get_char c d # s, r)) (get_string cs)
           | _ \<Rightarrow> None)"
| "get_string [] = None"

lemma char_halves: "of_char c div 16 < (16 :: nat)" "of_char c mod 16 < (16 :: nat)"
  using nat_of_char_less_256 [of c] by (simp_all add: less_mult_imp_div_less)

lemma get_char_halves [simp]:
  "get_char (of_nat (of_char c div 16)) (of_nat (of_char c mod 16)) = c"
  using char_halves [of c] by (simp add: get_char_def unat_of_nat)

lemma get_put_string [simp]: "get_string (put_string s @ r) = Some (s, r)"
  by (induction s) simp_all

text \<open>Only small bytes are used, so the format is text.\<close>

definition small :: "bytes \<Rightarrow> bool" where
  "small bs \<longleftrightarrow> (\<forall>b \<in> set bs. b < 128)"

lemma small_append [simp]: "small (a @ b) \<longleftrightarrow> small a \<and> small b"
  by (auto simp: small_def)

lemma small_half: "n < 16 \<Longrightarrow> (of_nat n :: u8) < 128"
  by (simp add: word_less_nat_alt unat_of_nat)

lemma small_put_string [simp]: "small (put_string s)"
  using char_halves by (induction s) (auto simp: small_def intro!: small_half)

definition put_nat :: "nat \<Rightarrow> bytes" where
  "put_nat n = replicate n 1 @ [0]"

fun get_nat :: "bytes \<Rightarrow> (nat \<times> bytes) option" where
  "get_nat (b # bs) =
     (if b = 0 then Some (0, bs) else map_option (\<lambda>(n, r). (Suc n, r)) (get_nat bs))"
| "get_nat [] = None"

lemma get_put_nat [simp]: "get_nat (put_nat n @ r) = Some (n, r)"
  by (induction n) (simp_all add: put_nat_def)

definition put_int :: "int \<Rightarrow> bytes" where
  "put_int x = (if x < 0 then 1 else 0) # put_nat (nat \<bar>x\<bar>)"

definition get_int :: "bytes \<Rightarrow> (int \<times> bytes) option" where
  "get_int bs =
     (case bs of
        [] \<Rightarrow> None
      | b # r \<Rightarrow> map_option (\<lambda>(n, r). (if b = 1 then - int n else int n, r)) (get_nat r))"

lemma get_put_int [simp]: "get_int (put_int x @ r) = Some (x, r)"
  by (simp add: get_int_def put_int_def)

lemma small_put_nat [simp]: "small (put_nat n)" "small (put_int x)"
  by (auto simp: small_def put_nat_def put_int_def)

end
