(* ===== verification/Manifest.thy ===== *)
theory Manifest
  imports Archive_Types World Codec "HOL-Library.Monad_Syntax"
begin

text \<open>
  \<^verbatim>\<open>src/archive/manifest.rs\<close>: the manifest written beside every segment. The digest
  (crates \<^verbatim>\<open>sha2\<close> and \<^verbatim>\<open>hex\<close>) and the JSON text (crate \<^verbatim>\<open>serde_json\<close>) are parameters,
  gathered in the record \<open>manifest_ext\<close>; \<open>digest_laws\<close> and \<open>json_laws\<close> state what the
  sources rely on.
\<close>

record segment_manifest =
  sm_collector_id :: string
  sm_stream :: string
  sm_start_ts :: int
  sm_end_ts :: int
  sm_record_count :: u64
  sm_bytes :: u64
  sm_sha256 :: string
  sm_compression :: compression_kind
  sm_layout_profile :: layout_profile
  sm_relative_path :: string

record 'h manifest_ext =
  mx_sha_new :: 'h
  mx_sha_update :: "'h \<Rightarrow> bytes \<Rightarrow> 'h"
  mx_sha_finalize :: "'h \<Rightarrow> bytes"
  mx_hex_encode :: "bytes \<Rightarrow> string"
  mx_to_json :: "segment_manifest \<Rightarrow> bytes result"
  mx_from_json :: "bytes \<Rightarrow> segment_manifest result"

text \<open>
  \<^verbatim>\<open>Digest::update\<close> may be called piecewise: hashing two pieces in turn hashes their
  concatenation, and an empty piece changes nothing.
\<close>

definition digest_laws :: "('h, 'y) manifest_ext_scheme \<Rightarrow> bool" where
  "digest_laws X \<longleftrightarrow>
     (\<forall>h a b. mx_sha_update X (mx_sha_update X h a) b = mx_sha_update X h (a @ b)) \<and>
     (\<forall>h. mx_sha_update X h [] = h)"

text \<open>
  Serialising a manifest does not fail and gives text, and reading the text back gives the
  manifest.
\<close>

definition json_laws :: "('h, 'y) manifest_ext_scheme \<Rightarrow> bool" where
  "json_laws X \<longleftrightarrow> 
     (\<forall>m. \<exists>j. mx_to_json X m = Inr j \<and> valid_utf8 j \<and> mx_from_json X j = Inr m)"

section \<open>Operations\<close>

text \<open>
  The number of bytes one \<^verbatim>\<open>read\<close> into the 8192-byte buffer returns when \<open>n\<close> bytes are
  left: nothing at the end of the file, at least one byte before it.
\<close>

definition read_len :: "'z world_scheme \<Rightarrow> nat \<Rightarrow> nat" where
  "read_len w n = (if n = 0 then 0 else max 1 (min (min n 8192) (w_io_len w (w_step w))))"

lemma read_len_bounds: "read_len w n \<le> n" "read_len w n \<le> 8192" "0 < n \<Longrightarrow> 0 < read_len w n"
  by (auto simp: read_len_def)

definition hash_read :: "path \<Rightarrow> ('z world_scheme, unit) io" where
  "hash_read p = in_context (''failed reading '' @ p @ '' for hashing'') (syscall (OpRead p))"

function hash_loop ::
  "('h, 'y) manifest_ext_scheme \<Rightarrow> path \<Rightarrow> 'h \<Rightarrow> bytes \<Rightarrow> ('z world_scheme, 'h) io" where
  "hash_loop X p hasher rest w =
     (case hash_read p w of
        (Inl e, w') \<Rightarrow> (Inl e, w')
      | (Inr _, w') \<Rightarrow>
          (let got = read_len w (length rest)
           in if got = 0 then (Inr hasher, w')
              else hash_loop X p (mx_sha_update X hasher (take got rest)) (drop got rest) w'))"
  by pat_completeness auto
termination
  by (relation "measure (\<lambda>(X, p, h, rest, w). length rest)")
     (auto simp: read_len_def split: if_splits)

declare hash_loop.simps [simp del]

definition compute_sha256 ::
  "('h, 'y) manifest_ext_scheme \<Rightarrow> path \<Rightarrow> ('z world_scheme, string) io" where
  "compute_sha256 X p =
     and_then (in_context (''failed to open segment for hashing '' @ p)
       (and_then (syscall (OpOpen p)) (\<lambda>_. content p))) (\<lambda>data.
     and_then (hash_loop X p (mx_sha_new X) data) (\<lambda>h.
       ret (mx_hex_encode X (mx_sha_finalize X h))))"

definition manifest_build ::
  "('h, 'y) manifest_ext_scheme \<Rightarrow> string \<Rightarrow> archive_stream \<Rightarrow> int \<Rightarrow> int \<Rightarrow> u64 \<Rightarrow>
   compression_kind \<Rightarrow> layout_profile \<Rightarrow> path \<Rightarrow> path \<Rightarrow> ('z world_scheme, segment_manifest) io" where
  "manifest_build X collector_id stream start_ts end_ts record_count compression layout_profile
     segment_path relative =
     and_then (in_context (''failed to stat segment '' @ segment_path) (metadata_len segment_path)) (\<lambda>n.
     and_then (compute_sha256 X segment_path) (\<lambda>sha.
       ret \<lparr>sm_collector_id = collector_id, sm_stream = stream_as_str stream,
            sm_start_ts = start_ts, sm_end_ts = end_ts, sm_record_count = record_count,
            sm_bytes = n, sm_sha256 = sha, sm_compression = compression,
            sm_layout_profile = layout_profile, sm_relative_path = relative\<rparr>))"

definition sidecar_path :: "path \<Rightarrow> path" where
  "sidecar_path segment_path = segment_path @ ''.json''"

definition write_sidecar ::
  "('h, 'y) manifest_ext_scheme \<Rightarrow> segment_manifest \<Rightarrow> path \<Rightarrow> ('z world_scheme, path) io" where
  "write_sidecar X m segment_path =
     and_then (lift_res (mx_to_json X m)) (\<lambda>json.
     and_then (in_context (''failed to write manifest '' @ sidecar_path segment_path)
       (write_file (sidecar_path segment_path) json)) (\<lambda>_.
       ret (sidecar_path segment_path)))"

section \<open>Hashing in pieces\<close>

definition digest_of :: "('h, 'y) manifest_ext_scheme \<Rightarrow> bytes \<Rightarrow> string" where
  "digest_of X data = mx_hex_encode X (mx_sha_finalize X (mx_sha_update X (mx_sha_new X) data))"

lemma hash_loop_Inr:
  assumes laws: "digest_laws X" and "hash_loop X p h rest w = (Inr h', w')"
  shows "h' = mx_sha_update X h rest"
  using assms(2,1)
proof (induction X p h rest w rule: hash_loop.induct)
  case (1 X p h rest w)
  obtain r w1 where s: "hash_read p w = (r, w1)"
    by force
  show ?case
  proof (cases r)
    case (Inl e)
    with 1 s show ?thesis by (simp add: hash_loop.simps [of X p h rest w])
  next
    case (Inr u)
    let ?n = "read_len w (length rest)"
    show ?thesis
    proof (cases "?n = 0")
      case True
      with 1(2) s Inr have "h' = h" by (simp add: hash_loop.simps [of X p h rest w])
      moreover from True have "rest = []" using read_len_bounds(3) [of "length rest" w] by auto
      ultimately show ?thesis using 1(3) by (simp add: digest_laws_def)
    next
      case False
      with 1 s Inr have "h' = mx_sha_update X (mx_sha_update X h (take ?n rest)) (drop ?n rest)"
        by (simp add: hash_loop.simps [of X p h rest w] Let_def)
      with 1(3) show ?thesis by (simp add: digest_laws_def)
    qed
  qed
qed

lemma hash_read_world: "snd (hash_read p w) = tick w"
  by (simp add: hash_read_def syscall_def split: option.splits)

lemma hash_loop_world: "\<exists>n. snd (hash_loop X p h rest w) = w\<lparr>w_step := n\<rparr> \<and> w_step w \<le> n"
proof (induction X p h rest w rule: hash_loop.induct)
  case (1 X p h rest w)
  obtain r where s: "hash_read p w = (r, tick w)"
    using hash_read_world by (metis prod.collapse)
  show ?case
  proof (cases r)
    case (Inl e)
    with s show ?thesis by (intro exI [of _ "Suc (w_step w)"]) (simp add: hash_loop.simps [of X p h rest w])
  next
    case (Inr u)
    show ?thesis
    proof (cases "read_len w (length rest) = 0")
      case True
      with s Inr show ?thesis
        by (intro exI [of _ "Suc (w_step w)"]) (simp add: hash_loop.simps [of X p h rest w])
    next
      case False
      from 1 [OF s [symmetric] Inr refl False] obtain n where
        "snd (hash_loop X p (mx_sha_update X h (take (read_len w (length rest)) rest))
           (drop (read_len w (length rest)) rest) (tick w)) = (tick w)\<lparr>w_step := n\<rparr>" "Suc (w_step w) \<le> n"
        by auto
      with s Inr False show ?thesis
        by (intro exI [of _ n]) (simp add: hash_loop.simps [of X p h rest w] Let_def)
    qed
  qed
qed

lemma hash_loop_fault_free:
  assumes "fault_free w"
  shows "\<exists>h'. fst (hash_loop X p h rest w) = Inr h'"
  using assms
proof (induction X p h rest w rule: hash_loop.induct)
  case (1 X p h rest w)
  have s: "hash_read p w = (Inr (), tick w)"
    using 1(2) by (simp add: hash_read_def in_context_def syscall_fault_free)
  show ?case
  proof (cases "read_len w (length rest) = 0")
    case True
    with s show ?thesis by (simp add: hash_loop.simps [of X p h rest w])
  next
    case False
    with 1 s show ?thesis by (simp add: hash_loop.simps [of X p h rest w] Let_def)
  qed
qed

lemma observes_hash_loop [intro]: "observes (hash_loop X p h rest)"
  using hash_loop_world [of X p h rest] by (intro observesI) (auto simp: conj_commute)

lemma observes_compute_sha256 [intro]: "observes (compute_sha256 X p)"
  unfolding compute_sha256_def by (intro observes_and_then observes_in_context) auto

lemma observes_manifest_build [intro]: "observes (manifest_build X c s a b n k l p r)"
  unfolding manifest_build_def metadata_len_def
  by (intro observes_and_then observes_in_context observes_compute_sha256) auto

lemma compute_sha256_Inr:
  assumes "digest_laws X" "compute_sha256 X p w = (Inr s, w')"
  shows "\<exists>data. w_files w p = Some data \<and> s = digest_of X data"
  using assms hash_loop_Inr [OF assms(1)]
  by (fastforce simp: compute_sha256_def io_simps digest_of_def)

lemma compute_sha256_runs:
  assumes "digest_laws X" "fault_free w" "w_files w p = Some data"
  shows "\<exists>w'. compute_sha256 X p w = (Inr (digest_of X data), w')"
proof -
  obtain h w1 where loop: "hash_loop X p (mx_sha_new X) data (tick w) = (Inr h, w1)"
    using hash_loop_fault_free [of "tick w" X p "mx_sha_new X" data] assms(2) by (auto simp: prod_eq_iff)
  have "h = mx_sha_update X (mx_sha_new X) data" by (rule hash_loop_Inr [OF assms(1) loop])
  moreover have "compute_sha256 X p w = (Inr (mx_hex_encode X (mx_sha_finalize X h)), w1)"
    unfolding compute_sha256_def
    by (subst and_then_run(1) [where a = data and w' = "tick w"])
       (simp_all add: io_simps assms(3) syscall_fault_free [OF assms(2)] loop
          fault_free_def [THEN iffD1, OF assms(2)] and_then_def)
  ultimately show ?thesis by (auto simp: digest_of_def)
qed

section \<open>Properties\<close>

text \<open>
  the digest is computed over reads of at most 8192 bytes each, of whatever lengths the
  system returns. It is the digest of the whole file however the reads are cut, the files
  stay as they are, and without faults the loop ends with a result.
\<close>

theorem compute_sha256_whole_file:
  assumes "digest_laws X" "w_files w p = Some data"
  shows "(\<forall>s w'. compute_sha256 X p w = (Inr s, w') \<longrightarrow> s = digest_of X data \<and> w_files w' = w_files w) \<and>
    (fault_free w \<longrightarrow> (\<exists>w'. compute_sha256 X p w = (Inr (digest_of X data), w')))"
proof (intro conjI allI impI)
  fix s w' assume run: "compute_sha256 X p w = (Inr s, w')"
  show "s = digest_of X data" using compute_sha256_Inr [OF assms(1) run] assms(2) by auto
  show "w_files w' = w_files w" using observes_compute_sha256 run by (rule observesE) simp
next
  assume "fault_free w"
  with assms show "\<exists>w'. compute_sha256 X p w = (Inr (digest_of X data), w')"
    by (intro compute_sha256_runs)
qed

section \<open>Concrete externals\<close>

text \<open>A world and externals to apply the properties to.\<close>

definition put_manifest :: "segment_manifest \<Rightarrow> bytes" where
  "put_manifest m =
     put_string (sm_collector_id m) @ put_string (sm_stream m) @ put_int (sm_start_ts m) @
     put_int (sm_end_ts m) @ put_nat (unat (sm_record_count m)) @ put_nat (unat (sm_bytes m)) @
     put_string (sm_sha256 m) @
     put_nat (case sm_compression m of Gzip \<Rightarrow> 0 | Bzip2 \<Rightarrow> 1 | Zstd \<Rightarrow> 2) @
     put_nat (case sm_layout_profile m of RouteViews \<Rightarrow> 0 | Ris \<Rightarrow> 1 | Custom \<Rightarrow> 2) @
     put_string (sm_relative_path m)"

definition get_manifest :: "bytes \<Rightarrow> segment_manifest option" where
  "get_manifest bs =
     do { (c, bs) \<leftarrow> get_string bs; (s, bs) \<leftarrow> get_string bs;
          (t, bs) \<leftarrow> get_int bs; (e, bs) \<leftarrow> get_int bs;
          (n, bs) \<leftarrow> get_nat bs; (l, bs) \<leftarrow> get_nat bs; (h, bs) \<leftarrow> get_string bs;
          (k, bs) \<leftarrow> get_nat bs; (p, bs) \<leftarrow> get_nat bs; (r, bs) \<leftarrow> get_string bs;
          Some \<lparr>sm_collector_id = c, sm_stream = s, sm_start_ts = t, sm_end_ts = e,
            sm_record_count = of_nat n, sm_bytes = of_nat l, sm_sha256 = h,
            sm_compression = (if k = 0 then Gzip else if k = 1 then Bzip2 else Zstd),
            sm_layout_profile = (if p = 0 then RouteViews else if p = 1 then Ris else Custom),
            sm_relative_path = r\<rparr> }"

lemma get_put_manifest: "get_manifest (put_manifest m) = Some m"
proof -
  have "get_string (put_string s) = Some (s, [])" for s
    using get_put_string [of s "[]"] by simp
  then show ?thesis
    by (cases m) (simp add: put_manifest_def get_manifest_def
        split: compression_kind.splits layout_profile.splits)
qed

lemma put_manifest_text: "valid_utf8 (put_manifest m)"
proof -
  have "small (put_manifest m)" by (simp add: put_manifest_def)
  then show ?thesis by (simp add: small_def valid_utf8_ascii)
qed

definition demo_ext :: "bytes manifest_ext" where
  "demo_ext =
     \<lparr>mx_sha_new = [], mx_sha_update = (@), mx_sha_finalize = take 32,
      mx_hex_encode = concat \<circ> map (\<lambda>b. fmt_nat 3 (unat b)), mx_to_json = (\<lambda>m. Inr (put_manifest m)),
      mx_from_json = (\<lambda>j. ok_or (Msg ''not a manifest'') (get_manifest j))\<rparr>"

definition demo_world :: "(path \<Rightarrow> bytes option) \<Rightarrow> world" where
  "demo_world fs =
     \<lparr>w_files = fs, w_fault = (\<lambda>_ _. None), w_clock = (\<lambda>n. 1700000000 + int n),
      w_io_len = (\<lambda>_. 3), w_step = 0, w_events = []\<rparr>"

lemma demo_ext_laws: "digest_laws demo_ext" "json_laws demo_ext"
  by (simp_all add: digest_laws_def json_laws_def demo_ext_def get_put_manifest put_manifest_text)

theorem compute_sha256_whole_file_witness:
  "\<exists>w'. compute_sha256 demo_ext ''s.gz'' (demo_world [''s.gz'' \<mapsto> [1, 2, 3, 4, 5]]) =
     (Inr (digest_of demo_ext [1, 2, 3, 4, 5]), w')"
  using compute_sha256_whole_file [OF demo_ext_laws(1),
      of "demo_world [''s.gz'' \<mapsto> [1, 2, 3, 4, 5]]" "''s.gz''" "[1, 2, 3, 4, 5]"]
  by (simp add: demo_world_def fault_free_def)

end
