(* ===== verification/Writer.thy ===== *)
theory Writer
  imports Manifest
begin

text \<open>
  \<^verbatim>\<open>src/archive/writer.rs\<close>: a segment being written. The compressors (crates
  \<^verbatim>\<open>flate2\<close>, \<^verbatim>\<open>bzip2\<close>, \<^verbatim>\<open>zstd\<close>) are the parameter \<open>wx_compress\<close>: the bytes a finished
  encoder has put into its file, from the kind and the buffers written in turn. Data a
  compressor holds back before it is finished is not visible in the file.
\<close>

datatype segment_encoder =
    GzipEnc path "bytes list"
  | Bzip2Enc path "bytes list"
  | ZstdEnc path "bytes list"

primrec enc_kind :: "segment_encoder \<Rightarrow> compression_kind" where
  "enc_kind (GzipEnc p ws) = Gzip"
| "enc_kind (Bzip2Enc p ws) = Bzip2"
| "enc_kind (ZstdEnc p ws) = Zstd"

primrec enc_path :: "segment_encoder \<Rightarrow> path" where
  "enc_path (GzipEnc p ws) = p"
| "enc_path (Bzip2Enc p ws) = p"
| "enc_path (ZstdEnc p ws) = p"

primrec enc_written :: "segment_encoder \<Rightarrow> bytes list" where
  "enc_written (GzipEnc p ws) = ws"
| "enc_written (Bzip2Enc p ws) = ws"
| "enc_written (ZstdEnc p ws) = ws"

primrec enc_append :: "bytes \<Rightarrow> segment_encoder \<Rightarrow> segment_encoder" where
  "enc_append b (GzipEnc p ws) = GzipEnc p (ws @ [b])"
| "enc_append b (Bzip2Enc p ws) = Bzip2Enc p (ws @ [b])"
| "enc_append b (ZstdEnc p ws) = ZstdEnc p (ws @ [b])"

record 'h writer_ext = "'h manifest_ext" +
  wx_compress :: "compression_kind \<Rightarrow> bytes list \<Rightarrow> bytes"
  wx_decompress :: "compression_kind \<Rightarrow> bytes \<Rightarrow> bytes option"

text \<open>What was written is what a decompressor of the same kind gives back.\<close>

definition compress_laws :: "('h, 'y) writer_ext_scheme \<Rightarrow> bool" where
  "compress_laws X \<longleftrightarrow> (\<forall>k ws. wx_decompress X k (wx_compress X k ws) = Some (concat ws))"

record segment_writer =
  sw_cfg :: archive_config
  sw_stream :: archive_stream
  sw_start_ts :: int
  sw_paths :: seg_paths
  sw_encoder :: segment_encoder
  sw_record_count :: u64

section \<open>Operations\<close>

text \<open>A failed \<^verbatim>\<open>write_all\<close> may have handed a part of the buffer to the encoder.\<close>

definition encoder_write_all ::
  "segment_encoder \<Rightarrow> bytes \<Rightarrow> 'z world_scheme \<Rightarrow> unit result \<times> segment_encoder \<times> 'z world_scheme" where
  "encoder_write_all enc buf w =
     (case syscall (OpEncoder ''write'' (enc_path enc)) w of
        (Inl e, w') \<Rightarrow> (Inl e, enc_append (take (w_io_len w (w_step w)) buf) enc, w')
      | (Inr _, w') \<Rightarrow> (Inr (), enc_append buf enc, w'))"

definition encoder_flush :: "segment_encoder \<Rightarrow> ('z world_scheme, unit) io" where
  "encoder_flush enc = syscall (OpEncoder ''flush'' (enc_path enc))"

definition finish_context :: "compression_kind \<Rightarrow> string" where
  "finish_context k =
     (case k of Gzip \<Rightarrow> ''failed to finish gzip stream'' | Bzip2 \<Rightarrow> ''failed to finish bzip2 stream''
      | Zstd \<Rightarrow> ''failed to finish zstd stream'')"

definition encoder_finish ::
  "('h, 'y) writer_ext_scheme \<Rightarrow> segment_encoder \<Rightarrow> ('z world_scheme, unit) io" where
  "encoder_finish X enc =
     and_then (encoder_flush enc) (\<lambda>_.
     and_then (in_context (finish_context (enc_kind enc))
       (syscall (OpEncoder ''finish'' (enc_path enc)))) (\<lambda>_.
     and_then (syscall (OpEncoder ''into_inner'' (enc_path enc))) (\<lambda>_.
       modify (\<lambda>w. if w_files w (enc_path enc) = None then w
                    else set_file (enc_path enc)
                           (Some (wx_compress X (enc_kind enc) (enc_written enc))) w))))"

definition create_parent :: "string \<Rightarrow> path \<Rightarrow> ('z world_scheme, unit) io" where
  "create_parent what p =
     (case parent p of
        None \<Rightarrow> ret ()
      | Some d \<Rightarrow> in_context (''failed to create '' @ what @ '' directory '' @ d) (create_dir_all d))"

definition encoder_new :: "compression_kind \<Rightarrow> path \<Rightarrow> ('z world_scheme, segment_encoder) io" where
  "encoder_new k p =
     (case k of
        Gzip \<Rightarrow> ret (GzipEnc p [])
      | Bzip2 \<Rightarrow> ret (Bzip2Enc p [])
      | Zstd \<Rightarrow> and_then (in_context ''failed to create zstd encoder'' (syscall (OpEncoder ''new'' p)))
                  (\<lambda>_. ret (ZstdEnc p [])))"

definition segment_writer_new ::
  "archive_config \<Rightarrow> archive_stream \<Rightarrow> int \<Rightarrow> seg_paths \<Rightarrow> ('z world_scheme, segment_writer) io" where
  "segment_writer_new cfg stream start_ts paths =
     and_then (create_parent ''tmp'' (sp_tmp_path paths)) (\<lambda>_.
     and_then (create_parent ''final'' (sp_final_path paths)) (\<lambda>_.
     and_then (in_context (''failed to create tmp segment '' @ sp_tmp_path paths)
       (file_create (sp_tmp_path paths))) (\<lambda>_.
     and_then (encoder_new (ac_compression cfg) (sp_tmp_path paths)) (\<lambda>enc.
       ret \<lparr>sw_cfg = cfg, sw_stream = stream, sw_start_ts = start_ts, sw_paths = paths,
            sw_encoder = enc, sw_record_count = 0\<rparr>))))"

definition write_record ::
  "segment_writer \<Rightarrow> bytes \<Rightarrow> 'z world_scheme \<Rightarrow> unit result \<times> segment_writer \<times> 'z world_scheme" where
  "write_record sw record_bytes w =
     (case encoder_write_all (sw_encoder sw) record_bytes w of
        (Inl e, enc, w') \<Rightarrow> (Inl e, sw\<lparr>sw_encoder := enc\<rparr>, w')
      | (Inr _, enc, w') \<Rightarrow>
          (Inr (), sw\<lparr>sw_encoder := enc, sw_record_count := sw_record_count sw + 1\<rparr>, w'))"

definition writer_path :: "segment_writer \<Rightarrow> path" where
  "writer_path sw = sp_final_path (sw_paths sw)"

definition writer_finalize ::
  "('h, 'y) writer_ext_scheme \<Rightarrow> segment_writer \<Rightarrow> int \<Rightarrow> ('z world_scheme, finalized_segment) io" where
  "writer_finalize X sw end_ts =
     (let tmp = sp_tmp_path (sw_paths sw); final = sp_final_path (sw_paths sw); cfg = sw_cfg sw
      in
     and_then (encoder_finish X (sw_encoder sw)) (\<lambda>_.
     and_then (if ac_fsync_on_rotate cfg
               then in_context ''failed to fsync archive segment'' (syscall (OpSyncAll tmp))
               else ret ()) (\<lambda>_.
     and_then (in_context (''failed to atomically move '' @ tmp @ '' to '' @ final) (rename tmp final)) (\<lambda>_.
     and_then (manifest_build X (ac_collector_id cfg) (sw_stream sw) (sw_start_ts sw) end_ts
       (sw_record_count sw) (ac_compression cfg) (ac_layout_profile cfg) final
       (sp_relative_path (sw_paths sw))) (\<lambda>m.
     and_then (write_sidecar X m final) (\<lambda>manifest_path.
       ret \<lparr>fs_stream = sw_stream sw, fs_start_ts = sw_start_ts sw, fs_end_ts = end_ts,
            fs_record_count = sw_record_count sw, fs_bytes = sm_bytes m,
            fs_compression = ac_compression cfg, fs_final_path = final,
            fs_relative_path = sp_relative_path (sw_paths sw),
            fs_manifest_path = manifest_path\<rparr>))))))"

section \<open>Invariant of a writer\<close>

text \<open>
  The encoder of a writer is of the configured kind, writes to the writer's temporary path
  and has received as many buffers as the writer counts records.
\<close>

definition writer_ok :: "segment_writer \<Rightarrow> bool" where
  "writer_ok sw \<longleftrightarrow>
     enc_kind (sw_encoder sw) = ac_compression (sw_cfg sw) \<and>
     enc_path (sw_encoder sw) = sp_tmp_path (sw_paths sw)"

definition writer_exact :: "segment_writer \<Rightarrow> bool" where
  "writer_exact sw \<longleftrightarrow>
     writer_ok sw \<and> sw_record_count sw = of_nat (length (enc_written (sw_encoder sw)))"

definition writer_data :: "('h, 'y) writer_ext_scheme \<Rightarrow> segment_writer \<Rightarrow> bytes" where
  "writer_data X sw = wx_compress X (ac_compression (sw_cfg sw)) (enc_written (sw_encoder sw))"

lemma enc_append_simps [simp]:
  "enc_kind (enc_append b e) = enc_kind e" "enc_path (enc_append b e) = enc_path e"
  "enc_written (enc_append b e) = enc_written e @ [b]"
  by (cases e; simp)+

lemma encoder_new_Inr:
  "encoder_new k p w = (Inr e, w') \<Longrightarrow> enc_kind e = k \<and> enc_path e = p \<and> enc_written e = []"
  by (cases k) (auto simp: encoder_new_def io_simps)

lemma segment_writer_new_Inr:
  assumes "segment_writer_new cfg s t p w = (Inr sw, w')"
  shows "writer_exact sw" "sw_cfg sw = cfg" "sw_stream sw = s" "sw_start_ts sw = t" "sw_paths sw = p"
    "sw_record_count sw = 0" "enc_written (sw_encoder sw) = []"
  using assms
  by (auto simp: segment_writer_new_def io_simps writer_exact_def writer_ok_def dest!: encoder_new_Inr)

lemma write_record_Inr:
  assumes "write_record sw b w = (Inr (), sw', w')"
  shows "sw' = sw\<lparr>sw_encoder := enc_append b (sw_encoder sw), sw_record_count := sw_record_count sw + 1\<rparr>"
    and "w' = tick w"
  using assms
  by (auto simp: write_record_def encoder_write_all_def syscall_def split: option.splits)

lemma write_record_world: "snd (snd (write_record sw b w)) = tick w"
  by (simp add: write_record_def encoder_write_all_def syscall_def split: option.splits)

lemma write_record_exact:
  "write_record sw b w = (Inr (), sw', w') \<Longrightarrow> writer_exact sw \<Longrightarrow> writer_exact sw'"
  by (drule write_record_Inr(1)) (simp add: writer_exact_def writer_ok_def)

lemma write_record_ok: "writer_ok sw \<Longrightarrow> writer_ok (fst (snd (write_record sw b w)))"
  by (simp add: write_record_def encoder_write_all_def writer_ok_def split: sum.splits prod.splits)

lemma write_record_frame:
  "sw_cfg (fst (snd (write_record sw b w))) = sw_cfg sw"
  "sw_stream (fst (snd (write_record sw b w))) = sw_stream sw"
  "sw_start_ts (fst (snd (write_record sw b w))) = sw_start_ts sw"
  "sw_paths (fst (snd (write_record sw b w))) = sw_paths sw"
  by (simp_all add: write_record_def split: sum.splits prod.splits)


section \<open>Publishing a segment\<close>

lemma encoder_finish_Inr:
  assumes "encoder_finish X enc w = (Inr u, w')"
  shows "\<exists>n. w' = (if w_files w (enc_path enc) = None then w\<lparr>w_step := n\<rparr>
    else set_file (enc_path enc) (Some (wx_compress X (enc_kind enc) (enc_written enc))) (w\<lparr>w_step := n\<rparr>))"
  using assms
  by (auto simp: encoder_finish_def encoder_flush_def io_simps split: if_splits)

lemma encoder_finish_Inl: "encoder_finish X enc w = (Inl e, w') \<Longrightarrow> \<exists>n. w' = w\<lparr>w_step := n\<rparr>"
  by (auto simp: encoder_finish_def encoder_flush_def io_simps)

lemma rename_Inr:
  "rename a b w = (Inr u, w') \<longleftrightarrow>
     w_fault w (w_step w) (OpRename a b) = None \<and>
     (\<exists>c. w_files w a = Some c \<and> w' = set_file b (Some c) (set_file a None (tick w)))"
  by (auto simp: rename_def io_simps)

lemma rename_Inl: "rename a b w = (Inl e, w') \<Longrightarrow> w' = tick w"
  by (auto simp: rename_def io_simps)

lemma manifest_build_world:
  "manifest_build X c s a b n k l p r w = (res, w') \<Longrightarrow> \<exists>m. w' = w\<lparr>w_step := m\<rparr>"
  using observesE [OF observes_manifest_build] by metis

lemma write_sidecar_files:
  assumes "write_sidecar X m p w = (res, w')"
  shows "\<exists>c. w_files w' = (w_files w)(sidecar_path p := c)"
proof -
  consider "w' = w" | j where "w' = snd (file_store (OpWriteFile (sidecar_path p)) (sidecar_path p) j w)"
    using assms
    by (auto simp: write_sidecar_def write_file_def and_then_def in_context_def
        split: sum.splits prod.splits) (metis snd_conv)+
  then show ?thesis
  proof cases
    case 1
    then show ?thesis by (intro exI [of _ "w_files w (sidecar_path p)"]) simp
  next
    case (2 j)
    then show ?thesis
      by (cases rule: file_store_cases [of "OpWriteFile (sidecar_path p)" "sidecar_path p" j w])
         (auto intro: exI [of _ "w_files w (sidecar_path p)"])
  qed
qed

text \<open>Everything before the rename leaves the files other than the temporary one alone.\<close>

definition finish_and_sync ::
  "('h, 'y) writer_ext_scheme \<Rightarrow> segment_writer \<Rightarrow> ('z world_scheme, unit) io" where
  "finish_and_sync X sw =
     and_then (encoder_finish X (sw_encoder sw)) (\<lambda>_.
       if ac_fsync_on_rotate (sw_cfg sw)
       then in_context ''failed to fsync archive segment'' (syscall (OpSyncAll (sp_tmp_path (sw_paths sw))))
       else ret ())"

lemma finish_and_sync_files:
  assumes "finish_and_sync X sw w = (res, w')" "writer_ok sw"
  shows "w_files w' = w_files w \<or>
    (w_files w (sp_tmp_path (sw_paths sw)) \<noteq> None \<and>
     w_files w' = (w_files w)(sp_tmp_path (sw_paths sw) \<mapsto> writer_data X sw))"
    "res = Inr () \<Longrightarrow> w_files w (sp_tmp_path (sw_paths sw)) \<noteq> None \<Longrightarrow>
     w_files w' (sp_tmp_path (sw_paths sw)) = Some (writer_data X sw)"
  using assms
  by (auto simp: finish_and_sync_def and_then_def in_context_def syscall_def writer_ok_def writer_data_def
      dest!: encoder_finish_Inr encoder_finish_Inl split: sum.splits prod.splits if_splits option.splits)

definition describe ::
  "('h, 'y) writer_ext_scheme \<Rightarrow> segment_writer \<Rightarrow> int \<Rightarrow> ('z world_scheme, segment_manifest) io" where
  "describe X sw end_ts =
     manifest_build X (ac_collector_id (sw_cfg sw)) (sw_stream sw) (sw_start_ts sw) end_ts
       (sw_record_count sw) (ac_compression (sw_cfg sw)) (ac_layout_profile (sw_cfg sw))
       (sp_final_path (sw_paths sw)) (sp_relative_path (sw_paths sw))"

definition finalized ::
  "segment_writer \<Rightarrow> int \<Rightarrow> segment_manifest \<Rightarrow> finalized_segment" where
  "finalized sw end_ts m =
     \<lparr>fs_stream = sw_stream sw, fs_start_ts = sw_start_ts sw, fs_end_ts = end_ts,
      fs_record_count = sw_record_count sw, fs_bytes = sm_bytes m,
      fs_compression = ac_compression (sw_cfg sw), fs_final_path = sp_final_path (sw_paths sw),
      fs_relative_path = sp_relative_path (sw_paths sw),
      fs_manifest_path = sidecar_path (sp_final_path (sw_paths sw))\<rparr>"

definition publish_rename :: "segment_writer \<Rightarrow> ('z world_scheme, unit) io" where
  "publish_rename sw =
     in_context (''failed to atomically move '' @ sp_tmp_path (sw_paths sw) @ '' to '' @ sp_final_path (sw_paths sw))
       (rename (sp_tmp_path (sw_paths sw)) (sp_final_path (sw_paths sw)))"

text \<open>The stages of \<open>writer_finalize\<close>, named.\<close>

lemma write_sidecar_Inr:
  "write_sidecar X m p w = (Inr q, w') \<longleftrightarrow>
     q = sidecar_path p \<and>
     (\<exists>j. mx_to_json X m = Inr j \<and> w_fault w (w_step w) (OpWriteFile (sidecar_path p)) = None \<and>
          w' = set_file (sidecar_path p) (Some j) (tick w))"
  by (auto simp: write_sidecar_def write_file_def io_simps)

lemma writer_finalize_stages:
  "writer_finalize X sw end_ts =
     and_then (finish_and_sync X sw) (\<lambda>_.
     and_then (publish_rename sw) (\<lambda>_.
     and_then (describe X sw end_ts) (\<lambda>m.
     and_then (write_sidecar X m (sp_final_path (sw_paths sw))) (\<lambda>_.
       ret (finalized sw end_ts m)))))"
  by (rule ext)
     (auto simp: writer_finalize_def finish_and_sync_def publish_rename_def describe_def finalized_def
       and_then_assoc Let_def and_then_def write_sidecar_def split: sum.splits prod.splits)

lemma publish_rename_Inr:
  "publish_rename sw w = (Inr u, w') \<longleftrightarrow>
     w_fault w (w_step w) (OpRename (sp_tmp_path (sw_paths sw)) (sp_final_path (sw_paths sw))) = None \<and>
     (\<exists>c. w_files w (sp_tmp_path (sw_paths sw)) = Some c \<and>
        w' = set_file (sp_final_path (sw_paths sw)) (Some c)
               (set_file (sp_tmp_path (sw_paths sw)) None (tick w)))"
  by (simp add: publish_rename_def io_simps rename_Inr)

lemma publish_rename_Inl: "publish_rename sw w = (Inl e, w') \<Longrightarrow> w' = tick w"
  by (auto simp: publish_rename_def io_simps dest: rename_Inl)

text \<open>The paths of a writer do not clash.\<close>

definition paths_apart :: "seg_paths \<Rightarrow> bool" where
  "paths_apart p \<longleftrightarrow>
     sp_tmp_path p \<noteq> sp_final_path p \<and> sp_tmp_path p \<noteq> sidecar_path (sp_final_path p)"

lemma sidecar_path_neq [simp]: "sidecar_path p \<noteq> p" "p \<noteq> sidecar_path p"
  by (simp_all add: sidecar_path_def)

text \<open>The files after the rename and the manifest, whether or not the latter succeeds.\<close>

lemma describe_and_sidecar_files:
  assumes "and_then (describe X sw end_ts) (\<lambda>m.
     and_then (write_sidecar X m p) (\<lambda>_. ret (finalized sw end_ts m))) w = (r, w')"
  shows "\<exists>c. w_files w' = (w_files w)(sidecar_path p := c)"
proof -
  obtain r1 w1 where d: "describe X sw end_ts w = (r1, w1)" by force
  from manifest_build_world [OF d [unfolded describe_def]] have files: "w_files w1 = w_files w" by auto
  show ?thesis
  proof (cases r1)
    case (Inl e)
    with assms d files show ?thesis
      by (intro exI [of _ "w_files w (sidecar_path p)"]) (simp add: and_then_def)
  next
    case (Inr m)
    obtain r2 w2 where s: "write_sidecar X m p w1 = (r2, w2)" by force
    with assms d Inr have "w' = w2" by (auto simp: and_then_def split: sum.splits)
    with write_sidecar_files [OF s] files show ?thesis by simp
  qed
qed

lemma writer_finalize_files:
  assumes run: "writer_finalize X sw end_ts w = (r, w')" and ok: "writer_ok sw"
  defines "tmp \<equiv> sp_tmp_path (sw_paths sw)" and "final \<equiv> sp_final_path (sw_paths sw)"
  shows "((\<exists>e. r = Inl e) \<and> (\<exists>c. w_files w' = (w_files w)(tmp := c))) \<or>
    (\<exists>c. w_files w' = (w_files w)(tmp := None, final \<mapsto> writer_data X sw, sidecar_path final := c))"
proof -
  obtain r1 w1 where f: "finish_and_sync X sw w = (r1, w1)" by force
  note files1 = finish_and_sync_files [OF f ok, folded tmp_def]
  from files1(1) have unpublished: "\<exists>c. w_files w1 = (w_files w)(tmp := c)"
    by (metis fun_upd_triv)
  show ?thesis
  proof (cases r1)
    case (Inl e)
    with run f unpublished show ?thesis by (auto simp: writer_finalize_stages and_then_def)
  next
    case (Inr u)
    obtain r2 w2 where p: "publish_rename sw w1 = (r2, w2)" by force
    show ?thesis
    proof (cases r2)
      case (Inl e)
      with publish_rename_Inl p have "w2 = tick w1" by blast
      with run f p Inr Inl unpublished show ?thesis by (auto simp: writer_finalize_stages and_then_def)
    next
      case (Inr u2)
      with p publish_rename_Inr [of sw w1 u2 w2] obtain d where
        d: "w_files w1 tmp = Some d" "w2 = set_file final (Some d) (set_file tmp None (tick w1))"
        unfolding tmp_def final_def by auto
      have "d = writer_data X sw" using files1 d(1) \<open>r1 = Inr u\<close> by auto
      with d files1(1) have w2: "w_files w2 = (w_files w)(tmp := None, final \<mapsto> writer_data X sw)"
        by auto
      have "and_then (describe X sw end_ts) (\<lambda>m. and_then (write_sidecar X m final)
          (\<lambda>_. ret (finalized sw end_ts m))) w2 = (r, w')"
        using run f p Inr \<open>r1 = Inr u\<close> by (simp add: writer_finalize_stages and_then_def final_def)
      from describe_and_sidecar_files [OF this] w2 show ?thesis by auto
    qed
  qed
qed


definition manifest_of :: "('h, 'y) writer_ext_scheme \<Rightarrow> segment_writer \<Rightarrow> int \<Rightarrow> segment_manifest" where
  "manifest_of X sw end_ts =
     \<lparr>sm_collector_id = ac_collector_id (sw_cfg sw), sm_stream = stream_as_str (sw_stream sw),
      sm_start_ts = sw_start_ts sw, sm_end_ts = end_ts, sm_record_count = sw_record_count sw,
      sm_bytes = of_nat (length (writer_data X sw)), sm_sha256 = digest_of X (writer_data X sw),
      sm_compression = ac_compression (sw_cfg sw), sm_layout_profile = ac_layout_profile (sw_cfg sw),
      sm_relative_path = sp_relative_path (sw_paths sw)\<rparr>"

lemma describe_Inr:
  assumes "describe X sw end_ts w = (Inr m, w')" "digest_laws X"
    "w_files w (sp_final_path (sw_paths sw)) = Some (writer_data X sw)"
  shows "m = manifest_of X sw end_ts"
  using assms
  by (auto simp: describe_def manifest_build_def metadata_len_def io_simps manifest_of_def
      dest!: compute_sha256_Inr)

lemma describe_runs:
  assumes "fault_free w" "digest_laws X"
    "w_files w (sp_final_path (sw_paths sw)) = Some (writer_data X sw)"
  shows "\<exists>n. describe X sw end_ts w = (Inr (manifest_of X sw end_ts), w\<lparr>w_step := n\<rparr>)"
proof -
  let ?p = "sp_final_path (sw_paths sw)"
  obtain w1 where sha: "compute_sha256 X ?p (tick w) = (Inr (digest_of X (writer_data X sw)), w1)"
    using compute_sha256_runs [of X "tick w" ?p "writer_data X sw"] assms by auto
  have "describe X sw end_ts w = (Inr (manifest_of X sw end_ts), w1)"
    using assms sha
    by (simp add: describe_def manifest_build_def metadata_len_def and_then_def in_context_def
        syscall_fault_free content_def manifest_of_def)
  moreover from observesE [OF observes_compute_sha256 sha] obtain n where "w1 = w\<lparr>w_step := n\<rparr>"
    by auto
  ultimately show ?thesis by auto
qed

lemma finish_and_sync_runs:
  assumes "fault_free w"
  shows "\<exists>w1. finish_and_sync X sw w = (Inr (), w1) \<and> fault_free w1"
  using assms
  by (simp add: finish_and_sync_def encoder_finish_def encoder_flush_def and_then_syscall
      and_then_in_context_syscall and_then_assoc in_context_def syscall_fault_free)

lemma writer_finalize_Inr:
  assumes run: "writer_finalize X sw end_ts w = (Inr fs, w')" and "writer_ok sw" "digest_laws X"
  defines "final \<equiv> sp_final_path (sw_paths sw)"
  shows "fs = finalized sw end_ts (manifest_of X sw end_ts) \<and>
    (\<exists>j. mx_to_json X (manifest_of X sw end_ts) = Inr j \<and> w_files w' (sidecar_path final) = Some j)"
proof -
  from run obtain w1 w2 w3 m q where s:
    "finish_and_sync X sw w = (Inr (), w1)" "publish_rename sw w1 = (Inr (), w2)"
    "describe X sw end_ts w2 = (Inr m, w3)" "write_sidecar X m final w3 = (Inr q, w')"
    "fs = finalized sw end_ts m"
    by (auto simp: writer_finalize_stages io_simps final_def)
  from s(2) have "w_files w2 final = Some (writer_data X sw)"
    using finish_and_sync_files [OF s(1) assms(2)] by (auto simp: publish_rename_Inr final_def)
  with describe_Inr [OF s(3) assms(3)] have "m = manifest_of X sw end_ts"
    by (simp add: final_def)
  with s(4,5) show ?thesis by (auto simp: write_sidecar_Inr)
qed

lemma writer_finalize_runs:
  assumes "fault_free w" "writer_ok sw" "digest_laws X" "json_laws X"
    and "w_files w (sp_tmp_path (sw_paths sw)) \<noteq> None"
  shows "\<exists>w' j. writer_finalize X sw end_ts w =
      (Inr (finalized sw end_ts (manifest_of X sw end_ts)), w') \<and>
    w_files w' = (w_files w)(sp_tmp_path (sw_paths sw) := None,
      sp_final_path (sw_paths sw) \<mapsto> writer_data X sw,
      sidecar_path (sp_final_path (sw_paths sw)) \<mapsto> j) \<and>
    fault_free w' \<and> mx_from_json X j = Inr (manifest_of X sw end_ts)"
proof -
  let ?m = "manifest_of X sw end_ts"
  let ?tmp = "sp_tmp_path (sw_paths sw)" and ?final = "sp_final_path (sw_paths sw)"
  obtain w1 where f: "finish_and_sync X sw w = (Inr (), w1)" "fault_free w1"
    using finish_and_sync_runs [OF assms(1)] by blast
  note files = finish_and_sync_files [OF f(1) assms(2)]
  define w2 where "w2 = set_file ?final (Some (writer_data X sw)) (set_file ?tmp None (tick w1))"
  have p: "publish_rename sw w1 = (Inr (), w2)"
    using files(2) assms(5) f(2) by (simp add: publish_rename_Inr w2_def fault_free_def)
  obtain n where d: "describe X sw end_ts w2 = (Inr ?m, w2\<lparr>w_step := n\<rparr>)"
    using describe_runs [of w2 X sw end_ts] f(2) assms(3) by (auto simp: w2_def)
  from assms(4) obtain j where j: "mx_to_json X ?m = Inr j" "mx_from_json X j = Inr ?m"
    unfolding json_laws_def by blast
  define w3 where "w3 = set_file (sidecar_path ?final) (Some j) (tick (w2\<lparr>w_step := n\<rparr>))"
  have s: "write_sidecar X ?m ?final (w2\<lparr>w_step := n\<rparr>) = (Inr (sidecar_path ?final), w3)"
    using f(2) j(1) by (simp add: write_sidecar_Inr w3_def w2_def fault_free_def)
  have "writer_finalize X sw end_ts w = (Inr (finalized sw end_ts ?m), w3)"
    using f(1) p d s by (simp add: writer_finalize_stages and_then_def)
  moreover have "w_files w3 = (w_files w)(?tmp := None, ?final \<mapsto> writer_data X sw, sidecar_path ?final \<mapsto> j)"
    using files(1) by (auto simp: w3_def w2_def)
  moreover have "fault_free w3" using f(2) by (simp add: w3_def w2_def fault_free_def)
  ultimately show ?thesis using j(2) by auto
qed

text \<open>Opening a segment touches its temporary file only.\<close>

lemma touches_segment_writer_new [touches_intros]:
  "touches {sp_tmp_path p} (segment_writer_new cfg s t p)"
proof -
  have "touches Q (encoder_new k d)" for Q k and d :: path
    by (cases k) (auto simp: encoder_new_def intro!: touches_intros)
  then show ?thesis
    unfolding segment_writer_new_def create_parent_def by (intro touches_intros) auto
qed

section \<open>Properties\<close>

text \<open>
  C8: at every point where \<open>finalize\<close> can fail, a segment appears under its final name only
  complete: the final path holds what it held before, or the whole compressed data and the
  temporary file is gone. No other path but the sidecar's changes. When \<open>finalize\<close> succeeds,
  the segment is there and its sidecar holds the JSON of a manifest with the digest, the
  length and the record count of exactly that data.
\<close>

theorem finalize_atomic:
  assumes "writer_ok sw" "digest_laws X" "paths_apart (sw_paths sw)"
    and "writer_finalize X sw end_ts w = (r, w')"
  defines "tmp \<equiv> sp_tmp_path (sw_paths sw)" and "final \<equiv> sp_final_path (sw_paths sw)"
  shows "(w_files w' final = w_files w final \<or>
      w_files w' final = Some (writer_data X sw) \<and> w_files w' tmp = None) \<and>
    (\<forall>q. q \<noteq> tmp \<longrightarrow> q \<noteq> final \<longrightarrow> q \<noteq> sidecar_path final \<longrightarrow> w_files w' q = w_files w q) \<and>
    (\<forall>fs. r = Inr fs \<longrightarrow>
      w_files w' final = Some (writer_data X sw) \<and>
      (\<exists>j. mx_to_json X (manifest_of X sw end_ts) = Inr j \<and> w_files w' (sidecar_path final) = Some j) \<and>
      fs_bytes fs = of_nat (length (writer_data X sw)) \<and> fs_record_count fs = sw_record_count sw \<and>
      fs_final_path fs = final \<and> fs_manifest_path fs = sidecar_path final)"
proof -
  have apart: "tmp \<noteq> final" "tmp \<noteq> sidecar_path final"
    using assms(3) by (simp_all add: paths_apart_def tmp_def final_def)
  note files = writer_finalize_files [OF assms(4,1), folded tmp_def final_def]
  have "\<forall>fs. r = Inr fs \<longrightarrow> (\<exists>c. w_files w' = (w_files w)(tmp := None, final \<mapsto> writer_data X sw, sidecar_path final := c))"
    using files by auto
  moreover have "\<forall>fs. r = Inr fs \<longrightarrow> fs = finalized sw end_ts (manifest_of X sw end_ts) \<and>
      (\<exists>j. mx_to_json X (manifest_of X sw end_ts) = Inr j \<and> w_files w' (sidecar_path final) = Some j)"
    using assms(4) writer_finalize_Inr [OF _ assms(1,2)] by (auto simp: final_def)
  moreover have "fs_bytes (finalized sw end_ts (manifest_of X sw end_ts)) = of_nat (length (writer_data X sw))"
    by (simp add: finalized_def manifest_of_def)
  ultimately show ?thesis
    using files apart by (auto simp: finalized_def final_def [symmetric])
qed

text \<open>
  C17: without faults \<open>finalize\<close> of a writer whose temporary file exists returns, moves the
  compressed data to the final path, and leaves a sidecar from which the manifest of that
  data is read back; the decompressor gives back the records in the order they were written.
\<close>

theorem finalize_publishes:
  assumes "fault_free w" "writer_ok sw" "digest_laws X" "json_laws X" "compress_laws X"
    and "w_files w (sp_tmp_path (sw_paths sw)) \<noteq> None"
  shows "\<exists>w' j. writer_finalize X sw end_ts w =
      (Inr (finalized sw end_ts (manifest_of X sw end_ts)), w') \<and>
    w_files w' = (w_files w)(sp_tmp_path (sw_paths sw) := None,
      sp_final_path (sw_paths sw) \<mapsto> writer_data X sw,
      sidecar_path (sp_final_path (sw_paths sw)) \<mapsto> j) \<and>
    mx_from_json X j = Inr (manifest_of X sw end_ts) \<and>
    wx_decompress X (ac_compression (sw_cfg sw)) (writer_data X sw) =
      Some (concat (enc_written (sw_encoder sw)))"
  using writer_finalize_runs [OF assms(1-4,6), of end_ts] assms(5)
  by (auto simp: compress_laws_def writer_data_def)

definition demo_writer_ext :: "bytes writer_ext" where
  "demo_writer_ext =
     \<lparr>mx_sha_new = [], mx_sha_update = (@), mx_sha_finalize = take 32,
      mx_hex_encode = concat \<circ> map (\<lambda>b. fmt_nat 3 (unat b)), mx_to_json = (\<lambda>m. Inr (put_manifest m)),
      mx_from_json = (\<lambda>j. ok_or (Msg ''not a manifest'') (get_manifest j)),
      wx_compress = (\<lambda>k ws. concat ws), wx_decompress = (\<lambda>k b. Some b)\<rparr>"

lemma demo_writer_ext_laws:
  "digest_laws demo_writer_ext" "json_laws demo_writer_ext" "compress_laws demo_writer_ext"
  by (simp_all add: digest_laws_def json_laws_def compress_laws_def demo_writer_ext_def
      get_put_manifest put_manifest_text)

definition demo_writer :: segment_writer where
  "demo_writer =
     \<lparr>sw_cfg = default_archive, sw_stream = Updates, sw_start_ts = 1700000000,
      sw_paths = \<lparr>sp_tmp_path = ''/t/.u.gz.tmp'', sp_final_path = ''/a/u.gz'', sp_relative_path = ''u.gz''\<rparr>,
      sw_encoder = GzipEnc ''/t/.u.gz.tmp'' [[1, 2], [3]], sw_record_count = 2\<rparr>"

lemma demo_writer_ok: "writer_ok demo_writer" "paths_apart (sw_paths demo_writer)"
  by (simp_all add: writer_ok_def demo_writer_def default_archive_def config_defaults paths_apart_def
      sidecar_path_def)

text \<open>The rename fails: the segment published before stays as it was.\<close>

definition rename_fails :: "nat \<Rightarrow> io_op \<Rightarrow> string option" where
  "rename_fails n op = (case op of OpRename a b \<Rightarrow> Some ''no space'' | _ \<Rightarrow> None)"

theorem finalize_atomic_witness:
  "let w = (demo_world [''/t/.u.gz.tmp'' \<mapsto> [], ''/a/u.gz'' \<mapsto> [9]])\<lparr>w_fault := rename_fails\<rparr>;
       w' = snd (writer_finalize demo_writer_ext demo_writer 1700000900 w)
   in w_files w' ''/a/u.gz'' = Some [9] \<or> w_files w' ''/a/u.gz'' = Some [1, 2, 3]"
proof -
  define w where "w = (demo_world [''/t/.u.gz.tmp'' \<mapsto> [], ''/a/u.gz'' \<mapsto> [9]])\<lparr>w_fault := rename_fails\<rparr>"
  obtain r w' where run: "writer_finalize demo_writer_ext demo_writer 1700000900 w = (r, w')" by force
  have "w_files w ''/a/u.gz'' = Some [9]" by (simp add: w_def demo_world_def)
  moreover have "sp_final_path (sw_paths demo_writer) = ''/a/u.gz''"
    "writer_data demo_writer_ext demo_writer = [1, 2, 3]"
    by (simp_all add: demo_writer_def writer_data_def demo_writer_ext_def)
  ultimately show ?thesis
    using finalize_atomic [OF demo_writer_ok(1) demo_writer_ext_laws(1) demo_writer_ok(2) run] run
    unfolding w_def [symmetric] Let_def by auto
qed

theorem finalize_publishes_witness:
  "\<exists>w' j. writer_finalize demo_writer_ext demo_writer 1700000900
      (demo_world [''/t/.u.gz.tmp'' \<mapsto> []]) =
      (Inr (finalized demo_writer 1700000900 (manifest_of demo_writer_ext demo_writer 1700000900)), w') \<and>
    w_files w' = [''/a/u.gz'' \<mapsto> [1, 2, 3], ''/a/u.gz.json'' \<mapsto> j] \<and>
    mx_from_json demo_writer_ext j = Inr (manifest_of demo_writer_ext demo_writer 1700000900)"
proof -
  let ?w = "demo_world [''/t/.u.gz.tmp'' \<mapsto> []]"
  have paths: "sp_final_path (sw_paths demo_writer) = ''/a/u.gz''" "sidecar_path ''/a/u.gz'' = ''/a/u.gz.json''"
    "sp_tmp_path (sw_paths demo_writer) = ''/t/.u.gz.tmp''"
    "writer_data demo_writer_ext demo_writer = [1, 2, 3]" "w_files ?w = [''/t/.u.gz.tmp'' \<mapsto> []]"
    by (simp_all add: demo_writer_def writer_data_def demo_writer_ext_def sidecar_path_def demo_world_def)
  have gone: "[''/t/.u.gz.tmp'' \<mapsto> []](''/t/.u.gz.tmp'' := None) = Map.empty" by simp
  have free: "fault_free ?w" by (simp add: fault_free_def demo_world_def)
  have tmp: "w_files ?w (sp_tmp_path (sw_paths demo_writer)) \<noteq> None" by (simp add: paths)
  show ?thesis
    using finalize_publishes [OF free demo_writer_ok(1) demo_writer_ext_laws tmp, of 1700000900]
    unfolding paths gone by blast
qed

end
