(* ===== verification/Replicator.thy ===== *)
theory Replicator
  imports Queue Writer
begin

text \<open>
  \<^verbatim>\<open>src/archive/replicator.rs\<close>: copying finalized segments to the destinations. The map of
  destinations is a \<^verbatim>\<open>HashMap\<close>, whose iteration order is the parameter \<open>hash_order\<close>. The
  object store (crate \<^verbatim>\<open>aws_sdk_s3\<close>) is the field \<open>st_objects\<close> of the environment: an upload
  stores the whole object or none, and one that is reported as failed may have been stored.
\<close>

record replicator =
  rp_queue :: replication_queue
  rp_destinations :: "string \<Rightarrow> archive_destination_config option"
  rp_keys :: "string list"
  rp_event_tx :: bool

definition order_laws :: "(string list \<Rightarrow> string list) \<Rightarrow> bool" where
  "order_laws ord \<longleftrightarrow> (\<forall>xs. distinct xs \<longrightarrow> distinct (ord xs) \<and> set (ord xs) = set xs)"

definition replicator_new ::
  "(string list \<Rightarrow> string list) \<Rightarrow> archive_config \<Rightarrow> replication_queue \<Rightarrow> bool \<Rightarrow> replicator" where
  "replicator_new hash_order cfg q event_tx =
     (let pairs = map (\<lambda>d. (destination_key d, d)) (ac_destinations cfg)
      in \<lparr>rp_queue = q, rp_destinations = map_of (rev pairs),
          rp_keys = hash_order (remdups (map fst pairs)), rp_event_tx = event_tx\<rparr>)"

definition enqueue_for :: "replicator \<Rightarrow> finalized_segment \<Rightarrow> string \<Rightarrow> ('z store_scheme, unit) io" where
  "enqueue_for rp segment k =
     (case rp_destinations rp k of
        None \<Rightarrow> ret ()
      | Some d \<Rightarrow>
          if ad_mode d \<noteq> AsyncReplica then ret ()
          else enqueue (rp_queue rp) (fs_final_path segment) (fs_manifest_path segment)
                 (destination_key d) (max_retries d))"

definition enqueue_segment :: "replicator \<Rightarrow> finalized_segment \<Rightarrow> ('z store_scheme, unit) io" where
  "enqueue_segment rp segment = for_each (rp_keys rp) (enqueue_for rp segment)"

section \<open>Copying one segment\<close>

definition object_key :: "string \<Rightarrow> string \<Rightarrow> string" where
  "object_key pre relative =
     (if pre = [] then trim_start_matches (CHR ''/'') relative
      else trim_matches (CHR ''/'') pre @ ''/'' @ trim_start_matches (CHR ''/'') relative)"

definition copy_segment_context :: "path \<Rightarrow> path \<Rightarrow> string" where
  "copy_segment_context a b = ''failed copying segment '' @ a @ '' -> '' @ b"

definition copy_manifest_context :: "path \<Rightarrow> path \<Rightarrow> string" where
  "copy_manifest_context a b = ''failed copying manifest '' @ a @ '' -> '' @ b"

definition create_destination_dir :: "path \<Rightarrow> ('z store_scheme, unit) io" where
  "create_destination_dir p =
     (case parent p of
        None \<Rightarrow> ret ()
      | Some d \<Rightarrow> in_context (''failed creating destination dir '' @ d) (create_dir_all d))"

definition copy_to_local ::
  "archive_destination_config \<Rightarrow> replication_job \<Rightarrow> segment_manifest \<Rightarrow> ('z store_scheme, unit) io" where
  "copy_to_local d job m =
     and_then (lift_res (ok_or (Msg ''local destination path missing'') (ad_path d))) (\<lambda>base.
     let target_segment = join base (sm_relative_path m);
         target_manifest = sidecar_path target_segment
     in
     and_then (create_destination_dir target_segment) (\<lambda>_.
     and_then (in_context (copy_segment_context (rj_segment_path job) target_segment)
       (copy_file (rj_segment_path job) target_segment)) (\<lambda>_.
       in_context (copy_manifest_context (rj_manifest_path job) target_manifest)
         (copy_file (rj_manifest_path job) target_manifest))))"

text \<open>\<^verbatim>\<open>ByteStream::from_path\<close> and one upload.\<close>

definition byte_stream :: "path \<Rightarrow> ('z store_scheme, bytes) io" where
  "byte_stream p = and_then (syscall (OpOpen p)) (\<lambda>_. content p)"

definition put_object ::
  "string \<Rightarrow> string \<Rightarrow> string \<Rightarrow> string \<Rightarrow> bytes \<Rightarrow> ('z store_scheme, unit) io" where
  "put_object region endpoint bucket k body w =
     (case syscall (OpS3Put region endpoint bucket k) w of
        (Inr _, w') \<Rightarrow> (Inr (), w'\<lparr>st_objects := (st_objects w')((endpoint, bucket, k) \<mapsto> body)\<rparr>)
      | (Inl e, w') \<Rightarrow>
          (Inl e, if w_io_len w (w_step w) = 0 then w'
                  else w'\<lparr>st_objects := (st_objects w')((endpoint, bucket, k) \<mapsto> body)\<rparr>))"

definition s3_context :: "string \<Rightarrow> string \<Rightarrow> string \<Rightarrow> string" where
  "s3_context what bucket k = ''failed uploading '' @ what @ '' to s3://'' @ bucket @ ''/'' @ k"

definition copy_to_s3 ::
  "archive_destination_config \<Rightarrow> replication_job \<Rightarrow> segment_manifest \<Rightarrow> ('z store_scheme, unit) io" where
  "copy_to_s3 d job m =
     and_then (lift_res (ok_or (Msg ''s3 endpoint missing'') (ad_endpoint d))) (\<lambda>endpoint.
     and_then (lift_res (ok_or (Msg ''s3 bucket missing'') (ad_bucket d))) (\<lambda>bucket.
     let pre = (case ad_prefix d of Some p \<Rightarrow> p | None \<Rightarrow> []);
         region = (case ad_region d of Some r \<Rightarrow> r | None \<Rightarrow> ''us-east-1'');
         k = object_key pre (sm_relative_path m);
         manifest_key = k @ ''.json''
     in
     and_then (byte_stream (rj_segment_path job)) (\<lambda>body.
     and_then (in_context (s3_context ''segment'' bucket k)
       (put_object region endpoint bucket k body)) (\<lambda>_.
     and_then (byte_stream (rj_manifest_path job)) (\<lambda>manifest_body.
       in_context (s3_context ''manifest'' bucket manifest_key)
         (put_object region endpoint bucket manifest_key manifest_body))))))"

text \<open>\<^verbatim>\<open>fs::read_to_string\<close>.\<close>

definition read_to_string :: "path \<Rightarrow> ('z store_scheme, bytes) io" where
  "read_to_string p =
     and_then (read_file p) (\<lambda>bs.
       if valid_utf8 bs then ret bs else fail (Msg ''stream did not contain valid UTF-8''))"

definition read_manifest ::
  "('h, 'y) manifest_ext_scheme \<Rightarrow> path \<Rightarrow> ('z store_scheme, segment_manifest) io" where
  "read_manifest X p =
     and_then (in_context (''failed reading manifest '' @ p) (read_to_string p)) (\<lambda>json.
       in_context (''failed parsing manifest '' @ p) (lift_res (mx_from_json X json)))"

definition process_job ::
  "('h, 'y) manifest_ext_scheme \<Rightarrow> replicator \<Rightarrow> replication_job \<Rightarrow> ('z store_scheme, unit) io" where
  "process_job X rp job =
     and_then (lift_res (ok_or (Msg (''destination '' @ rj_destination_key job @ '' not found''))
       (rp_destinations rp (rj_destination_key job)))) (\<lambda>d.
     and_then (read_manifest X (rj_manifest_path job)) (\<lambda>m.
       case ad_type d of Local \<Rightarrow> copy_to_local d job m | S3 \<Rightarrow> copy_to_s3 d job m))"

section \<open>The replication loop\<close>

definition repl_emit :: "replicator \<Rightarrow> event \<Rightarrow> ('z store_scheme, unit) io" where
  "repl_emit rp e = (if rp_event_tx rp then emit e else ret ())"

definition job_retry_secs :: "replicator \<Rightarrow> replication_job \<Rightarrow> u64" where
  "job_retry_secs rp job =
     (case rp_destinations rp (rj_destination_key job) of Some d \<Rightarrow> retry_backoff_secs d | None \<Rightarrow> 5)"

definition job_failed :: "replicator \<Rightarrow> replication_job \<Rightarrow> error \<Rightarrow> ('z store_scheme, unit) io" where
  "job_failed rp job err =
     and_then (modify (\<lambda>w. w\<lparr>st_failures := st_failures w + 1\<rparr>)) (\<lambda>_.
     and_then (in_context (''failed marking replication job '' @ show_int (rj_id job) @ '' as failed'')
       (mark_failed (rp_queue rp) job (err_to_string err) (job_retry_secs rp job))) (\<lambda>_.
       repl_emit rp (ArchiveReplicationFailed (rj_destination_key job) (rj_segment_path job)
         (err_to_string err))))"

definition job_succeeded :: "replicator \<Rightarrow> replication_job \<Rightarrow> ('z store_scheme, unit) io" where
  "job_succeeded rp job =
     and_then (in_context (''failed marking replication job '' @ show_int (rj_id job) @ '' as successful'')
       (mark_success (rp_queue rp) (rj_id job))) (\<lambda>_.
       repl_emit rp (ArchiveReplicationSucceeded (rj_destination_key job) (rj_segment_path job)))"

text \<open>The \<^verbatim>\<open>for\<close> loop over the claimed jobs; a panic is not an \<^verbatim>\<open>Err\<close>.\<close>

fun run_jobs ::
  "(replication_job \<Rightarrow> ('w, unit) io) \<Rightarrow> (replication_job \<Rightarrow> ('w, unit) io) \<Rightarrow>
   (replication_job \<Rightarrow> error \<Rightarrow> ('w, unit) io) \<Rightarrow> replication_job list \<Rightarrow> ('w, unit) io" where
  "run_jobs process on_success on_fail [] = ret ()"
| "run_jobs process on_success on_fail (job # jobs) = (\<lambda>w.
     case process job w of
       (Inl (Panic m), w') \<Rightarrow> (Inl (Panic m), w')
     | (Inl err, w') \<Rightarrow>
         and_then (on_fail job err) (\<lambda>_. run_jobs process on_success on_fail jobs) w'
     | (Inr _, w') \<Rightarrow>
         and_then (on_success job) (\<lambda>_. run_jobs process on_success on_fail jobs) w')"

definition run_once :: "('h, 'y) manifest_ext_scheme \<Rightarrow> replicator \<Rightarrow> ('z store_scheme, unit) io" where
  "run_once X rp =
     and_then (claim_ready (rp_queue rp) 32) (\<lambda>jobs.
       run_jobs (process_job X rp) (job_succeeded rp) (job_failed rp) jobs)"

text \<open>Rounds of the background task: an error of a round is logged and the next one follows.\<close>

fun replicator_rounds :: "nat \<Rightarrow> ('h, 'y) manifest_ext_scheme \<Rightarrow> replicator \<Rightarrow> 'z store_scheme \<Rightarrow> 'z store_scheme" where
  "replicator_rounds 0 X rp w = w"
| "replicator_rounds (Suc n) X rp w = replicator_rounds n X rp (snd (run_once X rp w))"

definition replicator_retry_failed :: "replicator \<Rightarrow> ('z store_scheme, u64) io" where
  "replicator_retry_failed rp = retry_failed (rp_queue rp)"

section \<open>What copying may change\<close>

text \<open>Copying a segment touches files and objects, never the queue or the events.\<close>

definition data_only :: "'z store_scheme \<Rightarrow> 'z store_scheme \<Rightarrow> bool" where
  "data_only w w' \<longleftrightarrow>
     st_dbs w' = st_dbs w \<and> st_failures w' = st_failures w \<and> w_events w' = w_events w \<and>
     w_fault w' = w_fault w \<and> w_clock w' = w_clock w \<and> w_io_len w' = w_io_len w"

lemma data_only_refl [simp]: "data_only w w"
  by (simp add: data_only_def)

lemma data_only_trans: "data_only a b \<Longrightarrow> data_only b c \<Longrightarrow> data_only a c"
  by (simp add: data_only_def)

lemma data_only_observes: "observes m \<Longrightarrow> data_only w (snd (m w))"
  by (auto simp: observes_def data_only_def) (metis (no_types, lifting) store.ext_inject store.surjective world.ext_inject world.surjective world.update_convs(5))+

lemma data_only_and_then:
  assumes "\<And>w. data_only w (snd (m w))" "\<And>a w. data_only w (snd (f a w))"
  shows "data_only w (snd (and_then m f w))"
  by (rule and_then_rel [OF assms(1) assms(2) data_only_trans])

lemma data_only_file_store: "data_only w (snd (file_store op p c w))"
  by (cases rule: file_store_cases [of op p c w]) (auto simp: data_only_def set_file_def)

lemma data_only_put_object: "data_only w (snd (put_object r e b k body w))"
  by (simp add: put_object_def syscall_def data_only_def split: option.splits)

lemma data_only_copy_file: "data_only w (snd (copy_file a b w))"
  unfolding copy_file_def
  by (intro data_only_and_then data_only_file_store data_only_observes observes_pure)

lemma observes_read_manifest [intro]: "observes (read_manifest X p)"
  unfolding read_manifest_def read_to_string_def read_file_def
  by (intro observes_and_then observes_in_context) (auto split: if_splits)

lemma observes_byte_stream [intro]: "observes (byte_stream p)"
  unfolding byte_stream_def by (intro observes_and_then) auto

lemma observes_create_destination_dir [intro]: "observes (create_destination_dir p)"
  by (auto simp: create_destination_dir_def create_dir_all_def split: option.splits)

lemma data_only_in_context: "data_only w (snd (m w)) \<Longrightarrow> data_only w (snd (in_context c m w))"
  by simp

lemma data_only_copy_to_local: "data_only w (snd (copy_to_local d job m w))"
  unfolding copy_to_local_def Let_def
  by (intro data_only_and_then data_only_in_context data_only_copy_file data_only_observes
      observes_create_destination_dir observes_pure)

lemma data_only_copy_to_s3: "data_only w (snd (copy_to_s3 d job m w))"
  unfolding copy_to_s3_def Let_def
  by (intro data_only_and_then data_only_in_context data_only_put_object data_only_observes
      observes_byte_stream observes_pure)

lemma data_only_process_job: "data_only w (snd (process_job X rp job w))"
proof -
  have "data_only w (snd ((case ad_type d of Local \<Rightarrow> copy_to_local d job m | S3 \<Rightarrow> copy_to_s3 d job m) w))"
    for d m and w :: "'z store_scheme"
    by (simp add: data_only_copy_to_local data_only_copy_to_s3 split: destination_type.splits)
  then show ?thesis
    unfolding process_job_def
    by (intro data_only_and_then) (auto intro: data_only_observes)
qed

section \<open>Settling jobs\<close>

text \<open>
  What the loop over the claimed jobs relies on: processing leaves the queue alone, and
  the two ways of settling a job are steps of the queue.
\<close>

locale settlement =
  fixes good :: "'w \<Rightarrow> bool" and view :: "'w \<Rightarrow> queue_state"
    and process :: "replication_job \<Rightarrow> ('w, unit) io"
    and on_success :: "replication_job \<Rightarrow> ('w, unit) io"
    and on_fail :: "replication_job \<Rightarrow> error \<Rightarrow> ('w, unit) io"
  assumes process_law: "good w \<Longrightarrow> good (snd (process j w)) \<and> view (snd (process j w)) = view w"
    and success_law: "obeys good view (\<lambda>_. {Done (rj_id j)}) (on_success j)"
    and fail_law: "obeys good view (\<lambda>_. {Retry_later (rj_id j), Give_up (rj_id j), Missing (rj_id j)}) (on_fail j err)"
begin

text \<open>One job: the outcomes of the loop's body.\<close>

lemma run_jobs_Cons:
  assumes "run_jobs process on_success on_fail (j # js) w = (r, w')" "good w"
  obtains (panic) m where "r = Inl (Panic m)" "good w'" "view w' = view w"
  | (stopped) e where "r = Inl e" "good w'" "view w' = view w"
  | (succeeded) w1 w2 where "process j w = (Inr (), w1)" "good w2"
      "qs_entries (view w2) = (qs_entries (view w))(rj_id j := None)"
      "run_jobs process on_success on_fail js w2 = (r, w')"
      "\<And>ks. run_jobs process on_success on_fail (j # ks) w = run_jobs process on_success on_fail ks w2"
  | (failed) \<alpha> w2 where "good w2" "\<alpha> \<in> {Retry_later (rj_id j), Give_up (rj_id j), Missing (rj_id j)}"
      "queue_step \<alpha> (view w) (view w2)" "run_jobs process on_success on_fail js w2 = (r, w')"
      "\<And>ks. run_jobs process on_success on_fail (j # ks) w = run_jobs process on_success on_fail ks w2"
proof -
  obtain r1 w1 where p: "process j w = (r1, w1)" by force
  with process_law [OF assms(2), of j] have w1: "good w1" "view w1 = view w" by simp_all
  show ?thesis
  proof (cases r1)
    case (Inr u)
    obtain r2 w2 where s: "on_success j w1 = (r2, w2)" by force
    show ?thesis
    proof (cases r2)
      case (Inl e)
      with s success_law [of j] w1 assms(1) p Inr stopped show ?thesis
        by (auto simp: obeys_def and_then_def)
    next
      case (Inr u2)
      with s success_law [of j] w1 have "good w2" "queue_step (Done (rj_id j)) (view w) (view w2)"
        unfolding obeys_def by (fastforce, fastforce)
      then have "good w2" "qs_entries (view w2) = (qs_entries (view w))(rj_id j := None)"
        by (auto elim: queue_stepE)
      moreover have go: "run_jobs process on_success on_fail (j # ks) w = run_jobs process on_success on_fail ks w2" for ks
        using p s Inr \<open>r1 = Inr u\<close> by (simp add: and_then_def)
      ultimately show ?thesis using succeeded [of w1 w2] p \<open>r1 = Inr u\<close> assms(1) by simp
    qed
  next
    case (Inl err)
    show ?thesis
    proof (cases "\<exists>m. err = Panic m")
      case True
      with assms(1) p Inl w1 panic show ?thesis by auto
    next
      case False
      obtain r2 w2 where s: "on_fail j err w1 = (r2, w2)" by force
      have body: "run_jobs process on_success on_fail (j # ks) w =
          and_then (on_fail j err) (\<lambda>_. run_jobs process on_success on_fail ks) w1" for ks
        using False p Inl by (cases err) auto
      show ?thesis
      proof (cases r2)
        case (Inl e)
        with s fail_law [of j err] w1 assms(1) [unfolded body] stopped show ?thesis
          by (auto simp: obeys_def and_then_def)
      next
        case (Inr u2)
        with s fail_law [of j err] w1 obtain \<alpha> where "good w2"
          "\<alpha> \<in> {Retry_later (rj_id j), Give_up (rj_id j), Missing (rj_id j)}" "queue_step \<alpha> (view w) (view w2)"
          unfolding obeys_def by fastforce
        moreover have "run_jobs process on_success on_fail (j # ks) w = run_jobs process on_success on_fail ks w2" for ks
          unfolding body using s Inr by (simp add: and_then_def)
        ultimately show ?thesis using failed [of w2 \<alpha>] assms(1) by simp
      qed
    qed
  qed
qed

lemma fail_entry:
  assumes "queue_step \<alpha> s s'" "\<alpha> \<in> {Retry_later i, Give_up i, Missing i}"
  shows "k \<noteq> i \<Longrightarrow> qs_entries s' k = qs_entries s k"
    and "qs_entries s k \<noteq> None \<Longrightarrow> qs_entries s' k \<noteq> None"
  using assms by (auto elim!: queue_stepE)

lemma run_jobs_good:
  "good w \<Longrightarrow> run_jobs process on_success on_fail js w = (r, w') \<Longrightarrow> good w'"
proof (induction js arbitrary: w)
  case (Cons j js)
  from Cons.prems(2,1) show ?case by (cases rule: run_jobs_Cons) (auto intro: Cons.IH)
qed simp

text \<open>Jobs that are not in the list keep their entries.\<close>

lemma run_jobs_others:
  assumes "good w" "run_jobs process on_success on_fail js w = (r, w')" "i \<notin> rj_id ` set js"
  shows "qs_entries (view w') i = qs_entries (view w) i"
  using assms
proof (induction js arbitrary: w)
  case (Cons j js)
  from Cons.prems(2,1) show ?case
  proof (cases rule: run_jobs_Cons)
    case (succeeded w1 w2)
    with Cons show ?thesis by simp
  next
    case (failed \<alpha> w2)
    with Cons fail_entry(1) [OF failed(3,2)] show ?thesis by simp
  qed simp_all
qed simp

text \<open>When the loop comes to its end, none of its jobs is in progress any more.\<close>

lemma fail_settles:
  assumes "queue_step \<alpha> s s'" "\<alpha> \<in> {Retry_later i, Give_up i, Missing i}" "qs_entries s' i = Some e"
  shows "en_status e \<noteq> InProgress"
  using assms by (auto elim!: queue_stepE)

lemma run_jobs_settled:
  assumes "good w" "run_jobs process on_success on_fail js w = (Inr (), w')" "distinct (map rj_id js)"
    and "j \<in> set js" "qs_entries (view w') (rj_id j) = Some e"
  shows "en_status e \<noteq> InProgress"
  using assms
proof (induction js arbitrary: w)
  case (Cons k js)
  show ?case
  proof (cases "j = k")
    case True
    with Cons.prems(3) have out: "rj_id j \<notin> rj_id ` set js" by auto
    from Cons.prems(2,1) show ?thesis
    proof (cases rule: run_jobs_Cons)
      case (succeeded w1 w2)
      with run_jobs_others [OF succeeded(2,4) out] True Cons.prems(5) show ?thesis by simp
    next
      case (failed \<alpha> w2)
      with run_jobs_others [OF failed(1,4) out] Cons.prems(5)
      have "qs_entries (view w2) (rj_id j) = Some e" by simp
      with fail_settles [OF failed(3,2)] True show ?thesis by blast
    qed simp_all
  next
    case False
    with Cons.prems(2,1) show ?thesis
      by (cases rule: run_jobs_Cons) (use Cons in auto)
  qed
qed simp

text \<open>A job whose entry is gone was processed with success.\<close>

lemma run_jobs_gone:
  assumes "good w" "run_jobs process on_success on_fail js w = (r, w')" "j \<in> set js"
    and "distinct (map rj_id js)"
    and "qs_entries (view w) (rj_id j) \<noteq> None" "qs_entries (view w') (rj_id j) = None"
  shows "\<exists>js1 js2 w1 w2. js = js1 @ j # js2 \<and>
    run_jobs process on_success on_fail js1 w = (Inr (), w1) \<and> process j w1 = (Inr (), w2)"
  using assms
proof (induction js arbitrary: w)
  case (Cons k js)
  have later: "\<exists>js1 js2 w1 w2. k # js = js1 @ j # js2 \<and>
      run_jobs process on_success on_fail js1 w = (Inr (), w1) \<and> process j w1 = (Inr (), w2)"
    if "j \<noteq> k" "good w2" "run_jobs process on_success on_fail js w2 = (r, w')"
      "qs_entries (view w2) (rj_id j) \<noteq> None"
      "\<And>ks. run_jobs process on_success on_fail (k # ks) w = run_jobs process on_success on_fail ks w2" for w2
  proof -
    from Cons.prems(3,4) that(1) have "j \<in> set js" "distinct (map rj_id js)" by auto
    from Cons.IH [OF that(2,3) this that(4) Cons.prems(6)] obtain js1 js2 w1 w3 where
      js: "js = js1 @ j # js2" "run_jobs process on_success on_fail js1 w2 = (Inr (), w1)" "process j w1 = (Inr (), w3)"
      by blast
    then have "run_jobs process on_success on_fail (k # js1) w = (Inr (), w1)" by (simp only: that(5))
    moreover have "k # js = (k # js1) @ j # js2" using js(1) by simp
    ultimately show ?thesis using js(3) by blast
  qed
  from Cons.prems(2,1) show ?case
  proof (cases rule: run_jobs_Cons)
    case (succeeded w1 w2)
    show ?thesis
    proof (cases "j = k")
      case True
      with succeeded(1) have "k # js = [] @ j # js" "process j w = (Inr (), w1)" by simp_all
      moreover have "run_jobs process on_success on_fail [] w = (Inr (), w)" by simp
      ultimately show ?thesis by blast
    next
      case False
      with Cons.prems(3,4) have "rj_id j \<noteq> rj_id k" by (auto simp: rev_image_eqI)
      with Cons.prems(5) succeeded(3) have "qs_entries (view w2) (rj_id j) \<noteq> None" by simp
      from later [OF False succeeded(2,4) this succeeded(5)] show ?thesis .
    qed
  next
    case (failed \<alpha> w2)
    have ne: "qs_entries (view w2) (rj_id j) \<noteq> None" using fail_entry(2) [OF failed(3,2)] Cons.prems(5) by simp
    show ?thesis
    proof (cases "j = k")
      case True
      with Cons.prems(4) have "rj_id j \<notin> rj_id ` set js" by auto
      from run_jobs_others [OF failed(1,4) this] ne Cons.prems(6) show ?thesis by simp
    next
      case False
      from later [OF this failed(1,4) ne failed(5)] show ?thesis .
    qed
  qed (use Cons.prems(5,6) in simp_all)
qed simp

end

text \<open>The loop of \<^verbatim>\<open>run_once\<close> over the model's own operations.\<close>

lemma queue_view_cong:
  assumes "st_dbs w' = st_dbs w"
  shows "queue_inv q w' = queue_inv q w" "queue_abs q w' = queue_abs q w"
  by (simp_all add: queue_inv_def queue_abs_def assms)

lemma obeys_in_context: "obeys good view acts m \<Longrightarrow> obeys good view acts (in_context c m)"
  unfolding obeys_def
proof (intro allI impI)
  fix w r w'
  assume m: "\<forall>w r w'. good w \<longrightarrow> m w = (r, w') \<longrightarrow> good w' \<and>
      (case r of Inl e \<Rightarrow> view w' = view w | Inr a \<Rightarrow> \<exists>\<alpha>\<in>acts a. queue_step \<alpha> (view w) (view w'))"
    and "good w" and run: "in_context c m w = (r, w')"
  obtain r1 where "m w = (r1, w')" "r = with_context c r1"
    using run by (auto simp: in_context_def split: prod.splits)
  with m \<open>good w\<close> show "good w' \<and>
      (case r of Inl e \<Rightarrow> view w' = view w | Inr a \<Rightarrow> \<exists>\<alpha>\<in>acts a. queue_step \<alpha> (view w) (view w'))"
    by (cases r1) auto
qed

text \<open>Steps before and after an operation that the queue does not see.\<close>

lemma obeys_around:
  assumes "obeys (queue_inv q) (queue_abs q) acts m"
    and "\<And>w. st_dbs (f w) = st_dbs w" and "\<And>w. \<exists>w'. k w = (Inr (), w') \<and> st_dbs w' = st_dbs w"
  shows "obeys (queue_inv q) (queue_abs q) acts (and_then (modify f) (\<lambda>_. and_then m (\<lambda>_ :: unit. k)))"
  unfolding obeys_def
proof (intro allI impI)
  fix w r w' assume inv: "queue_inv q w" and run: "and_then (modify f) (\<lambda>_. and_then m (\<lambda>_. k)) w = (r, w')"
  obtain r1 w1 where m: "m (f w) = (r1, w1)" by force
  from inv have "queue_inv q (f w)" by (simp add: queue_view_cong [OF assms(2)])
  with m assms(1) have obey: "queue_inv q w1" "case r1 of Inl e \<Rightarrow> queue_abs q w1 = queue_abs q (f w)
      | Inr a \<Rightarrow> \<exists>\<alpha> \<in> acts a. queue_step \<alpha> (queue_abs q (f w)) (queue_abs q w1)"
    unfolding obeys_def by blast+
  obtain w2 where k: "k w1 = (Inr (), w2)" "st_dbs w2 = st_dbs w1" using assms(3) by blast
  show "queue_inv q w' \<and> (case r of Inl e \<Rightarrow> queue_abs q w' = queue_abs q w
      | Inr a \<Rightarrow> \<exists>\<alpha> \<in> acts a. queue_step \<alpha> (queue_abs q w) (queue_abs q w'))"
    using run m k obey queue_view_cong [OF k(2)] queue_view_cong [OF assms(2)]
    by (cases r1) (auto simp: and_then_def)
qed

lemma repl_emit_runs: "\<exists>w'. repl_emit rp e w = (Inr (), w') \<and> st_dbs w' = st_dbs w"
  by (simp add: repl_emit_def emit_def)

interpretation rep: settlement "queue_inv (rp_queue rp)" "queue_abs (rp_queue rp)"
    "process_job X rp" "job_succeeded rp" "job_failed rp" for X rp
proof (unfold_locales, goal_cases)
  case (1 w j)
  have "st_dbs (snd (process_job X rp j w)) = st_dbs w"
    using data_only_process_job [of w X rp j] by (simp add: data_only_def)
  from queue_view_cong [OF this] 1 show ?case by simp
next
  case (2 j)
  have "obeys (queue_inv (rp_queue rp)) (queue_abs (rp_queue rp)) (\<lambda>_. {Done (rj_id j)})
      (and_then (modify (\<lambda>w. w)) (\<lambda>_. job_succeeded rp j))"
    unfolding job_succeeded_def
    by (rule obeys_around [OF obeys_in_context [OF rq.succeed_law] _ repl_emit_runs]) simp
  then show ?case by (simp add: obeys_def)
next
  case (3 j err)
  show ?case
    unfolding job_failed_def
    by (rule obeys_around [OF obeys_in_context [OF rq.fail_law] _ repl_emit_runs]) simp
qed

section \<open>What a successful copy has done\<close>

lemma read_manifest_Inr:
  assumes "read_manifest X p w = (Inr m, w')"
  shows "\<exists>j n. w_files w p = Some j \<and> valid_utf8 j \<and> mx_from_json X j = Inr m \<and> w' = w\<lparr>w_step := n\<rparr>"
  using assms
  by (auto simp: read_manifest_def read_to_string_def read_file_def io_simps split: if_splits)

lemma copy_file_Inr:
  "copy_file a b w = (Inr u, w') \<longleftrightarrow>
     w_fault w (w_step w) (OpCopy a b) = None \<and>
     (\<exists>c. w_files w a = Some c \<and> w' = set_file b (Some (if a = b then [] else c)) (tick w))"
  by (auto simp: copy_file_def io_simps)

lemma create_destination_dir_Inr:
  "create_destination_dir p w = (Inr u, w') \<Longrightarrow> \<exists>n. w' = w\<lparr>w_step := n\<rparr>"
  by (rule observesE [OF observes_create_destination_dir]) auto

definition copied :: "path \<Rightarrow> path \<Rightarrow> (path \<Rightarrow> bytes option) \<Rightarrow> (path \<Rightarrow> bytes option)" where
  "copied a b fs = fs(b := (if a = b then Some [] else fs a))"

lemma copy_to_local_Inr:
  assumes "copy_to_local d job m w = (Inr (), w')"
  shows "\<exists>base. ad_path d = Some base \<and> w_files w (rj_segment_path job) \<noteq> None \<and>
    w_files w' = copied (rj_manifest_path job) (sidecar_path (join base (sm_relative_path m)))
      (copied (rj_segment_path job) (join base (sm_relative_path m)) (w_files w))"
proof -
  from assms obtain base w1 w2 where b: "ad_path d = Some base"
    and d: "create_destination_dir (join base (sm_relative_path m)) w = (Inr (), w1)"
    and c: "copy_file (rj_segment_path job) (join base (sm_relative_path m)) w1 = (Inr (), w2)"
      "copy_file (rj_manifest_path job) (sidecar_path (join base (sm_relative_path m))) w2 = (Inr (), w')"
    by (auto simp: copy_to_local_def io_simps Let_def)
  from create_destination_dir_Inr [OF d] have "w_files w1 = w_files w" by auto
  with b c show ?thesis by (auto simp: copy_file_Inr copied_def)
qed

lemma put_object_Inr:
  "put_object r e b k body w = (Inr u, w') \<longleftrightarrow>
     w_fault w (w_step w) (OpS3Put r e b k) = None \<and>
     w' = (tick w)\<lparr>st_objects := (st_objects w)((e, b, k) \<mapsto> body)\<rparr>"
  by (auto simp: put_object_def syscall_def split: option.splits)

lemma copy_to_s3_Inr:
  assumes "copy_to_s3 d job m w = (Inr (), w')"
  defines "k \<equiv> object_key (case ad_prefix d of Some p \<Rightarrow> p | None \<Rightarrow> []) (sm_relative_path m)"
  shows "\<exists>e b c j. ad_endpoint d = Some e \<and> ad_bucket d = Some b \<and>
    w_files w (rj_segment_path job) = Some c \<and> w_files w (rj_manifest_path job) = Some j \<and>
    w_files w' = w_files w \<and>
    st_objects w' = (st_objects w)((e, b, k) \<mapsto> c, (e, b, k @ ''.json'') \<mapsto> j)"
  using assms(1) unfolding copy_to_s3_def Let_def k_def [symmetric]
  by (auto simp: io_simps byte_stream_def put_object_Inr)

text \<open>
  The copies of a job in the environment \<open>w'\<close> are those of the segment and the manifest
  as they were in \<open>w\<close>.
\<close>

definition delivered ::
  "('h, 'y) manifest_ext_scheme \<Rightarrow> replicator \<Rightarrow> replication_job \<Rightarrow> 'z store_scheme \<Rightarrow> 'z store_scheme \<Rightarrow> bool" where
  "delivered X rp job w w' \<longleftrightarrow>
     (\<exists>d j m. rp_destinations rp (rj_destination_key job) = Some d \<and>
        w_files w (rj_manifest_path job) = Some j \<and> mx_from_json X j = Inr m \<and>
        w_files w (rj_segment_path job) \<noteq> None \<and>
        (case ad_type d of
           Local \<Rightarrow> \<exists>base. ad_path d = Some base \<and>
             w_files w' = copied (rj_manifest_path job) (sidecar_path (join base (sm_relative_path m)))
               (copied (rj_segment_path job) (join base (sm_relative_path m)) (w_files w))
         | S3 \<Rightarrow> \<exists>e b. ad_endpoint d = Some e \<and> ad_bucket d = Some b \<and> w_files w' = w_files w \<and>
             (let k = object_key (case ad_prefix d of Some p \<Rightarrow> p | None \<Rightarrow> []) (sm_relative_path m)
              in st_objects w' (e, b, k) = w_files w (rj_segment_path job) \<and>
                 st_objects w' (e, b, k @ ''.json'') = Some j)))"

lemma process_job_delivers:
  assumes "process_job X rp job w = (Inr (), w')"
  shows "delivered X rp job w w'"
proof -
  from assms obtain d m w1 where d: "rp_destinations rp (rj_destination_key job) = Some d"
    and m: "read_manifest X (rj_manifest_path job) w = (Inr m, w1)"
    and c: "(case ad_type d of Local \<Rightarrow> copy_to_local d job m | S3 \<Rightarrow> copy_to_s3 d job m) w1 = (Inr (), w')"
    by (auto simp: process_job_def io_simps)
  from read_manifest_Inr [OF m] obtain j n where j: "w_files w (rj_manifest_path job) = Some j"
    "mx_from_json X j = Inr m" "w_files w1 = w_files w" by auto
  show ?thesis
  proof (cases "ad_type d")
    case Local
    with c copy_to_local_Inr [of d job m w1 w'] d j show ?thesis by (auto simp: delivered_def)
  next
    case S3
    with c copy_to_s3_Inr [of d job m w1 w'] d j show ?thesis by (auto simp: delivered_def Let_def)
  qed
qed

section \<open>Runs without faults\<close>

text \<open>A job for a local destination whose files are there.\<close>

definition deliverable ::
  "('h, 'y) manifest_ext_scheme \<Rightarrow> replicator \<Rightarrow> (path \<Rightarrow> bytes option) \<Rightarrow> replication_job \<Rightarrow> path \<Rightarrow> bool" where
  "deliverable X rp fs job target \<longleftrightarrow>
     (\<exists>d base j m. rp_destinations rp (rj_destination_key job) = Some d \<and> ad_type d = Local \<and>
        ad_path d = Some base \<and> fs (rj_manifest_path job) = Some j \<and> valid_utf8 j \<and>
        mx_from_json X j = Inr m \<and> fs (rj_segment_path job) \<noteq> None \<and>
        target = join base (sm_relative_path m))"

definition job_sources :: "replication_job \<Rightarrow> path set" where
  "job_sources job = {rj_segment_path job, rj_manifest_path job}"

definition target_files :: "path \<Rightarrow> path set" where
  "target_files p = {p, sidecar_path p}"

lemma fault_free_data_only: "data_only w w' \<Longrightarrow> fault_free w \<Longrightarrow> fault_free w'"
  by (simp add: data_only_def fault_free_def)

lemma copy_file_runs:
  "fault_free w \<Longrightarrow> w_files w a = Some c \<Longrightarrow>
   copy_file a b w = (Inr (), set_file b (Some (if a = b then [] else c)) (tick w))"
  by (simp add: copy_file_Inr fault_free_def)

lemma process_job_runs:
  assumes "fault_free w" "deliverable X rp (w_files w) job target"
    and "job_sources job \<inter> target_files target = {}"
  shows "\<exists>w'. process_job X rp job w = (Inr (), w') \<and> fault_free w' \<and> st_dbs w' = st_dbs w \<and>
    w_files w' = (w_files w)(target := w_files w (rj_segment_path job),
      sidecar_path target := w_files w (rj_manifest_path job))"
proof -
  from assms(2) obtain d base j m c where d: "rp_destinations rp (rj_destination_key job) = Some d"
    "ad_type d = Local" "ad_path d = Some base" "target = join base (sm_relative_path m)"
    and f: "w_files w (rj_manifest_path job) = Some j" "valid_utf8 j" "mx_from_json X j = Inr m"
      "w_files w (rj_segment_path job) = Some c"
    unfolding deliverable_def by blast
  have read: "read_manifest X (rj_manifest_path job) w = (Inr m, tick w)"
    using assms(1) f
    by (simp add: read_manifest_def read_to_string_def read_file_def and_then_def in_context_def
        syscall_fault_free content_def)
  obtain n where dir: "create_destination_dir target (tick w) = (Inr (), w\<lparr>w_step := n\<rparr>)"
    using assms(1)
    by (cases "parent target")
       (auto simp: create_destination_dir_def create_dir_all_def in_context_def syscall_fault_free)
  define w2 where "w2 = set_file target (Some c) (tick (w\<lparr>w_step := n\<rparr>))"
  define w3 where "w3 = set_file (sidecar_path target) (Some j) (tick w2)"
  have c1: "copy_file (rj_segment_path job) target (w\<lparr>w_step := n\<rparr>) = (Inr (), w2)"
    using assms(1,3) f(4) copy_file_runs [of "w\<lparr>w_step := n\<rparr>"]
    by (auto simp: w2_def job_sources_def target_files_def)
  have c2: "copy_file (rj_manifest_path job) (sidecar_path target) w2 = (Inr (), w3)"
    using assms(1,3) f(1) copy_file_runs [of w2 "rj_manifest_path job" j "sidecar_path target"]
    by (auto simp: w2_def w3_def job_sources_def target_files_def)
  have "process_job X rp job w = (Inr (), w3)"
    using d read dir c1 c2
    by (simp add: process_job_def copy_to_local_def and_then_def Let_def in_context_def)
  moreover have "w_files w3 = (w_files w)(target := w_files w (rj_segment_path job),
      sidecar_path target := w_files w (rj_manifest_path job))"
    using f by (simp add: w3_def w2_def)
  moreover have "fault_free w3" "st_dbs w3 = st_dbs w"
    using assms(1) by (simp_all add: w3_def w2_def set_file_def fault_free_def)
  ultimately show ?thesis by blast
qed

lemma job_succeeded_runs:
  assumes "fault_free w" "st_dbs w (rq_db_path (rp_queue rp)) = Some t"
  shows "\<exists>w'. job_succeeded rp job w = (Inr (), w') \<and> fault_free w' \<and> w_files w' = w_files w \<and>
    st_dbs w' (rq_db_path (rp_queue rp)) = Some (delete_rows (\<lambda>r. qr_id r = rj_id job) t)"
  using assms
  by (simp add: job_succeeded_def mark_success_def sql_update_def queue_open_def sql_def and_then_def
      in_context_def syscall_fault_free table_def put_table_def repl_emit_def emit_def fault_free_def
      syscall_def)

text \<open>The loop, when every job can be delivered and no copy overwrites a source or another copy.\<close>

lemma run_jobs_deliver:
  assumes "fault_free w" "st_dbs w (rq_db_path (rp_queue rp)) = Some t"
    and "\<And>j. j \<in> set js \<Longrightarrow> deliverable X rp (w_files w) j (tgt j)"
    and "\<And>j k. j \<in> set js \<Longrightarrow> k \<in> set js \<Longrightarrow> job_sources j \<inter> target_files (tgt k) = {}"
    and "\<And>j k. j \<in> set js \<Longrightarrow> k \<in> set js \<Longrightarrow> j \<noteq> k \<Longrightarrow> target_files (tgt j) \<inter> target_files (tgt k) = {}"
    and "distinct js"
  shows "\<exists>w'. run_jobs (process_job X rp) (job_succeeded rp) (job_failed rp) js w = (Inr (), w') \<and>
    st_dbs w' (rq_db_path (rp_queue rp)) = Some (fold (\<lambda>j. delete_rows (\<lambda>r. qr_id r = rj_id j)) js t) \<and>
    (\<forall>j \<in> set js. w_files w' (tgt j) = w_files w (rj_segment_path j) \<and>
       w_files w' (sidecar_path (tgt j)) = w_files w (rj_manifest_path j)) \<and>
    (\<forall>p. (\<forall>j \<in> set js. p \<notin> target_files (tgt j)) \<longrightarrow> w_files w' p = w_files w p)"
  using assms
proof (induction js arbitrary: w t)
  case (Cons j js)
  obtain w1 where w1: "process_job X rp j w = (Inr (), w1)" "fault_free w1" "st_dbs w1 = st_dbs w"
    "w_files w1 = (w_files w)(tgt j := w_files w (rj_segment_path j),
       sidecar_path (tgt j) := w_files w (rj_manifest_path j))"
    using process_job_runs [OF Cons.prems(1) Cons.prems(3) [of j] Cons.prems(4) [of j j]] by auto
  obtain w2 where w2: "job_succeeded rp j w1 = (Inr (), w2)" "fault_free w2" "w_files w2 = w_files w1"
    "st_dbs w2 (rq_db_path (rp_queue rp)) = Some (delete_rows (\<lambda>r. qr_id r = rj_id j) t)"
    using job_succeeded_runs [OF w1(2), of rp t j] Cons.prems(2) w1(3) by auto
  have same: "w_files w2 p = w_files w p" if "p \<notin> target_files (tgt j)" for p
    using that w1(4) w2(3) by (simp add: target_files_def)
  have src: "w_files w2 (rj_segment_path k) = w_files w (rj_segment_path k)"
    "w_files w2 (rj_manifest_path k) = w_files w (rj_manifest_path k)" if "k \<in> set (j # js)" for k
    using Cons.prems(4) [of k j] that by (auto intro!: same simp: job_sources_def)
  have "deliverable X rp (w_files w2) k (tgt k)" if "k \<in> set js" for k
    using Cons.prems(3) [of k] src [of k] that by (auto simp: deliverable_def)
  then obtain w' where w': "run_jobs (process_job X rp) (job_succeeded rp) (job_failed rp) js w2 = (Inr (), w')"
    "st_dbs w' (rq_db_path (rp_queue rp)) =
       Some (fold (\<lambda>j. delete_rows (\<lambda>r. qr_id r = rj_id j)) js (delete_rows (\<lambda>r. qr_id r = rj_id j) t))"
    "\<forall>k \<in> set js. w_files w' (tgt k) = w_files w2 (rj_segment_path k) \<and>
       w_files w' (sidecar_path (tgt k)) = w_files w2 (rj_manifest_path k)"
    "\<forall>p. (\<forall>k \<in> set js. p \<notin> target_files (tgt k)) \<longrightarrow> w_files w' p = w_files w2 p"
    using Cons.IH [OF w2(2,4)] Cons.prems by auto
  have apart: "tgt j \<notin> target_files (tgt k)" "sidecar_path (tgt j) \<notin> target_files (tgt k)" if "k \<in> set js" for k
  proof -
    have "k \<noteq> j" using Cons.prems(6) that by auto
    with Cons.prems(5) [of j k] that show "tgt j \<notin> target_files (tgt k)"
      "sidecar_path (tgt j) \<notin> target_files (tgt k)" by (auto simp: target_files_def)
  qed
  have "w_files w' (tgt j) = w_files w (rj_segment_path j)"
    "w_files w' (sidecar_path (tgt j)) = w_files w (rj_manifest_path j)"
    using w'(4) apart w2(3) w1(4) by simp_all
  then show ?case
    using w1(1) w2(1) w' src same by (auto simp: and_then_def)
qed simp

text \<open>Deleting the rows of a list of jobs.\<close>

lemma row_at_deletes:
  "row_at (fold (\<lambda>j. delete_rows (\<lambda>r. qr_id r = rj_id j)) js t) i =
     (if i \<in> rj_id ` set js then None else row_at t i)"
  by (induction js arbitrary: t) (auto simp: row_at_delete)

lemma distinct_claimed:
  "queue_step (Claim js) s s' \<Longrightarrow> distinct (map rj_id js)"
  by (auto elim!: queue_stepE simp: strict_sorted_iff)

lemma run_once_cases:
  assumes "queue_inv (rp_queue rp) w" "run_once X rp w = (r, w')"
  obtains (unclaimed) e where "r = Inl e" "queue_abs (rp_queue rp) w' = queue_abs (rp_queue rp) w"
      "queue_inv (rp_queue rp) w'"
  | (claimed) js w1 where "claim_ready (rp_queue rp) 32 w = (Inr js, w1)" "queue_inv (rp_queue rp) w1"
      "queue_step (Claim js) (queue_abs (rp_queue rp) w) (queue_abs (rp_queue rp) w1)"
      "run_jobs (process_job X rp) (job_succeeded rp) (job_failed rp) js w1 = (r, w')"
proof -
  obtain r1 w1 where c: "claim_ready (rp_queue rp) 32 w = (r1, w1)" by force
  show ?thesis
  proof (cases r1)
    case (Inl e)
    with c rq.claim_law [of "rp_queue rp" 32] assms unclaimed show ?thesis
      by (auto simp: obeys_def run_once_def and_then_def)
  next
    case (Inr js)
    with c rq.claim_law [of "rp_queue rp" 32] assms(1) have "queue_inv (rp_queue rp) w1"
      "queue_step (Claim js) (queue_abs (rp_queue rp) w) (queue_abs (rp_queue rp) w1)"
      unfolding obeys_def by (fastforce, fastforce)
    with c Inr assms(2) claimed show ?thesis by (simp add: run_once_def and_then_def)
  qed
qed

text \<open>A round that claims what is due and delivers all of it.\<close>

lemma run_once_fault_free:
  fixes w :: "'z store_scheme" and rp
  defines "q \<equiv> rp_queue rp"
  assumes "fault_free w" "st_dbs w (rq_db_path q) = Some t" "table_ok t"
    and "js = map row_job (take 32 (filter (row_ready (w_clock w (w_step w))) (qt_rows t)))"
    and "\<forall>j \<in> set js. deliverable X rp (w_files w) j (tgt j)"
    and "\<forall>j \<in> set js. \<forall>k \<in> set js. job_sources j \<inter> target_files (tgt k) = {}"
    and "\<forall>j \<in> set js. \<forall>k \<in> set js. j \<noteq> k \<longrightarrow> target_files (tgt j) \<inter> target_files (tgt k) = {}"
  shows "\<exists>w' t'. run_once X rp w = (Inr (), w') \<and> st_dbs w' (rq_db_path q) = Some t' \<and>
    (\<forall>i. row_at t' i = (if i \<in> rj_id ` set js then None else row_at t i)) \<and>
    (\<forall>j \<in> set js. w_files w' (tgt j) = w_files w (rj_segment_path j) \<and>
       w_files w' (sidecar_path (tgt j)) = w_files w (rj_manifest_path j)) \<and>
    (\<forall>p. (\<forall>j \<in> set js. p \<notin> target_files (tgt j)) \<longrightarrow> w_files w' p = w_files w p)"
proof -
  have js: "js = select_ready (w_clock w (w_step w)) (u64_as_i64 32) t"
    using select_ready_limit [OF assms(4), of 32] assms(5) by simp
  obtain w1 where c: "claim_ready q 32 w = (Inr js, w1)"
    using claim_ready_fault_free [OF assms(2,3)] js by blast
  from claim_ready_Inr [OF c assms(3)] obtain n where
    w1: "w1 = w\<lparr>w_step := n, st_dbs := (st_dbs w)(rq_db_path q \<mapsto> claim_table (w_clock w (w_step w)) js t)\<rparr>"
    by blast
  then have files: "w_files w1 = w_files w" and free: "fault_free w1"
    and db: "st_dbs w1 (rq_db_path (rp_queue rp)) = Some (claim_table (w_clock w (w_step w)) js t)"
    using assms(2) by (simp_all add: fault_free_def q_def)
  have "distinct (map rj_id js)"
    using select_ready_sorted [OF assms(4)] js by (simp add: strict_sorted_iff)
  then have "distinct js" by (simp add: distinct_map)
  with run_jobs_deliver [OF free db, of js X tgt] assms(6-8) files obtain w' where
    run: "run_jobs (process_job X rp) (job_succeeded rp) (job_failed rp) js w1 = (Inr (), w')"
    and rest: "st_dbs w' (rq_db_path q) =
        Some (fold (\<lambda>j. delete_rows (\<lambda>r. qr_id r = rj_id j)) js (claim_table (w_clock w (w_step w)) js t))"
      "\<forall>j \<in> set js. w_files w' (tgt j) = w_files w (rj_segment_path j) \<and>
       w_files w' (sidecar_path (tgt j)) = w_files w (rj_manifest_path j)"
      "\<forall>p. (\<forall>j \<in> set js. p \<notin> target_files (tgt j)) \<longrightarrow> w_files w' p = w_files w p"
    unfolding q_def by auto
  have "run_once X rp w = (Inr (), w')"
    using c run by (simp add: run_once_def and_then_def q_def)
  with rest show ?thesis by (auto simp: row_at_deletes claim_table_facts)
qed

section \<open>Queueing a published segment\<close>

lemma enqueue_runs:
  assumes "fault_free w" "st_dbs w (rq_db_path q) = Some t" "qt_next_id t < 2 ^ 63"
  shows "\<exists>w' now. enqueue q seg man key n w = (Inr (), w') \<and> fault_free w' \<and> w_files w' = w_files w \<and>
    st_dbs w' (rq_db_path q) = Some \<lparr>qt_rows = qt_rows t @ [new_row seg man key n now (qt_next_id t)],
      qt_next_id = qt_next_id t + 1\<rparr>"
proof -
  have faults: "w_fault w k op = None" for k op using assms(1) by (simp add: fault_free_def)
  show ?thesis
    using assms(2,3)
    by (simp add: enqueue_def sql_update_def queue_open_def sql_def and_then_def utc_now_def in_context_def
        syscall_def table_def put_table_def insert_row_def fault_free_def faults) blast
qed

lemma enqueue_for_all:
  assumes "fault_free w" "st_dbs w (rq_db_path (rp_queue rp)) = Some t" "distinct ks"
    and keyed: "\<And>k d. rp_destinations rp k = Some d \<Longrightarrow> destination_key d = k"
    and "qt_next_id t + int (length ks) \<le> 2 ^ 63"
  shows "\<exists>w' new. for_each ks (enqueue_for rp segment) w = (Inr (), w') \<and>
    st_dbs w' (rq_db_path (rp_queue rp)) =
      Some \<lparr>qt_rows = qt_rows t @ new, qt_next_id = qt_next_id t + int (length new)\<rparr> \<and>
    distinct (map qr_destination_key new) \<and>
    set (map qr_destination_key new) = {k \<in> set ks. \<exists>d. rp_destinations rp k = Some d \<and> ad_mode d = AsyncReplica} \<and>
    (\<forall>r \<in> set new. qr_status r = Pending \<and> qr_attempts r = 0 \<and>
       qr_segment_path r = fs_final_path segment \<and> qr_manifest_path r = fs_manifest_path segment \<and>
       (\<exists>d. rp_destinations rp (qr_destination_key r) = Some d \<and> qr_max_retries r = max_retries d))"
  using assms(1,2,3,5)
proof (induction ks arbitrary: w t)
  case Nil
  then show ?case by (intro exI [of _ w] exI [of _ "[]"]) simp
next
  case (Cons k ks)
  show ?case
  proof (cases "\<exists>d. rp_destinations rp k = Some d \<and> ad_mode d = AsyncReplica")
    case False
    then have "enqueue_for rp segment k w = (Inr (), w)"
      by (auto simp: enqueue_for_def split: option.splits)
    then have step: "for_each (k # ks) (enqueue_for rp segment) w = for_each ks (enqueue_for rp segment) w"
      by (simp add: and_then_def)
    have keys: "{x \<in> set (k # ks). \<exists>d. rp_destinations rp x = Some d \<and> ad_mode d = AsyncReplica} =
        {x \<in> set ks. \<exists>d. rp_destinations rp x = Some d \<and> ad_mode d = AsyncReplica}"
      using False by auto
    show ?thesis unfolding step keys using Cons.IH [of w t] Cons.prems by auto
  next
    case True
    then obtain d where d: "rp_destinations rp k = Some d" "ad_mode d = AsyncReplica" by blast
    have "qt_next_id t < 2 ^ 63" using Cons.prems(4) by simp
    from enqueue_runs [OF Cons.prems(1,2) this, of "fs_final_path segment" "fs_manifest_path segment" k "max_retries d"]
    obtain w1 now where w1: "enqueue (rp_queue rp) (fs_final_path segment) (fs_manifest_path segment) k (max_retries d) w = (Inr (), w1)"
      "fault_free w1" "st_dbs w1 (rq_db_path (rp_queue rp)) = Some \<lparr>qt_rows = qt_rows t @
        [new_row (fs_final_path segment) (fs_manifest_path segment) k (max_retries d) now (qt_next_id t)],
        qt_next_id = qt_next_id t + 1\<rparr>" by blast
    let ?r = "new_row (fs_final_path segment) (fs_manifest_path segment) k (max_retries d) now (qt_next_id t)"
    from Cons.IH [OF w1(2,3)] Cons.prems(3,4) obtain w' new where ih:
      "for_each ks (enqueue_for rp segment) w1 = (Inr (), w')"
      "st_dbs w' (rq_db_path (rp_queue rp)) = Some \<lparr>qt_rows = qt_rows t @ ?r # new,
         qt_next_id = qt_next_id t + int (length (?r # new))\<rparr>"
      "distinct (map qr_destination_key new)"
      "set (map qr_destination_key new) = {x \<in> set ks. \<exists>d. rp_destinations rp x = Some d \<and> ad_mode d = AsyncReplica}"
      "\<forall>r \<in> set new. qr_status r = Pending \<and> qr_attempts r = 0 \<and>
         qr_segment_path r = fs_final_path segment \<and> qr_manifest_path r = fs_manifest_path segment \<and>
         (\<exists>d. rp_destinations rp (qr_destination_key r) = Some d \<and> qr_max_retries r = max_retries d)"
      by (fastforce simp: algebra_simps)
    have "for_each (k # ks) (enqueue_for rp segment) w = (Inr (), w')"
      using w1(1) ih(1) d keyed [OF d(1)] by (simp add: enqueue_for_def and_then_def)
    moreover have "distinct (map qr_destination_key (?r # new))"
      using ih(3,4) Cons.prems(3) by (auto simp: new_row_def)
    moreover have "set (map qr_destination_key (?r # new)) =
        {x \<in> set (k # ks). \<exists>d. rp_destinations rp x = Some d \<and> ad_mode d = AsyncReplica}"
      using ih(4) d by (auto simp: new_row_def)
    moreover have "\<forall>r \<in> set (?r # new). qr_status r = Pending \<and> qr_attempts r = 0 \<and>
         qr_segment_path r = fs_final_path segment \<and> qr_manifest_path r = fs_manifest_path segment \<and>
         (\<exists>d. rp_destinations rp (qr_destination_key r) = Some d \<and> qr_max_retries r = max_retries d)"
      using ih(5) d by (simp add: new_row_def)
    ultimately show ?thesis using ih(2) by blast
  qed
qed

section \<open>Properties\<close>

text \<open>
  C15: when a round of replication returns without an error, whatever calls failed in it, every
  job it claimed has been settled (it is deleted, waiting for its next attempt, or given up;
  none is left in progress), and no other job has changed.
\<close>

theorem run_once_settles:
  assumes "queue_inv (rp_queue rp) w" "run_once X rp w = (Inr (), w')"
  shows "\<exists>js w1. claim_ready (rp_queue rp) 32 w = (Inr js, w1) \<and>
    (\<forall>j \<in> set js. \<forall>e. qs_entries (queue_abs (rp_queue rp) w') (rj_id j) = Some e \<longrightarrow>
       en_status e \<noteq> InProgress) \<and>
    (\<forall>i. i \<notin> rj_id ` set js \<longrightarrow>
       qs_entries (queue_abs (rp_queue rp) w') i = qs_entries (queue_abs (rp_queue rp) w) i)"
  using assms
proof (cases rule: run_once_cases)
  case (claimed js w1)
  have "qs_entries (queue_abs (rp_queue rp) w1) i = qs_entries (queue_abs (rp_queue rp) w) i"
    if "i \<notin> rj_id ` set js" for i
    using claimed(3) that by (auto elim!: queue_stepE simp: claim_entries_def)
  with rep.run_jobs_settled [OF claimed(2,4) distinct_claimed [OF claimed(3)]]
    rep.run_jobs_others [OF claimed(2,4)] claimed(1) show ?thesis by auto
qed simp

text \<open>
  C3: a job leaves the queue only when it has been delivered. Whatever calls fail, and whether
  the round succeeds or not, if a job that was in the queue before a round is gone after it,
  then the round claimed it, and when its turn came after the jobs before it, its segment and
  its manifest as they then were have been copied to its destination.
\<close>

theorem run_once_no_loss:
  assumes "queue_inv (rp_queue rp) w" "run_once X rp w = (r, w')"
    and "qs_entries (queue_abs (rp_queue rp) w) i = Some e"
    and "qs_entries (queue_abs (rp_queue rp) w') i = None"
  shows "\<exists>js js1 js2 wc w1 w2. claim_ready (rp_queue rp) 32 w = (Inr js, wc) \<and> js = js1 @ en_job e # js2 \<and>
    run_jobs (process_job X rp) (job_succeeded rp) (job_failed rp) js1 wc = (Inr (), w1) \<and>
    process_job X rp (en_job e) w1 = (Inr (), w2) \<and> delivered X rp (en_job e) w1 w2"
  using assms(1,2)
proof (cases rule: run_once_cases)
  case (claimed js w1)
  note other = rep.run_jobs_others [OF claimed(2,4), of i]
  have w1: "qs_entries (queue_abs (rp_queue rp) w1) i \<noteq> None"
    using claimed(3) assms(3) by (auto elim!: queue_stepE simp: claim_entries_def)
  with other assms(4) have "i \<in> rj_id ` set js" by auto
  then obtain j where j: "j \<in> set js" "rj_id j = i" by auto
  with claimed(3) assms(3) have "en_job e = j" by (auto elim!: queue_stepE)
  moreover obtain js1 js2 w2 w3 where split: "js = js1 @ j # js2"
    "run_jobs (process_job X rp) (job_succeeded rp) (job_failed rp) js1 w1 = (Inr (), w2)"
    "process_job X rp j w2 = (Inr (), w3)"
    using rep.run_jobs_gone [OF claimed(2,4) j(1) distinct_claimed [OF claimed(3)]] w1 assms(4)
    unfolding j(2) by blast
  ultimately show ?thesis using claimed(1) process_job_delivers [OF split(3)] by blast
qed (use assms(3,4) in simp)



text \<open>
  publishing a segment queues one pending job for every destination that is an
  asynchronous replica, in the order the map is iterated, each with the segment, its manifest
  and the destination's limit of retries, and none for a primary destination.
\<close>

theorem enqueue_segment_one_each:
  fixes tx :: bool
  assumes "order_laws hash_order" "fault_free w"
    and "st_dbs w (rq_db_path q) = Some t" "qt_next_id t + int (length (ac_destinations cfg)) \<le> 2 ^ 63"
  defines "rp \<equiv> replicator_new hash_order cfg q tx"
  shows "\<exists>w' new. enqueue_segment rp segment w = (Inr (), w') \<and>
    st_dbs w' (rq_db_path q) = Some \<lparr>qt_rows = qt_rows t @ new, qt_next_id = qt_next_id t + int (length new)\<rparr> \<and>
    distinct (map qr_destination_key new) \<and>
    set (map qr_destination_key new) =
      {k. \<exists>d. rp_destinations rp k = Some d \<and> ad_mode d = AsyncReplica} \<and>
    (\<forall>r \<in> set new. qr_status r = Pending \<and> qr_attempts r = 0 \<and>
       qr_segment_path r = fs_final_path segment \<and> qr_manifest_path r = fs_manifest_path segment \<and>
       (\<exists>d. rp_destinations rp (qr_destination_key r) = Some d \<and> qr_max_retries r = max_retries d))"
proof -
  let ?ks = "remdups (map destination_key (ac_destinations cfg))"
  have ks: "rp_keys rp = hash_order ?ks" "rp_queue rp = q"
    by (simp_all add: rp_def replicator_new_def Let_def comp_def)
  have dist: "distinct (rp_keys rp)" and set: "set (rp_keys rp) = destination_key ` set (ac_destinations cfg)"
    using assms(1) ks(1) unfolding order_laws_def by auto
  have keyed: "destination_key d = k" if "rp_destinations rp k = Some d" for k d
    using that by (auto simp: rp_def replicator_new_def dest!: map_of_SomeD)
  have "length (rp_keys rp) \<le> length (ac_destinations cfg)"
    using distinct_card [OF dist] card_image_le [of "set (ac_destinations cfg)" destination_key]
      card_length [of "ac_destinations cfg"] unfolding set by auto
  then have room: "qt_next_id t + int (length (rp_keys rp)) \<le> 2 ^ 63" using assms(4) by linarith
  have dom: "k \<in> set (rp_keys rp)" if "rp_destinations rp k = Some d" for k d
    using that unfolding set by (auto simp: rp_def replicator_new_def dest!: map_of_SomeD)
  from enqueue_for_all [OF assms(2) _ dist keyed room, of rp segment] assms(3) dom show ?thesis
    unfolding enqueue_segment_def ks(2) by fastforce
qed

text \<open>
  the destinations are kept in a map by their key, and the key of an S3 destination is made
  of the endpoint and the bucket only. Of two destinations that differ in the prefix alone,
  which validation accepts, the later one replaces the earlier: no job ever reaches the first.
\<close>

theorem same_key_destinations_collapse:
  assumes "ac_destinations cfg = ds @ d1 # es @ d2 # fs" "destination_key d1 = destination_key d2"
    and "\<forall>d \<in> set fs. destination_key d \<noteq> destination_key d2"
  shows "rp_destinations (replicator_new hash_order cfg q tx) (destination_key d1) = Some d2"
proof -
  have "map_of (rev (map (\<lambda>d. (destination_key d, d)) fs)) (destination_key d2) = None"
    using assms(3) by (auto simp: map_of_eq_None_iff)
  then show ?thesis
    using assms(1,2) by (simp add: replicator_new_def Let_def map_add_def)
qed

section \<open>Witnesses\<close>

definition demo_manifest :: "path \<Rightarrow> segment_manifest" where
  "demo_manifest rel =
     \<lparr>sm_collector_id = ''focl01'', sm_stream = ''updates'', sm_start_ts = 0, sm_end_ts = 900,
      sm_record_count = 1, sm_bytes = 1, sm_sha256 = ''ab'', sm_compression = Gzip,
      sm_layout_profile = RouteViews, sm_relative_path = rel\<rparr>"

definition local_replica :: "path \<Rightarrow> archive_destination_config" where
  "local_replica p =
     \<lparr>ad_type = Local, ad_mode = AsyncReplica, ad_path = Some p, ad_required = None,
      ad_endpoint = None, ad_bucket = None, ad_prefix = None, ad_upload_concurrency = None,
      ad_retry_backoff_secs = None, ad_max_retries = None, ad_region = None,
      ad_access_key_id = None, ad_secret_access_key = None, ad_session_token = None\<rparr>"

definition demo_replicator :: "path \<Rightarrow> replicator" where
  "demo_replicator p =
     replicator_new (\<lambda>xs. xs) (default_archive\<lparr>ac_destinations := [local_replica p]\<rparr>) demo_queue True"

definition demo_files :: "path \<Rightarrow> bytes option" where
  "demo_files = [''s'' \<mapsto> [1], ''m'' \<mapsto> put_manifest (demo_manifest ''x.gz''),
     ''s2'' \<mapsto> [2], ''m2'' \<mapsto> put_manifest (demo_manifest ''y.gz'')]"

definition demo_target :: "replication_job \<Rightarrow> path" where
  "demo_target j = (if rj_id j = 1 then ''/b/x.gz'' else ''/b/y.gz'')"

lemma demo_replicator_simps [simp]:
  "rp_queue (demo_replicator p) = demo_queue"
  "rp_destinations (demo_replicator p) = [''local:'' @ p \<mapsto> local_replica p]"
  by (simp_all add: demo_replicator_def replicator_new_def destination_key_def local_replica_def or_missing_def)

lemma demo_from_json [simp]:
  "mx_from_json demo_ext (put_manifest m) = Inr m"
  by (simp add: demo_ext_def get_put_manifest)

definition demo_jobs :: "replication_job list" where
  "demo_jobs = map row_job (qt_rows demo_table)"

lemma demo_jobs_set:
  "set demo_jobs = {row_job (new_row ''s'' ''m'' ''local:/b'' 3 5 1), row_job (new_row ''s2'' ''m2'' ''local:/b'' 3 5 2)}"
  by (simp add: demo_jobs_def demo_table_def)

lemma demo_round:
  shows "demo_jobs = map row_job (take 32 (filter
      (row_ready (w_clock (demo_store demo_files) (w_step (demo_store demo_files)))) (qt_rows demo_table)))"
    and "\<forall>j \<in> set demo_jobs. deliverable demo_ext (demo_replicator ''/b'') (w_files (demo_store demo_files)) j (demo_target j)"
    and "\<forall>j \<in> set demo_jobs. \<forall>k \<in> set demo_jobs. job_sources j \<inter> target_files (demo_target k) = {}"
    and "\<forall>j \<in> set demo_jobs. \<forall>k \<in> set demo_jobs. j \<noteq> k \<longrightarrow>
      target_files (demo_target j) \<inter> target_files (demo_target k) = {}"
proof -
  show "demo_jobs = map row_job (take 32 (filter
      (row_ready (w_clock (demo_store demo_files) (w_step (demo_store demo_files)))) (qt_rows demo_table)))"
    by (simp add: demo_jobs_def demo_table_def demo_store_def row_ready_def new_row_def)
  have j: "join ''/b'' ''x.gz'' = ''/b/x.gz''" "join ''/b'' ''y.gz'' = ''/b/y.gz''"
    by (simp_all add: join_def push_def is_absolute_def)
  show "\<forall>j \<in> set demo_jobs. deliverable demo_ext (demo_replicator ''/b'') (w_files (demo_store demo_files)) j (demo_target j)"
    unfolding demo_jobs_set deliverable_def
    by (simp add: row_job_def new_row_def demo_target_def demo_store_def demo_files_def local_replica_def
        put_manifest_text demo_manifest_def j)
  show "\<forall>j \<in> set demo_jobs. \<forall>k \<in> set demo_jobs. job_sources j \<inter> target_files (demo_target k) = {}"
    "\<forall>j \<in> set demo_jobs. \<forall>k \<in> set demo_jobs. j \<noteq> k \<longrightarrow>
      target_files (demo_target j) \<inter> target_files (demo_target k) = {}"
    unfolding demo_jobs_set
    by (simp_all add: row_job_def new_row_def demo_target_def job_sources_def target_files_def sidecar_path_def)
qed

lemma demo_replicator_db:
  "st_dbs (demo_store fs) (rq_db_path (rp_queue (demo_replicator p))) = Some demo_table"
  "queue_inv (rp_queue (demo_replicator p)) (demo_store fs)"
  using demo_store_facts by simp_all


lemma demo_run:
  obtains w' t' where "run_once demo_ext (demo_replicator ''/b'') (demo_store demo_files) = (Inr (), w')"
    "st_dbs w' (rq_db_path demo_queue) = Some t'"
    "\<forall>i. row_at t' i = (if i \<in> rj_id ` set demo_jobs then None else row_at demo_table i)"
  using run_once_fault_free [OF demo_store_facts(2) demo_replicator_db(1) demo_table_ok demo_round]
  by (metis (no_types, lifting) demo_replicator_simps(1))

theorem run_once_settles_witness:
  "\<exists>w' js w1. run_once demo_ext (demo_replicator ''/b'') (demo_store demo_files) = (Inr (), w') \<and>
    claim_ready demo_queue 32 (demo_store demo_files) = (Inr js, w1) \<and>
    (\<forall>j \<in> set js. \<forall>e. qs_entries (queue_abs demo_queue w') (rj_id j) = Some e \<longrightarrow> en_status e \<noteq> InProgress)"
proof -
  obtain w' where run: "run_once demo_ext (demo_replicator ''/b'') (demo_store demo_files) = (Inr (), w')"
    using demo_run by blast
  from run_once_settles [OF demo_replicator_db(2) run] run show ?thesis by auto
qed

theorem run_once_no_loss_witness:
  "\<exists>(w1 :: store) w2. process_job demo_ext (demo_replicator ''/b'') (hd demo_jobs) w1 = (Inr (), w2) \<and>
    delivered demo_ext (demo_replicator ''/b'') (hd demo_jobs) w1 w2"
proof -
  obtain w' t' where run: "run_once demo_ext (demo_replicator ''/b'') (demo_store demo_files) = (Inr (), w')"
    and t': "st_dbs w' (rq_db_path demo_queue) = Some t'"
    "\<forall>i. row_at t' i = (if i \<in> rj_id ` set demo_jobs then None else row_at demo_table i)"
    by (rule demo_run)
  have before: "qs_entries (queue_abs (rp_queue (demo_replicator ''/b'')) (demo_store demo_files)) 1 =
      Some (entry_of (hd (qt_rows demo_table)))"
    by (simp add: queue_abs_def demo_store_facts(3) abs_table_def row_at_def demo_table_def)
  have after: "qs_entries (queue_abs (rp_queue (demo_replicator ''/b'')) w') 1 = None"
    using t' by (simp add: queue_abs_def abs_table_def demo_jobs_set)
  have "en_job (entry_of (hd (qt_rows demo_table))) = hd demo_jobs"
    by (simp add: entry_of_def demo_jobs_def demo_table_def)
  with run_once_no_loss [OF demo_replicator_db(2) run before after] show ?thesis by auto
qed

definition self_job :: replication_job where
  "self_job = \<lparr>rj_id = 1, rj_segment_path = ''/a/x.gz'', rj_manifest_path = ''/a/x.gz.json'',
     rj_destination_key = ''local:/a'', rj_attempts = 0, rj_max_retries = 0\<rparr>"

definition self_store :: store where
  "self_store = demo_store [''/a/x.gz'' \<mapsto> [1, 2, 3], ''/a/x.gz.json'' \<mapsto> put_manifest (demo_manifest ''x.gz'')]"


lemma distinct_singleton_set: "distinct xs \<Longrightarrow> set xs = {a} \<Longrightarrow> xs = [a]"
  by (cases xs) (auto simp: subset_singleton_iff)

lemma id_order: "order_laws (\<lambda>xs. xs)"
  by (simp add: order_laws_def)

theorem enqueue_segment_one_each_witness:
  "\<exists>w' new. enqueue_segment (demo_replicator ''/b'')
      (finalized demo_writer 900 (demo_manifest ''x.gz'')) (demo_store Map.empty) = (Inr (), w') \<and>
    st_dbs w' ''q'' = Some \<lparr>qt_rows = qt_rows demo_table @ new, qt_next_id = 3 + int (length new)\<rparr> \<and>
    map qr_destination_key new = [''local:/b'']"
proof -
  let ?cfg = "default_archive\<lparr>ac_destinations := [local_replica ''/b'']\<rparr>"
  have room: "qt_next_id demo_table + int (length (ac_destinations ?cfg)) \<le> 2 ^ 63"
    by (simp add: demo_table_def)
  have keys: "{k. \<exists>d. rp_destinations (demo_replicator ''/b'') k = Some d \<and> ad_mode d = AsyncReplica} = {''local:/b''}"
    by (auto simp: local_replica_def)
  obtain w' new where r: "enqueue_segment (demo_replicator ''/b'')
      (finalized demo_writer 900 (demo_manifest ''x.gz'')) (demo_store Map.empty) = (Inr (), w')"
    "st_dbs w' (rq_db_path demo_queue) = Some \<lparr>qt_rows = qt_rows demo_table @ new,
       qt_next_id = qt_next_id demo_table + int (length new)\<rparr>"
    "distinct (map qr_destination_key new)" "set (map qr_destination_key new) = {''local:/b''}"
    using enqueue_segment_one_each [OF id_order demo_store_facts(2,3) room, of True
        "finalized demo_writer 900 (demo_manifest ''x.gz'')" Map.empty]
    unfolding demo_replicator_def [symmetric] keys by (elim exE conjE) (rule that)
  have "map qr_destination_key new = [''local:/b'']"
    by (rule distinct_singleton_set [OF r(3,4)])
  with r(1,2) show ?thesis by (auto simp: demo_queue_def demo_table_def)
qed

definition s3_replica :: "string \<Rightarrow> archive_destination_config" where
  "s3_replica p = (local_replica [])\<lparr>ad_type := S3, ad_path := None, ad_endpoint := Some ''e'',
     ad_bucket := Some ''b'', ad_prefix := Some p\<rparr>"

theorem same_key_destinations_collapse_witness:
  "let cfg = default_archive\<lparr>ac_enabled := True,
       ac_destinations := ac_destinations default_archive @ [s3_replica ''x'', s3_replica ''y'']\<rparr>
   in archive_ok cfg \<and>
      rp_destinations (replicator_new (\<lambda>xs. xs) cfg demo_queue True) (destination_key (s3_replica ''x'')) =
        Some (s3_replica ''y'')"
proof -
  let ?cfg = "default_archive\<lparr>ac_enabled := True,
       ac_destinations := ac_destinations default_archive @ [s3_replica ''x'', s3_replica ''y'']\<rparr>"
  have "archive_ok ?cfg"
    by (simp add: archive_ok_def default_archive_def config_defaults destination_ok_def is_space_def
        s3_replica_def local_replica_def)
  moreover have "ac_destinations ?cfg = ac_destinations default_archive @ s3_replica ''x'' # [] @ s3_replica ''y'' # []"
    by simp
  moreover have "destination_key (s3_replica ''x'') = destination_key (s3_replica ''y'')"
    by (simp add: s3_replica_def destination_key_def)
  ultimately show ?thesis
    using same_key_destinations_collapse [of ?cfg "ac_destinations default_archive" "s3_replica ''x''" "[]"
        "s3_replica ''y''" "[]" "\<lambda>xs. xs" demo_queue True]
    by (simp only: Let_def list.set ball_empty simp_thms)
qed

end
