(* ===== verification/Calendar.thy ===== *)
theory Calendar
  imports Prelude
begin

text \<open>
  The calendar of crate \<^verbatim>\<open>chrono\<close> is a parameter of the archive's model:
  \<^verbatim>\<open>Utc.timestamp_opt(t, 0).single()\<close> is a function from seconds since the epoch to the
  date and time the sources read from it. \<open>calendar_laws\<close> states the documented behaviour
  the archive relies on. The proleptic Gregorian calendar, defined here from the day count,
  satisfies the laws and serves as the concrete instance.
\<close>

record utc_datetime =
  dt_year :: int
  dt_month :: nat
  dt_day :: nat
  dt_hour :: nat
  dt_minute :: nat

type_synonym calendar = "int \<Rightarrow> utc_datetime option"

definition same_date :: "utc_datetime \<Rightarrow> utc_datetime \<Rightarrow> bool" where
  "same_date a b \<longleftrightarrow> dt_year a = dt_year b \<and> dt_month a = dt_month b \<and> dt_day a = dt_day b"

definition fields_in_range :: "int \<Rightarrow> utc_datetime \<Rightarrow> bool" where
  "fields_in_range t a \<longleftrightarrow>
     1 \<le> dt_month a \<and> dt_month a \<le> 12 \<and> 1 \<le> dt_day a \<and> dt_day a \<le> 31 \<and>
     int (dt_hour a) = t mod 86400 div 3600 \<and> int (dt_minute a) = t mod 3600 div 60"

text \<open>
  The laws: a timestamp that has a date lies within chrono's years (about \<open>\<plusminus>262000\<close>); month
  and day are in range and hour and minute come from the seconds of the day (UTC without
  leap seconds); equal dates mean equal days; the fields depend on the minute only.
\<close>

definition calendar_laws :: "calendar \<Rightarrow> bool" where
  "calendar_laws cal \<longleftrightarrow>
     (\<forall>t a. cal t = Some a \<longrightarrow> \<bar>t\<bar> \<le> 2 ^ 43 \<and> fields_in_range t a) \<and>
     (\<forall>t u a b. cal t = Some a \<longrightarrow> cal u = Some b \<longrightarrow> same_date a b \<longrightarrow> t div 86400 = u div 86400) \<and>
     (\<forall>t u. t div 60 = u div 60 \<longrightarrow> cal t = cal u)"

lemma calendar_lawsD:
  assumes "calendar_laws cal"
  shows "cal t = Some a \<Longrightarrow> \<bar>t\<bar> \<le> 2 ^ 43"
    and "cal t = Some a \<Longrightarrow> fields_in_range t a"
    and "cal t = Some a \<Longrightarrow> cal u = Some b \<Longrightarrow> same_date a b \<Longrightarrow> t div 86400 = u div 86400"
    and "t div 60 = u div 60 \<Longrightarrow> cal t = cal u"
  using assms unfolding calendar_laws_def by blast+

text \<open>The clock fields as functions of the minute.\<close>

lemma minute_parts:
  fixes x :: int
  shows "x div 86400 = x div 60 div 1440"
    and "x mod 86400 div 3600 = x div 60 mod 1440 div 60"
    and "x mod 3600 div 60 = x div 60 mod 60"
proof -
  have strip: "(60 * a + x mod 60) div 60 = a" for a :: int by simp
  show "x div 86400 = x div 60 div 1440" using zdiv_zmult2_eq [of 1440 x 60] by simp
  have "x mod 86400 = 60 * (x div 60 mod 1440) + x mod 60"
    using zmod_zmult2_eq [of 1440 x 60] by simp
  then have "x mod 86400 div 60 = x div 60 mod 1440" by (simp only: strip)
  then show "x mod 86400 div 3600 = x div 60 mod 1440 div 60"
    using zdiv_zmult2_eq [of 60 "x mod 86400" 60] by simp
  have "x mod 3600 = 60 * (x div 60 mod 60) + x mod 60"
    using zmod_zmult2_eq [of 60 x 60] by simp
  then show "x mod 3600 div 60 = x div 60 mod 60" by (simp only: strip)
qed

text \<open>The minute of a timestamp is determined by the fields.\<close>

lemma calendar_minute:
  assumes laws: "calendar_laws cal" and t: "cal t = Some a" and u: "cal u = Some b"
    and date: "same_date a b" and hour: "dt_hour a = dt_hour b" and minute: "dt_minute a = dt_minute b"
  shows "t div 60 = u div 60"
proof -
  have day: "t div 86400 = u div 86400" by (rule calendar_lawsD(3) [OF laws t u date])
  have h: "t mod 86400 div 3600 = u mod 86400 div 3600"
    and m: "t mod 3600 div 60 = u mod 3600 div 60"
    using calendar_lawsD(2) [OF laws t] calendar_lawsD(2) [OF laws u] hour minute
    by (auto simp: fields_in_range_def)
  have split: "x div 60 = 1440 * (x div 86400) + 60 * (x mod 86400 div 3600) + x mod 3600 div 60"
    for x :: int
  proof -
    have "x div 60 mod 1440 mod 60 = x div 60 mod 60" by (simp add: mod_mod_cancel)
    moreover have "x div 60 = 1440 * (x div 60 div 1440) + x div 60 mod 1440" by simp
    moreover have "x div 60 mod 1440 = 60 * (x div 60 mod 1440 div 60) + x div 60 mod 1440 mod 60"
      by simp
    ultimately show ?thesis unfolding minute_parts by linarith
  qed
  show ?thesis by (simp only: split [of t] split [of u] day h m)
qed

section \<open>The Gregorian calendar\<close>

text \<open>
  Days are counted from 1 March of year 0, in eras of 400 years; a year starts in March, so
  that the leap day is its last day.
\<close>

definition year_of_era :: "int \<Rightarrow> int" where
  "year_of_era doe =
     (let c = min (doe div 36524) 3; r = doe - 36524 * c; q = r div 1461; s = r - 1461 * q
      in 100 * c + 4 * q + min (s div 365) 3)"

definition day_of_year :: "int \<Rightarrow> int" where
  "day_of_year doe =
     (let y = year_of_era doe
      in doe - (36524 * (y div 100) + 1461 * (y mod 100 div 4) + 365 * (y mod 4)))"

definition civil_month :: "int \<Rightarrow> int" where
  "civil_month mp = (if mp < 10 then mp + 3 else mp - 9)"

definition era_of :: "int \<Rightarrow> int" where
  "era_of t = (t div 86400 + 719468) div 146097"

definition day_of_era :: "int \<Rightarrow> int" where
  "day_of_era t = (t div 86400 + 719468) mod 146097"

definition month_index :: "int \<Rightarrow> int" where
  "month_index doy = (5 * doy + 2) div 153"

definition day_of_month :: "int \<Rightarrow> int" where
  "day_of_month doy = doy - (153 * month_index doy + 2) div 5 + 1"

definition civil_fields :: "int \<Rightarrow> utc_datetime" where
  "civil_fields t =
     (let doe = day_of_era t; doy = day_of_year doe; m = civil_month (month_index doy)
      in \<lparr>dt_year = year_of_era doe + 400 * era_of t + (if m \<le> 2 then 1 else 0),
          dt_month = nat m, dt_day = nat (day_of_month doy),
          dt_hour = nat (t mod 86400 div 3600), dt_minute = nat (t mod 3600 div 60)\<rparr>)"

definition gregorian :: calendar where
  "gregorian t = (if \<bar>t div 60\<bar> \<le> 138900000000 then Some (civil_fields t) else None)"

lemma year_parts:
  fixes c :: int
  assumes "0 \<le> q" "q \<le> 24" "0 \<le> y" "y \<le> 3"
  shows "(100 * c + 4 * q + y) div 100 = c" "(100 * c + 4 * q + y) mod 100 div 4 = q"
    "(100 * c + 4 * q + y) mod 4 = y"
proof -
  have "100 * c + 4 * q + y = (4 * q + y) + c * 100" by simp
  then have a: "(100 * c + 4 * q + y) div 100 = (4 * q + y) div 100 + c"
    "(100 * c + 4 * q + y) mod 100 = (4 * q + y) mod 100"
    by (simp_all only: div_mult_self1 mod_mult_self1)
  have "(4 * q + y) div 100 = 0" "(4 * q + y) mod 100 = 4 * q + y"
    using assms by simp_all
  with a show "(100 * c + 4 * q + y) div 100 = c" by simp
  have y: "y div 4 = 0" "y mod 4 = y" using assms by simp_all
  have e: "4 * q + y = y + q * 4" "100 * c + 4 * q + y = y + (25 * c + q) * 4" by simp_all
  have "(y + q * 4) div 4 = q" by (simp add: y)
  then show "(100 * c + 4 * q + y) mod 100 div 4 = q"
    using a(2) \<open>(4 * q + y) mod 100 = 4 * q + y\<close> e(1) by metis
  show "(100 * c + 4 * q + y) mod 4 = y" unfolding e(2) mod_mult_self1 by (rule y(2))
qed

lemma era_decomposition:
  assumes "0 \<le> doe" "doe < 146097"
  shows "0 \<le> year_of_era doe" "year_of_era doe < 400"
    and "0 \<le> day_of_year doe" "day_of_year doe \<le> 365"
proof -
  define c where "c = min (doe div 36524) 3"
  define r where "r = doe - 36524 * c"
  define q where "q = r div 1461"
  define s where "s = r - 1461 * q"
  define y where "y = min (s div 365) 3"
  have c: "0 \<le> c" "c \<le> 3" using assms by (auto simp: c_def)
  have r: "0 \<le> r" "r \<le> 36524" using assms by (auto simp: r_def c_def min_def)
  have q: "0 \<le> q" "q \<le> 24" using r by (auto simp: q_def)
  have "s = r mod 1461" by (simp add: s_def q_def minus_mult_div_eq_mod)
  then have s: "0 \<le> s" "s \<le> 1460" by (auto simp: zle_diff1_eq [symmetric])
  have y: "0 \<le> y" "y \<le> 3" using s by (auto simp: y_def)
  have year: "year_of_era doe = 100 * c + 4 * q + y"
    by (simp add: year_of_era_def c_def r_def q_def s_def y_def Let_def)
  have parts: "year_of_era doe div 100 = c" "year_of_era doe mod 100 div 4 = q"
    "year_of_era doe mod 4 = y"
    using q y unfolding year by (rule year_parts)+
  have day: "day_of_year doe = s - 365 * y"
    unfolding day_of_year_def Let_def parts by (simp add: s_def r_def)
  show "0 \<le> year_of_era doe" "year_of_era doe < 400" using year c q y by auto
  show "0 \<le> day_of_year doe" "day_of_year doe \<le> 365"
    unfolding day y_def using s by (auto simp: min_def)
qed

lemma day_of_year_inj:
  assumes "year_of_era a = year_of_era b" "day_of_year a = day_of_year b"
  shows "a = b"
  using assms by (simp add: day_of_year_def Let_def)

lemma month_and_day_range:
  assumes "0 \<le> doy" "doy \<le> 365"
  shows "0 \<le> month_index doy" "month_index doy \<le> 11" "1 \<le> day_of_month doy" "day_of_month doy \<le> 31"
proof -
  define mp where "mp = month_index doy"
  define k where "k = (153 * mp + 2) div 5"
  have mp: "153 * mp \<le> 5 * doy + 2" "5 * doy + 2 < 153 * mp + 153"
    unfolding mp_def month_index_def by simp_all
  have k: "5 * k \<le> 153 * mp + 2" "153 * mp + 2 < 5 * k + 5"
    unfolding k_def by simp_all
  show "0 \<le> month_index doy" "month_index doy \<le> 11"
    using mp assms unfolding mp_def [symmetric] by simp_all
  show "1 \<le> day_of_month doy" "day_of_month doy \<le> 31"
    using mp k unfolding day_of_month_def mp_def [symmetric] k_def [symmetric] by simp_all
qed

lemma radix_unique:
  fixes a :: int
  assumes eq: "a + 400 * e = b + 400 * f" and "0 \<le> a" "a < 400" "0 \<le> b" "b < 400"
  shows "a = b \<and> e = f"
proof -
  have "(a + 400 * e) div 400 = e" "(b + 400 * f) div 400 = f" using assms(2-5) by simp_all
  with eq have "e = f" by simp
  with eq show ?thesis by simp
qed

lemma civil_month_inj:
  "0 \<le> a \<Longrightarrow> a \<le> 11 \<Longrightarrow> 0 \<le> b \<Longrightarrow> b \<le> 11 \<Longrightarrow> civil_month a = civil_month b \<Longrightarrow> a = b"
  by (auto simp: civil_month_def split: if_splits)

lemma civil_month_range:
  "0 \<le> mp \<Longrightarrow> mp \<le> 11 \<Longrightarrow> 1 \<le> civil_month mp \<and> civil_month mp \<le> 12"
  by (auto simp: civil_month_def)

lemma day_of_era_range: "0 \<le> day_of_era t" "day_of_era t < 146097"
  by (simp_all add: day_of_era_def)

lemmas day_of_year_range = era_decomposition(3,4) [OF day_of_era_range]
lemmas year_of_era_range = era_decomposition(1,2) [OF day_of_era_range]
lemmas month_day_range = month_and_day_range [OF day_of_year_range]

lemma civil_fields_date_inj:
  assumes date: "same_date (civil_fields t) (civil_fields u)"
  shows "t div 86400 = u div 86400"
proof -
  let ?doy = "\<lambda>x. day_of_year (day_of_era x)"
  let ?m = "\<lambda>x. civil_month (month_index (?doy x))"
  have mr: "1 \<le> ?m x" for x using civil_month_range month_day_range by blast
  have "nat (?m t) = nat (?m u)" "nat (day_of_month (?doy t)) = nat (day_of_month (?doy u))"
    using date by (simp_all add: same_date_def civil_fields_def Let_def)
  with mr [of t] mr [of u] month_day_range(3) [of t] month_day_range(3) [of u]
  have m: "?m t = ?m u" and d: "day_of_month (?doy t) = day_of_month (?doy u)"
    by (simp_all add: eq_nat_nat_iff)
  have mi: "month_index (?doy t) = month_index (?doy u)"
    by (rule civil_month_inj [OF month_day_range(1,2) month_day_range(1,2) m])
  with d have doy: "?doy t = ?doy u" by (simp add: day_of_month_def)
  have y: "year_of_era (day_of_era t) + 400 * era_of t = year_of_era (day_of_era u) + 400 * era_of u"
    using date m by (simp add: same_date_def civil_fields_def Let_def)
  have "year_of_era (day_of_era t) = year_of_era (day_of_era u) \<and> era_of t = era_of u"
    by (rule radix_unique [OF y year_of_era_range year_of_era_range])
  moreover from this doy have "day_of_era t = day_of_era u"
    using day_of_year_inj by blast
  moreover have "x div 86400 + 719468 = era_of x * 146097 + day_of_era x" for x
    unfolding era_of_def day_of_era_def by (rule div_mult_mod_eq [symmetric])
  ultimately have "t div 86400 + 719468 = u div 86400 + 719468" by simp
  then show ?thesis by simp
qed

lemma civil_fields_range: "fields_in_range t (civil_fields t)"
proof -
  have "0 \<le> t mod 86400 div 3600" "0 \<le> t mod 3600 div 60"
    by (simp_all add: pos_imp_zdiv_nonneg_iff)
  with month_day_range(3,4) [of t] civil_month_range [OF month_day_range(1,2) [of t]]
  show ?thesis
    by (simp add: fields_in_range_def civil_fields_def Let_def nat_le_iff le_nat_iff)
qed

lemma gregorian_laws: "calendar_laws gregorian"
proof -
  have small: "\<bar>t\<bar> \<le> 2 ^ 43" if "\<bar>t div 60\<bar> \<le> 138900000000" for t :: int
    using that by simp
  have minute: "gregorian t = gregorian u" if "t div 60 = u div 60" for t u
    using that by (simp only: gregorian_def civil_fields_def era_of_def day_of_era_def minute_parts)
  show ?thesis
    unfolding calendar_laws_def
  proof (intro conjI allI impI)
    fix t a assume "gregorian t = Some a"
    then show "\<bar>t\<bar> \<le> 2 ^ 43" "fields_in_range t a"
      using small [of t] civil_fields_range [of t] by (simp_all add: gregorian_def split: if_splits)
  next
    fix t u a b assume "gregorian t = Some a" "gregorian u = Some b" "same_date a b"
    then show "t div 86400 = u div 86400"
      using civil_fields_date_inj [of t u] by (simp add: gregorian_def split: if_splits)
  next
    fix t u :: int assume "t div 60 = u div 60"
    then show "gregorian t = gregorian u" by (rule minute)
  qed
qed

end
