(* ===== verification/Layout.thy ===== *)
theory Layout
  imports Archive_Types Calendar
begin

text \<open>
  \<^verbatim>\<open>src/archive/layout.rs\<close>: the bucket a timestamp falls into and the paths of the segment
  that holds the bucket's records. The lemmas show that a bucket is the right interval of
  time, how the paths of the two fixed layouts are put together, and when two buckets share
  a path.
\<close>

section \<open>Definitions\<close>

definition aligned_epoch :: "int \<Rightarrow> u32 \<Rightarrow> int result" where
  "aligned_epoch timestamp interval_secs =
     (let interval = uint interval_secs
      in if interval = 0
         then Inl (Panic ''attempt to calculate the remainder with a divisor of zero'')
         else Inr (wrap_i64 (timestamp - timestamp mod interval)))"

definition stream_interval :: "archive_config \<Rightarrow> archive_stream \<Rightarrow> u32" where
  "stream_interval cfg s =
     (case s of Updates \<Rightarrow> ac_updates_interval_secs cfg | Ribs \<Rightarrow> ac_ribs_interval_secs cfg)"

definition fmt_year_month :: "utc_datetime \<Rightarrow> string" where
  "fmt_year_month dt = fmt_int 4 (dt_year dt) @ ''.'' @ fmt_nat 2 (dt_month dt)"

definition fmt_yyyymmdd :: "int \<Rightarrow> nat \<Rightarrow> nat \<Rightarrow> string" where
  "fmt_yyyymmdd y m d = fmt_int 4 y @ fmt_nat 2 m @ fmt_nat 2 d"

definition fmt_hhmm :: "nat \<Rightarrow> nat \<Rightarrow> string" where
  "fmt_hhmm h m = fmt_nat 2 h @ fmt_nat 2 m"

definition render_template ::
  "string \<Rightarrow> string \<Rightarrow> int \<Rightarrow> nat \<Rightarrow> nat \<Rightarrow> nat \<Rightarrow> nat \<Rightarrow> string \<Rightarrow> string" where
  "render_template template collector year month day hour minute ext =
     str_replace ''{ext}'' ext
     (str_replace ''{hhmm}'' (fmt_hhmm hour minute)
     (str_replace ''{yyyymmdd}'' (fmt_yyyymmdd year month day)
     (str_replace ''{dd}'' (fmt_nat 2 day)
     (str_replace ''{mm}'' (fmt_nat 2 month)
     (str_replace ''{yyyy}'' (fmt_int 4 year)
     (str_replace ''{collector}'' collector template))))))"

definition build_custom_relative_path ::
  "string \<Rightarrow> string \<Rightarrow> int \<Rightarrow> nat \<Rightarrow> nat \<Rightarrow> nat \<Rightarrow> nat \<Rightarrow> string \<Rightarrow> path result" where
  "build_custom_relative_path template collector year month day hour minute ext =
     (if \<not> str_contains template ''{collector}'' \<or> \<not> str_contains template ''{yyyymmdd}'' \<or>
         \<not> str_contains template ''{hhmm}''
      then Inl (Msg ''custom template must contain {collector}, {yyyymmdd}, and {hhmm} tokens'')
      else
        (let path = render_template template collector year month day hour minute ext
         in if extension path = None
            then bind_res
                   (ok_or (Msg ''custom template did not produce file name'') (file_name path))
                   (\<lambda>f. Inr (set_file_name path (f @ ''.'' @ ext)))
            else Inr path))"

definition relative_path :: "archive_config \<Rightarrow> archive_stream \<Rightarrow> utc_datetime \<Rightarrow> path result" where
  "relative_path cfg stream dt =
     (let year_month = fmt_year_month dt;
          yyyymmdd = fmt_yyyymmdd (dt_year dt) (dt_month dt) (dt_day dt);
          hhmm = fmt_hhmm (dt_hour dt) (dt_minute dt);
          ext = compression_extension (ac_compression cfg)
      in case ac_layout_profile cfg of
           RouteViews \<Rightarrow>
             (case stream of
                Updates \<Rightarrow> Inr (ac_collector_id cfg @ ''/'' @ year_month @ ''/UPDATES/updates.'' @
                                 yyyymmdd @ ''.'' @ hhmm @ ''.'' @ ext)
              | Ribs \<Rightarrow> Inr (ac_collector_id cfg @ ''/'' @ year_month @ ''/RIBS/rib.'' @
                              yyyymmdd @ ''.'' @ hhmm @ ''.'' @ ext))
         | Ris \<Rightarrow>
             (case stream of
                Updates \<Rightarrow> Inr (ac_collector_id cfg @ ''/'' @ year_month @ ''/updates.'' @
                                 yyyymmdd @ ''.'' @ hhmm @ ''.'' @ ext)
              | Ribs \<Rightarrow> Inr (ac_collector_id cfg @ ''/'' @ year_month @ ''/bview.'' @
                              yyyymmdd @ ''.'' @ hhmm @ ''.'' @ ext))
         | Custom \<Rightarrow>
             bind_res
               (ok_or (Msg ''custom layout profile requires archive.custom_templates'')
                  (ac_custom_templates cfg))
               (\<lambda>templates.
                  build_custom_relative_path
                    (case stream of Updates \<Rightarrow> ct_updates templates | Ribs \<Rightarrow> ct_ribs templates)
                    (ac_collector_id cfg) (dt_year dt) (dt_month dt) (dt_day dt) (dt_hour dt)
                    (dt_minute dt) ext))"

definition tmp_file_name :: "string \<Rightarrow> string" where
  "tmp_file_name f = ''.'' @ str_replace ''/'' ''_'' (trim_start_matches (CHR ''.'') f) @ ''.tmp''"

definition segment_paths ::
  "calendar \<Rightarrow> archive_config \<Rightarrow> archive_stream \<Rightarrow> int \<Rightarrow> seg_paths result" where
  "segment_paths cal cfg stream timestamp =
     bind_res (aligned_epoch timestamp (stream_interval cfg stream)) (\<lambda>aligned.
     bind_res
       (case cal aligned of
          Some dt \<Rightarrow> Inr dt
        | None \<Rightarrow> Inl (Msg (''invalid timestamp '' @ show_int aligned))) (\<lambda>dt.
     bind_res (relative_path cfg stream dt) (\<lambda>rel.
     bind_res
       (case file_name rel of
          Some f \<Rightarrow> Inr (set_file_name rel (tmp_file_name f))
        | None \<Rightarrow> Inl (Msg ''cannot derive temporary file name for archive segment''))
       (\<lambda>tmp_relative.
          Inr \<lparr>sp_tmp_path = join (ac_tmp_root cfg) tmp_relative,
               sp_final_path = join (ac_root cfg) rel,
               sp_relative_path = rel\<rparr>))))"

section \<open>Buckets\<close>

lemma aligned_epoch_Inr:
  "aligned_epoch t i = Inr a \<longleftrightarrow> 0 < uint i \<and> a = wrap_i64 (t - t mod uint i)"
  by (auto simp: aligned_epoch_def Let_def order.strict_iff_order)

lemma align_no_wrap:
  assumes "in_i64 t" "0 < i" "i < 2 ^ 32" "\<bar>wrap_i64 (t - t mod i)\<bar> \<le> 2 ^ 43"
  shows "wrap_i64 (t - t mod i) = t - t mod i"
proof (rule wrap_i64_id, rule ccontr)
  have m: "0 \<le> t mod i" "t mod i < i" using assms(2) by simp_all
  assume "\<not> in_i64 (t - t mod i)"
  with assms(1) m have x: "t - t mod i < - (2 ^ 63)" "- (2 ^ 63) - 2 ^ 32 \<le> t - t mod i"
    using assms(3) by (auto simp: in_i64_def)
  then have "(t - t mod i + 2 ^ 63) mod 2 ^ 64 = t - t mod i + 2 ^ 63 + 2 ^ 64"
    by (subst mod_add_self2 [symmetric]) simp
  with x assms(4) show False by (simp add: wrap_i64_def)
qed

lemma aligned_floor:
  fixes t :: int
  assumes "0 < i"
  shows "i dvd (t - t mod i)" "t - t mod i \<le> t" "t < t - t mod i + i"
  using assms pos_mod_bound [of i t] by (simp_all add: dvd_minus_mod)

lemma aligned_unique:
  fixes t :: int
  assumes "i dvd b" "b \<le> t" "t < b + i"
  shows "t - t mod i = b"
proof -
  from assms(1) obtain k where "b = i * k" by (rule dvdE)
  then have "t mod i = (t - b) mod i" using mod_mult_self2 [of t i "- k"] by simp
  also have "\<dots> = t - b" using assms(2,3) by simp
  finally show ?thesis by simp
qed

lemma uint_u32_less: "uint (i :: u32) < 2 ^ 32"
proof -
  have "uint i < 2 ^ LENGTH(32)" by (rule uint_bounded)
  then show ?thesis by simp
qed

section \<open>Paths of the fixed layouts\<close>

definition dir_prefix :: "archive_config \<Rightarrow> archive_stream \<Rightarrow> string" where
  "dir_prefix cfg s =
     (case (ac_layout_profile cfg, s) of
        (RouteViews, Updates) \<Rightarrow> ''/UPDATES/updates.''
      | (RouteViews, Ribs) \<Rightarrow> ''/RIBS/rib.''
      | (_, Updates) \<Rightarrow> ''/updates.''
      | (_, Ribs) \<Rightarrow> ''/bview.'')"

lemma relative_path_fixed:
  assumes "ac_layout_profile cfg \<noteq> Custom"
  shows "relative_path cfg s dt =
    Inr (ac_collector_id cfg @ ''/'' @ fmt_year_month dt @ dir_prefix cfg s @
         fmt_yyyymmdd (dt_year dt) (dt_month dt) (dt_day dt) @ ''.'' @
         fmt_hhmm (dt_hour dt) (dt_minute dt) @ ''.'' @ compression_extension (ac_compression cfg))"
  using assms
  by (cases "ac_layout_profile cfg"; cases s) (simp_all add: relative_path_def dir_prefix_def Let_def)

lemma length_hhmm [simp]: "h < 100 \<Longrightarrow> m < 100 \<Longrightarrow> length (fmt_hhmm h m) = 4"
  by (simp add: fmt_hhmm_def)

lemma append_eq_len_end:
  assumes "a @ b = c @ d" "length b = length d"
  shows "a = c" "b = d"
  using assms by simp_all

text \<open>The text of a fixed layout's path determines the date and the minute.\<close>

lemma fixed_path_inj:
  assumes eq: "c @ ''/'' @ fmt_year_month a @ p @ fmt_yyyymmdd (dt_year a) (dt_month a) (dt_day a) @
      ''.'' @ fmt_hhmm (dt_hour a) (dt_minute a) @ ''.'' @ e =
    c @ ''/'' @ fmt_year_month b @ p @ fmt_yyyymmdd (dt_year b) (dt_month b) (dt_day b) @
      ''.'' @ fmt_hhmm (dt_hour b) (dt_minute b) @ ''.'' @ e"
    and a: "dt_month a < 100" "dt_day a < 100" "dt_hour a < 100" "dt_minute a < 100"
    and b: "dt_month b < 100" "dt_day b < 100" "dt_hour b < 100" "dt_minute b < 100"
  shows "a = b"
proof -
  let ?Y = "\<lambda>x. fmt_int 4 (dt_year x)"
  let ?M = "\<lambda>x. fmt_nat 2 (dt_month x)"
  let ?D = "\<lambda>x. fmt_nat 2 (dt_day x)"
  have "((?Y a @ ''.'' @ ?M a @ p @ ?Y a @ ?M a) @ ?D a) @ ''.'' @ fmt_hhmm (dt_hour a) (dt_minute a) =
        ((?Y b @ ''.'' @ ?M b @ p @ ?Y b @ ?M b) @ ?D b) @ ''.'' @ fmt_hhmm (dt_hour b) (dt_minute b)"
    using eq by (simp add: fmt_year_month_def fmt_yyyymmdd_def)
  from append_eq_len_end [OF this] a b
  have hm: "fmt_hhmm (dt_hour a) (dt_minute a) = fmt_hhmm (dt_hour b) (dt_minute b)"
    and rest: "(?Y a @ ''.'' @ ?M a @ p @ ?Y a @ ?M a) @ ?D a =
               (?Y b @ ''.'' @ ?M b @ p @ ?Y b @ ?M b) @ ?D b" by simp_all
  from append_eq_len_end [OF rest] a b
  have d: "?D a = ?D b" and rest2: "(?Y a @ ''.'' @ ?M a @ p @ ?Y a) @ ?M a = (?Y b @ ''.'' @ ?M b @ p @ ?Y b) @ ?M b"
    by simp_all
  from append_eq_len_end [OF rest2] a b
  have m: "?M a = ?M b" and rest3: "?Y a @ ''.'' @ ?M a @ p @ ?Y a = ?Y b @ ''.'' @ ?M b @ p @ ?Y b"
    by simp_all
  from rest3 have "length (?Y a @ ''.'' @ ?M a @ p @ ?Y a) = length (?Y b @ ''.'' @ ?M b @ p @ ?Y b)"
    by simp
  with m have "length (?Y a) = length (?Y b)" by simp
  with rest3 have "?Y a = ?Y b" by simp
  moreover from hm a b have "fmt_nat 2 (dt_hour a) = fmt_nat 2 (dt_hour b)"
    "fmt_nat 2 (dt_minute a) = fmt_nat 2 (dt_minute b)"
    by (simp_all add: fmt_hhmm_def)
  ultimately show ?thesis using d m
    by (intro utc_datetime.equality) (simp_all add: fmt_int_inj)
qed

lemma fields_small:
  "fields_in_range t a \<Longrightarrow>
     dt_month a < 100 \<and> dt_day a < 100 \<and> dt_hour a < 100 \<and> dt_minute a < 100"
proof -
  assume r: "fields_in_range t a"
  have "t mod 86400 div 3600 < 24" "t mod 3600 div 60 < 60"
    by (simp_all add: div_less_iff_less_mult)
  with r have "int (dt_hour a) < 24" "int (dt_minute a) < 60" by (simp_all only: fields_in_range_def)
  with r show ?thesis by (simp add: fields_in_range_def)
qed

lemma join_inj: "is_absolute q = is_absolute q' \<Longrightarrow> join r q = join r q' \<Longrightarrow> q = q'"
  by (auto simp: join_def push_def split: if_splits)

lemma segment_paths_Inr:
  assumes "segment_paths cal cfg s t = Inr p" and "ac_layout_profile cfg \<noteq> Custom"
  obtains a dt where "aligned_epoch t (stream_interval cfg s) = Inr a" "cal a = Some dt"
    "relative_path cfg s dt = Inr (sp_relative_path p)"
    "sp_final_path p = join (ac_root cfg) (sp_relative_path p)"
  using assms by (auto simp: segment_paths_def bind_res_Inr split: option.splits)

lemma is_absolute_collector:
  "is_absolute (c @ ''/'' @ x) = is_absolute (c @ ''/'' @ y)"
  by (cases c) (simp_all add: is_absolute_def)

text \<open>
  The same paths split into directory and file name, for both fixed layouts.
\<close>

definition seg_subdir :: "archive_config \<Rightarrow> archive_stream \<Rightarrow> utc_datetime \<Rightarrow> string \<times> string" where
  "seg_subdir cfg s dt =
     (case ac_layout_profile cfg of
        RouteViews \<Rightarrow> (ac_collector_id cfg @ ''/'' @ fmt_year_month dt,
                        case s of Updates \<Rightarrow> ''UPDATES'' | Ribs \<Rightarrow> ''RIBS'')
      | _ \<Rightarrow> (ac_collector_id cfg, fmt_year_month dt))"

definition seg_dir :: "archive_config \<Rightarrow> archive_stream \<Rightarrow> utc_datetime \<Rightarrow> path" where
  "seg_dir cfg s dt = fst (seg_subdir cfg s dt) @ ''/'' @ snd (seg_subdir cfg s dt)"

definition seg_file :: "archive_config \<Rightarrow> archive_stream \<Rightarrow> utc_datetime \<Rightarrow> string" where
  "seg_file cfg s dt =
     (case s of Updates \<Rightarrow> ''updates.''
      | Ribs \<Rightarrow> (case ac_layout_profile cfg of RouteViews \<Rightarrow> ''rib.'' | _ \<Rightarrow> ''bview.'')) @
     fmt_yyyymmdd (dt_year dt) (dt_month dt) (dt_day dt) @ ''.'' @
     fmt_hhmm (dt_hour dt) (dt_minute dt) @ ''.'' @ compression_extension (ac_compression cfg)"

lemma relative_path_split:
  assumes "ac_layout_profile cfg \<noteq> Custom"
  shows "relative_path cfg s dt = Inr (seg_dir cfg s dt @ slash # seg_file cfg s dt)"
  using assms unfolding relative_path_fixed [OF assms]
  by (cases "ac_layout_profile cfg"; cases s)
     (simp_all add: dir_prefix_def seg_dir_def seg_subdir_def seg_file_def)

lemma slash_not_digit: "slash \<notin> set (fmt_nat w n)" "slash \<notin> set (fmt_int w i)"
proof -
  have nat: "slash \<notin> set (fmt_nat v n)" for v n
    using fmt_nat_digits [of slash v n] by (auto simp: is_digit_def)
  then show "slash \<notin> set (fmt_nat w n)" .
  show "slash \<notin> set (fmt_int w i)"
    using nat [of w "nat i"] nat [of "w - 1" "nat (- i)"] by (simp add: fmt_int_def fmt_nat_def)
qed

lemma slash_not_ext: "slash \<notin> set (compression_extension k)"
  by (cases k) (simp_all add: compression_extension_def)

lemma plain_seg_file: "plain_name (seg_file cfg s dt)"
  by (cases s; cases "ac_layout_profile cfg")
     (simp_all add: plain_name_def seg_file_def fmt_yyyymmdd_def fmt_hhmm_def slash_not_digit slash_not_ext)

lemma plain_seg_subdir: "plain_name (snd (seg_subdir cfg s dt))"
proof -
  have "fmt_year_month dt \<noteq> ''.''" "fmt_year_month dt \<noteq> ''..''"
    using fmt_nat_digits [of "CHR ''.''" 2 "dt_month dt"]
    by (auto simp: fmt_year_month_def append_eq_Cons_conv fmt_nat_def zero_pad_def Cons_eq_append_conv)
  then have "plain_name (fmt_year_month dt)"
    by (simp add: plain_name_def fmt_year_month_def slash_not_digit)
  then show ?thesis
    by (cases s; cases "ac_layout_profile cfg") (simp_all add: seg_subdir_def plain_name_def)
qed

lemma tmp_file_name_seg: "tmp_file_name (seg_file cfg s dt) = ''.'' @ seg_file cfg s dt @ ''.tmp''"
proof -
  have "\<not> str_contains (seg_file cfg s dt) ''/''"
    using plain_nameD(1) [OF plain_seg_file, of cfg s dt] by (auto simp: str_contains_iff)
  moreover have "trim_start_matches (CHR ''.'') (seg_file cfg s dt) = seg_file cfg s dt"
    by (rule trim_start_matches_id, cases s; cases "ac_layout_profile cfg") (simp_all add: seg_file_def)
  ultimately show ?thesis by (simp add: tmp_file_name_def str_replace_absent)
qed

lemma segment_paths_fixed:
  assumes "ac_layout_profile cfg \<noteq> Custom"
    and "aligned_epoch t (stream_interval cfg s) = Inr a" and "cal a = Some dt"
  shows "segment_paths cal cfg s t =
    Inr \<lparr>sp_tmp_path = join (ac_tmp_root cfg) (seg_dir cfg s dt @ ''/.'' @ seg_file cfg s dt @ ''.tmp''),
         sp_final_path = join (ac_root cfg) (seg_dir cfg s dt @ ''/'' @ seg_file cfg s dt),
         sp_relative_path = seg_dir cfg s dt @ ''/'' @ seg_file cfg s dt\<rparr>"
proof -
  let ?k = "CHR ''.'' # seg_file cfg s dt @ ''.tmp''"
  have set: "set_file_name (seg_dir cfg s dt @ slash # seg_file cfg s dt) ?k = seg_dir cfg s dt @ slash # ?k"
    using set_file_name_append [OF plain_seg_file plain_seg_subdir, of ?k "fst (seg_subdir cfg s dt)"]
    by (simp add: seg_dir_def is_absolute_def)
  show ?thesis
    using assms file_name_append [OF plain_seg_file] set
    by (simp add: segment_paths_def relative_path_split tmp_file_name_seg)
qed

section \<open>Properties\<close>

lemma aligned_epoch_plain:
  assumes "- (2 ^ 63) + 2 ^ 32 \<le> t" "t < 2 ^ 63" "i \<noteq> 0"
  shows "aligned_epoch t i = Inr (t - t mod uint i)"
proof -
  have i: "0 < uint i" using assms(3) by (simp add: order.strict_iff_order uint_0_iff)
  have "0 \<le> t mod uint i" using i by simp
  moreover have "t mod uint i < 2 ^ 32"
    by (rule order.strict_trans [OF pos_mod_bound [OF i] uint_u32_less])
  ultimately have "in_i64 (t - t mod uint i)" using assms(1,2) by (simp add: in_i64_def)
  then show ?thesis using i by (simp add: aligned_epoch_def Let_def)
qed

text \<open>
  C28: for every interval but zero, and every timestamp that is not at the lower end of
  \<^verbatim>\<open>i64\<close>, \<^verbatim>\<open>aligned_epoch\<close> returns the one multiple of the interval whose bucket of
  that length contains the timestamp.
\<close>

theorem aligned_epoch_bucket:
  assumes "- (2 ^ 63) + 2 ^ 32 \<le> t" "t < 2 ^ 63" "i \<noteq> 0"
  shows "\<exists>a. aligned_epoch t i = Inr a \<and>
    (\<forall>b. uint i dvd b \<and> b \<le> t \<and> t < b + uint i \<longleftrightarrow> b = a)"
proof -
  have i: "0 < uint i" using assms(3) by (simp add: order.strict_iff_order uint_0_iff)
  with aligned_floor [OF i, of t]
  have "\<forall>b. uint i dvd b \<and> b \<le> t \<and> t < b + uint i \<longleftrightarrow> b = t - t mod uint i"
    using aligned_unique by metis
  with aligned_epoch_plain [OF assms] show ?thesis by blast
qed

theorem aligned_epoch_bucket_witness:
  "\<exists>a. aligned_epoch 1700000001 900 = Inr a \<and>
    (\<forall>b. uint (900 :: u32) dvd b \<and> b \<le> 1700000001 \<and> 1700000001 < b + uint (900 :: u32) \<longleftrightarrow> b = a)"
  by (rule aligned_epoch_bucket) simp_all

text \<open>
  C27: with a fixed layout and an interval of whole minutes, two timestamps get the same
  final path exactly when they fall into the same bucket: no bucket overwrites another.
\<close>

theorem segment_paths_injective:
  assumes laws: "calendar_laws cal" and fixed: "ac_layout_profile cfg \<noteq> Custom"
    and minutes: "60 dvd uint (stream_interval cfg s)"
    and i64: "in_i64 t" "in_i64 u"
    and p: "segment_paths cal cfg s t = Inr p" and q: "segment_paths cal cfg s u = Inr q"
  shows "sp_final_path p = sp_final_path q \<longleftrightarrow>
    aligned_epoch t (stream_interval cfg s) = aligned_epoch u (stream_interval cfg s)"
proof
  assume "aligned_epoch t (stream_interval cfg s) = aligned_epoch u (stream_interval cfg s)"
  then have "segment_paths cal cfg s t = segment_paths cal cfg s u" by (simp add: segment_paths_def)
  with p q show "sp_final_path p = sp_final_path q" by simp
next
  let ?i = "uint (stream_interval cfg s)"
  assume eq: "sp_final_path p = sp_final_path q"
  obtain a dt where a: "aligned_epoch t (stream_interval cfg s) = Inr a" "cal a = Some dt"
    "relative_path cfg s dt = Inr (sp_relative_path p)"
    "sp_final_path p = join (ac_root cfg) (sp_relative_path p)"
    using p fixed by (rule segment_paths_Inr)
  obtain b du where b: "aligned_epoch u (stream_interval cfg s) = Inr b" "cal b = Some du"
    "relative_path cfg s du = Inr (sp_relative_path q)"
    "sp_final_path q = join (ac_root cfg) (sp_relative_path q)"
    using q fixed by (rule segment_paths_Inr)
  note rel = a(3) [unfolded relative_path_fixed [OF fixed], simplified]
    b(3) [unfolded relative_path_fixed [OF fixed], simplified]
  have "is_absolute (sp_relative_path p) = is_absolute (sp_relative_path q)"
    unfolding rel [symmetric] by (cases "ac_collector_id cfg") (simp_all add: is_absolute_def)
  then have "sp_relative_path p = sp_relative_path q" using eq a(4) b(4) join_inj by metis
  then have same: "dt = du"
    using rel fields_small [OF calendar_lawsD(2) [OF laws a(2)]]
      fields_small [OF calendar_lawsD(2) [OF laws b(2)]]
    by (intro fixed_path_inj [of "ac_collector_id cfg" dt "dir_prefix cfg s"
          "compression_extension (ac_compression cfg)" du]) auto
  have minute: "a div 60 = b div 60"
    by (rule calendar_minute [OF laws a(2) b(2)]) (simp_all add: same same_date_def)
  have dvd: "60 dvd x" if "aligned_epoch y (stream_interval cfg s) = Inr x" "cal x = Some d" "in_i64 y"
    for x y d
  proof -
    have "x = y - y mod ?i"
      using that align_no_wrap [OF that(3), of ?i] calendar_lawsD(1) [OF laws that(2)] uint_u32_less
      by (auto simp: aligned_epoch_Inr)
    moreover have "0 < ?i" using that(1) by (simp add: aligned_epoch_Inr)
    ultimately show ?thesis using aligned_floor(1) [of ?i y] minutes by (simp add: dvd_trans)
  qed
  have "a = b"
    using minute dvd [OF a(1,2) i64(1)] dvd [OF b(1,2) i64(2)] by (metis dvd_mult_div_cancel)
  then show "aligned_epoch t (stream_interval cfg s) = aligned_epoch u (stream_interval cfg s)"
    using a(1) b(1) by simp
qed

lemma segment_paths_default:
  assumes "ac_layout_profile cfg \<noteq> Custom" "\<bar>t\<bar> \<le> 2000000000" "stream_interval cfg s \<noteq> 0"
    "uint (stream_interval cfg s) \<le> 86400"
  obtains p where "segment_paths gregorian cfg s t = Inr p"
proof -
  let ?i = "uint (stream_interval cfg s)"
  have i: "0 < ?i" using assms(3) by (simp add: order.strict_iff_order uint_0_iff)
  then have m: "0 \<le> t mod ?i" "t mod ?i < ?i" by simp_all
  have "aligned_epoch t (stream_interval cfg s) = Inr (t - t mod ?i)"
    using assms by (intro aligned_epoch_plain) auto
  moreover have "gregorian (t - t mod ?i) = Some (civil_fields (t - t mod ?i))"
    using assms(2,4) m by (simp add: gregorian_def)
  ultimately show thesis using segment_paths_fixed [OF assms(1)] that by blast
qed

theorem segment_paths_injective_witness:
  "\<exists>p q. segment_paths gregorian default_archive Updates 1700000001 = Inr p \<and>
     segment_paths gregorian default_archive Updates 1700000900 = Inr q \<and>
     (sp_final_path p = sp_final_path q \<longleftrightarrow>
      aligned_epoch 1700000001 (stream_interval default_archive Updates) =
      aligned_epoch 1700000900 (stream_interval default_archive Updates))"
proof -
  have cfg: "ac_layout_profile default_archive \<noteq> Custom" "stream_interval default_archive Updates = 900"
    by (simp_all add: default_archive_def stream_interval_def config_defaults)
  obtain p where p: "segment_paths gregorian default_archive Updates 1700000001 = Inr p"
    by (rule segment_paths_default [OF cfg(1)]) (auto simp: cfg(2))
  obtain q where q: "segment_paths gregorian default_archive Updates 1700000900 = Inr q"
    by (rule segment_paths_default [OF cfg(1)]) (auto simp: cfg(2))
  have "sp_final_path p = sp_final_path q \<longleftrightarrow>
      aligned_epoch 1700000001 (stream_interval default_archive Updates) =
      aligned_epoch 1700000900 (stream_interval default_archive Updates)"
    by (rule segment_paths_injective [OF gregorian_laws cfg(1) _ _ _ p q])
       (simp_all add: cfg(2) in_i64_def)
  with p q show ?thesis by blast
qed



lemma file_name_join: "plain_name f \<Longrightarrow> file_name (join r (d @ slash # f)) = Some f"
proof -
  assume f: "plain_name f"
  have "\<exists>x. join r (d @ slash # f) = x @ slash # f"
    by (auto simp: join_def push_def intro: exI [of _ d] exI [of _ "r @ slash # d"] exI [of _ "r @ d"])
  with file_name_append [OF f] show ?thesis by metis
qed

lemma segment_paths_last:
  assumes fixed: "ac_layout_profile cfg \<noteq> Custom" and p: "segment_paths cal cfg s t = Inr p"
  shows "last (sp_tmp_path p) = CHR ''p''" "last (sp_final_path p) \<noteq> CHR ''p''"
proof -
  obtain a dt where "aligned_epoch t (stream_interval cfg s) = Inr a" "cal a = Some dt"
    using p fixed by (rule segment_paths_Inr)
  with segment_paths_fixed [OF fixed, of t s a cal dt] p
  have paths: "sp_tmp_path p = join (ac_tmp_root cfg) (seg_dir cfg s dt @ slash # ''.'' @ seg_file cfg s dt @ ''.tmp'')"
    "sp_final_path p = join (ac_root cfg) (seg_dir cfg s dt @ slash # seg_file cfg s dt)" by auto
  show "last (sp_tmp_path p) = CHR ''p''"
    unfolding paths by (subst last_join) simp_all
  have "last (seg_file cfg s dt) = last (compression_extension (ac_compression cfg))" "seg_file cfg s dt \<noteq> []"
    by (simp_all add: seg_file_def compression_extension_def split: compression_kind.splits archive_stream.splits)
  then show "last (sp_final_path p) \<noteq> CHR ''p''"
    unfolding paths by (subst last_join) (simp_all add: compression_extension_def split: compression_kind.splits)
qed

lemma tmp_path_apart:
  assumes "ac_layout_profile cfg \<noteq> Custom"
    and "segment_paths cal cfg s t = Inr p" "segment_paths cal cfg s' t' = Inr p'"
  shows "sp_tmp_path p \<noteq> sp_final_path p'" "sp_tmp_path p \<noteq> sp_final_path p' @ ''.json''"
proof -
  note tmp = segment_paths_last(1) [OF assms(1,2)]
  show "sp_tmp_path p \<noteq> sp_final_path p'"
    using tmp segment_paths_last(2) [OF assms(1,3)] by metis
  show "sp_tmp_path p \<noteq> sp_final_path p' @ ''.json''"
  proof
    assume "sp_tmp_path p = sp_final_path p' @ ''.json''"
    then have "last (sp_tmp_path p) = CHR ''n''" by simp
    with tmp show False by simp
  qed
qed

text \<open>
  in the fixed layouts the temporary file of a segment is named after the final file,
  with a leading dot and the suffix \<^verbatim>\<open>.tmp\<close>, and it is never the final file or the
  final file's manifest, whatever the two roots are.
\<close>

theorem segment_paths_tmp_distinct:
  assumes fixed: "ac_layout_profile cfg \<noteq> Custom" and p: "segment_paths cal cfg s t = Inr p"
  shows "\<exists>f. file_name (sp_final_path p) = Some f \<and>
    file_name (sp_tmp_path p) = Some (''.'' @ f @ ''.tmp'') \<and> sp_tmp_path p \<noteq> sp_final_path p \<and>
    sp_tmp_path p \<noteq> sp_final_path p @ ''.json''"
proof -
  obtain a dt where "aligned_epoch t (stream_interval cfg s) = Inr a" "cal a = Some dt"
    using p fixed by (rule segment_paths_Inr)
  with segment_paths_fixed [OF fixed, of t s a cal dt] p
  have paths: "sp_tmp_path p = join (ac_tmp_root cfg) (seg_dir cfg s dt @ slash # ''.'' @ seg_file cfg s dt @ ''.tmp'')"
    "sp_final_path p = join (ac_root cfg) (seg_dir cfg s dt @ slash # seg_file cfg s dt)" by auto
  note json = tmp_path_apart(2) [OF fixed p p]
  have "plain_name (''.'' @ seg_file cfg s dt @ ''.tmp'')"
    using plain_nameD [OF plain_seg_file, of cfg s dt] by (simp add: plain_name_def)
  then have "file_name (sp_tmp_path p) = Some (''.'' @ seg_file cfg s dt @ ''.tmp'')"
    unfolding paths by (rule file_name_join)
  moreover have "file_name (sp_final_path p) = Some (seg_file cfg s dt)"
    unfolding paths by (rule file_name_join [OF plain_seg_file])
  moreover have "length (''.'' @ seg_file cfg s dt @ ''.tmp'') \<noteq> length (seg_file cfg s dt)"
    by simp
  ultimately show ?thesis using json by auto
qed

theorem segment_paths_tmp_distinct_witness:
  "\<exists>p f. segment_paths gregorian default_archive Ribs 1700000001 = Inr p \<and>
    file_name (sp_final_path p) = Some f \<and>
    file_name (sp_tmp_path p) = Some (''.'' @ f @ ''.tmp'') \<and> sp_tmp_path p \<noteq> sp_final_path p"
proof -
  have cfg: "ac_layout_profile default_archive \<noteq> Custom" "stream_interval default_archive Ribs = 7200"
    by (simp_all add: default_archive_def stream_interval_def config_defaults)
  obtain p where p: "segment_paths gregorian default_archive Ribs 1700000001 = Inr p"
    by (rule segment_paths_default [OF cfg(1)]) (auto simp: cfg(2))
  from segment_paths_tmp_distinct [OF cfg(1) p] p show ?thesis by blast
qed

text \<open>
  under a validated configuration the rib buckets are made of whole update buckets: the
  start of a rib bucket is the start of an update bucket, and timestamps of one update bucket
  belong to one rib bucket.
\<close>

theorem buckets_nested:
  assumes valid: "archive_validate cfg = Inr ()" and enabled: "ac_enabled cfg"
    and t: "0 \<le> t" "t < 2 ^ 63"
    and r: "aligned_epoch t (stream_interval cfg Ribs) = Inr r"
    and a: "aligned_epoch t (stream_interval cfg Updates) = Inr a"
  shows "aligned_epoch r (stream_interval cfg Updates) = Inr r \<and>
    aligned_epoch a (stream_interval cfg Ribs) = Inr r"
proof -
  let ?u = "uint (ac_updates_interval_secs cfg)" and ?r = "uint (ac_ribs_interval_secs cfg)"
  have ok: "archive_ok cfg" using valid enabled archive_validate_ok_iff by blast
  then have n: "0 < unat (ac_updates_interval_secs cfg)" "0 < unat (ac_ribs_interval_secs cfg)"
    "unat (ac_updates_interval_secs cfg) dvd unat (ac_ribs_interval_secs cfg)"
    by (simp_all only: archive_ok_def)
  then have u: "0 < ?u" and rp: "0 < ?r" and dvd: "?u dvd ?r"
    unfolding uint_nat by (simp_all only: of_nat_0_less_iff int_dvd_int_iff)
  have nz: "ac_updates_interval_secs cfg \<noteq> 0" "ac_ribs_interval_secs cfg \<noteq> 0"
    using u rp by auto
  have small: "- (2 ^ 63) + 2 ^ 32 \<le> t" using t(1) by simp
  have r_eq: "r = t - t mod ?r" and a_eq: "a = t - t mod ?u"
    using r a aligned_epoch_plain [OF small t(2)] nz by (simp_all add: stream_interval_def)
  have bounds: "0 \<le> x - x mod i" "x - x mod i \<le> x" if "0 < i" "0 \<le> x" for x i :: int
    using that zmod_le_nonneg_dividend by simp_all
  have r_range: "- (2 ^ 63) + 2 ^ 32 \<le> r" "r < 2 ^ 63"
    and a_range: "- (2 ^ 63) + 2 ^ 32 \<le> a" "a < 2 ^ 63"
    using bounds [OF rp t(1)] bounds [OF u t(1)] t(2) unfolding r_eq [symmetric] a_eq [symmetric]
    by simp_all
  have "?u dvd r" using aligned_floor(1) [OF rp, of t] dvd unfolding r_eq by (rule dvd_trans [rotated])
  then have "r mod ?u = 0" by simp
  moreover have "a - a mod ?r = r"
  proof -
    have "?u dvd r - a" using \<open>?u dvd r\<close> aligned_floor(1) [OF u, of t] unfolding a_eq by (rule dvd_diff)
    moreover have "r < a + ?u" using aligned_floor(2) [OF rp, of t] aligned_floor(3) [OF u, of t]
      unfolding a_eq r_eq by linarith
    ultimately have "r \<le> a" using zdvd_imp_le [of ?u "r - a"] by linarith
    moreover have "a < r + ?r" using aligned_floor(2) [OF u, of t] aligned_floor(3) [OF rp, of t]
      unfolding a_eq r_eq by linarith
    moreover have "?r dvd r" using aligned_floor(1) [OF rp, of t] unfolding r_eq .
    ultimately show ?thesis by (intro aligned_unique)
  qed
  ultimately show ?thesis
    using aligned_epoch_plain [OF r_range nz(1)] aligned_epoch_plain [OF a_range nz(2)]
    by (simp add: stream_interval_def)
qed

theorem buckets_nested_witness:
  "aligned_epoch 1699999200 (stream_interval (default_archive\<lparr>ac_enabled := True\<rparr>) Updates) = Inr 1699999200 \<and>
   aligned_epoch 1700000100 (stream_interval (default_archive\<lparr>ac_enabled := True\<rparr>) Ribs) = Inr 1699999200"
proof -
  let ?c = "default_archive\<lparr>ac_enabled := True\<rparr>"
  have i: "stream_interval ?c Updates = 900" "stream_interval ?c Ribs = 7200"
    by (simp_all add: stream_interval_def default_archive_def config_defaults)
  have "archive_validate ?c = Inr ()" by code_simp
  then show ?thesis
    by (rule buckets_nested [where t = 1700000101])
       (simp_all add: i aligned_epoch_def wrap_i64_def)
qed

end
