(* ===== verification/Snapshot.thy ===== *)
theory Snapshot
  imports Archive_Types
begin

text \<open>
  \<^verbatim>\<open>src/archive/snapshot.rs\<close>: MRT records for updates, peer states and RIB snapshots. The
  crate \<^verbatim>\<open>bgpkit_parser\<close> parses BGP messages and attributes and encodes MRT messages and
  headers; the crate \<^verbatim>\<open>ipnet\<close> checks prefixes. Both are parameters, gathered in \<open>mrt_ext\<close>;
  the types of messages, attributes and states are type variables.
\<close>

datatype asn_length = Bits16 | Bits32

datatype entry_type = BGP4MP | TABLE_DUMP_V2

datatype mrt_subtype = MessageAs4 | StateChangeAs4 | PeerIndexTableType | RibIpv4Unicast

record common_header =
  ch_timestamp :: u32
  ch_microsecond_timestamp :: "u32 option"
  ch_entry_type :: entry_type
  ch_entry_subtype :: u16
  ch_length :: u32

record 'm bgp4mp_message =
  bm_peer_asn :: u32
  bm_local_asn :: u32
  bm_interface_index :: u16
  bm_peer_ip :: ip_addr
  bm_local_ip :: ip_addr
  bm_bgp_message :: 'm

record 's bgp4mp_state_change =
  bs_peer_asn :: u32
  bs_local_asn :: u32
  bs_interface_index :: u16
  bs_peer_ip :: ip_addr
  bs_local_addr :: ip_addr
  bs_old_state :: 's
  bs_new_state :: 's

datatype mrt_peer = Peer ipv4_addr ip_addr u32

record peer_index_table =
  pt_collector_bgp_id :: ipv4_addr
  pt_view_name :: string
  pt_id_peer_map :: "u16 \<Rightarrow> mrt_peer option"
  pt_peer_ip_id_map :: "ip_addr \<Rightarrow> u16 option"

record 'a rib_entry =
  re_peer_index :: u16
  re_originated_time :: u32
  re_path_id :: "u32 option"
  re_attributes :: 'a

record 'a rib_afi_entries =
  ra_sequence_number :: u32
  ra_prefix :: ip_net
  ra_rib_entries :: "'a rib_entry list"

datatype ('m, 's, 'a) mrt_message =
    Bgp4MpMessage "'m bgp4mp_message"
  | Bgp4MpStateChange "'s bgp4mp_state_change"
  | PeerIndexTable peer_index_table
  | RibAfi "'a rib_afi_entries"

record ('m, 's, 'a) mrt_ext =
  bx_parse_bgp_message :: "asn_length \<Rightarrow> bytes \<Rightarrow> 'm result"
  bx_is_update :: "'m \<Rightarrow> bool"
  bx_msg_type_debug :: "'m \<Rightarrow> string"
  bx_bgp_state :: "u16 \<Rightarrow> 's option"
  bx_ipv4_net_new :: "ipv4_addr \<Rightarrow> u8 \<Rightarrow> ip_net result"
  bx_show_net :: "ip_net \<Rightarrow> string"
  bx_parse_attributes :: "bytes \<Rightarrow> 'a result"
  bx_subtype :: "mrt_subtype \<Rightarrow> u16"
  bx_encode :: "('m, 's, 'a) mrt_message \<Rightarrow> u16 \<Rightarrow> bytes"
  bx_header_encode :: "common_header \<Rightarrow> bytes"
  bx_header_decode :: "bytes \<Rightarrow> common_header option"

section \<open>Operations\<close>

definition encode_mrt_message ::
  "('m, 's, 'a, 'y) mrt_ext_scheme \<Rightarrow> u32 \<Rightarrow> entry_type \<Rightarrow> u16 \<Rightarrow> ('m, 's, 'a) mrt_message \<Rightarrow> bytes" where
  "encode_mrt_message B timestamp entry_type subtype message =
     (let payload = bx_encode B message subtype;
          header = \<lparr>ch_timestamp = timestamp, ch_microsecond_timestamp = None,
            ch_entry_type = entry_type, ch_entry_subtype = subtype,
            ch_length = of_nat (length payload)\<rparr>
      in bx_header_encode B header @ payload)"

text \<open>Four-byte AS numbers first, two-byte AS numbers when that does not parse.\<close>

definition parse_update_message :: "('m, 's, 'a, 'y) mrt_ext_scheme \<Rightarrow> bytes \<Rightarrow> 'm result" where
  "parse_update_message B raw =
     (let parsed = (case bx_parse_bgp_message B Bits32 raw of
                      Inr m \<Rightarrow> Inr m
                    | Inl _ \<Rightarrow> bx_parse_bgp_message B Bits16 raw)
      in case parsed of
           Inl e \<Rightarrow> Inl (Msg (''failed to parse BGP message with bgpkit-parser: '' @ err_to_string e))
         | Inr m \<Rightarrow>
             if \<not> bx_is_update B m
             then Inl (Msg (''expected BGP UPDATE message payload, got '' @ bx_msg_type_debug B m))
             else Inr m)"

definition encode_bgp4mp_message_as4 ::
  "('m, 's, 'a, 'y) mrt_ext_scheme \<Rightarrow> update_record_input \<Rightarrow> bytes result" where
  "encode_bgp4mp_message_as4 B input =
     bind_res (parse_update_message B (ur_bgp_message input)) (\<lambda>bgp_message.
       Inr (encode_mrt_message B (i64_as_u32 (ur_timestamp input)) BGP4MP (bx_subtype B MessageAs4)
         (Bgp4MpMessage
            \<lparr>bm_peer_asn = ur_peer_asn input, bm_local_asn = ur_local_asn input,
             bm_interface_index = ur_interface_index input, bm_peer_ip = V4 (ur_peer_ip input),
             bm_local_ip = V4 (ur_local_ip input), bm_bgp_message = bgp_message\<rparr>)))"

definition bgp_state_of :: "('m, 's, 'a, 'y) mrt_ext_scheme \<Rightarrow> string \<Rightarrow> u16 \<Rightarrow> 's result" where
  "bgp_state_of B what v =
     (case bx_bgp_state B v of
        Some s \<Rightarrow> Inr s
      | None \<Rightarrow> Inl (Msg (''invalid '' @ what @ '' value '' @ show_nat (unat v))))"

definition encode_bgp4mp_state_change_as4 ::
  "('m, 's, 'a, 'y) mrt_ext_scheme \<Rightarrow> peer_state_record_input \<Rightarrow> bytes result" where
  "encode_bgp4mp_state_change_as4 B input =
     bind_res (bgp_state_of B ''old_state'' (ps_old_state input)) (\<lambda>old_state.
     bind_res (bgp_state_of B ''new_state'' (ps_new_state input)) (\<lambda>new_state.
       Inr (encode_mrt_message B (i64_as_u32 (ps_timestamp input)) BGP4MP (bx_subtype B StateChangeAs4)
         (Bgp4MpStateChange
            \<lparr>bs_peer_asn = ps_peer_asn input, bs_local_asn = ps_local_asn input,
             bs_interface_index = ps_interface_index input, bs_peer_ip = V4 (ps_peer_ip input),
             bs_local_addr = V4 (ps_local_ip input), bs_old_state = old_state,
             bs_new_state = new_state\<rparr>))))"

definition snapshot_peer_of :: "snapshot_peer \<Rightarrow> mrt_peer" where
  "snapshot_peer_of p = Peer (sn_peer_bgp_id p) (sn_peer_ip p) (sn_peer_asn p)"

text \<open>The loop over the enumerated peers; the index is cast to 16 bits.\<close>

fun index_peers ::
  "nat \<Rightarrow> snapshot_peer list \<Rightarrow> (u16 \<Rightarrow> mrt_peer option) \<times> (ip_addr \<Rightarrow> u16 option) \<Rightarrow>
   (u16 \<Rightarrow> mrt_peer option) \<times> (ip_addr \<Rightarrow> u16 option)" where
  "index_peers idx [] maps = maps"
| "index_peers idx (p # ps) (ids, ips) =
     index_peers (Suc idx) ps
       (ids(of_nat idx \<mapsto> snapshot_peer_of p), ips(sn_peer_ip p \<mapsto> of_nat idx))"

definition build_peer_index_table :: "rib_snapshot_input \<Rightarrow> peer_index_table result" where
  "build_peer_index_table snapshot =
     (if length (rs_peers snapshot) > 65535
      then Inl (Msg ''peer count exceeds TABLE_DUMP_V2 limit'')
      else case index_peers 0 (rs_peers snapshot) (Map.empty, Map.empty) of
             (ids, ips) \<Rightarrow>
               Inr \<lparr>pt_collector_bgp_id = rs_collector_bgp_id snapshot,
                    pt_view_name = rs_view_name snapshot, pt_id_peer_map = ids,
                    pt_peer_ip_id_map = ips\<rparr>)"

definition show_prefix :: "ipv4_addr \<Rightarrow> u8 \<Rightarrow> string" where
  "show_prefix p n = show_ipv4 p @ ''/'' @ show_nat (unat n)"

definition build_rib_record ::
  "('m, 's, 'a, 'y) mrt_ext_scheme \<Rightarrow> u32 \<Rightarrow> nat \<Rightarrow> peer_index_table \<Rightarrow> snapshot_route \<Rightarrow> bytes result" where
  "build_rib_record B timestamp peer_count pit route =
     (if sr_prefix_len route > 32
      then Inl (Msg (''invalid IPv4 prefix length '' @ show_nat (unat (sr_prefix_len route))))
      else if pt_id_peer_map pit (sr_peer_index route) = None
      then Inl (Msg (''route references unknown peer_index '' @ show_nat (unat (sr_peer_index route)) @
             '' (peers: '' @ show_nat peer_count @ '')''))
      else
        bind_res
          (with_context (''invalid route prefix '' @ show_prefix (sr_prefix route) (sr_prefix_len route))
             (bx_ipv4_net_new B (sr_prefix route) (sr_prefix_len route))) (\<lambda>ipv4_prefix.
        bind_res
          (with_context (''failed parsing route attributes for prefix '' @ bx_show_net B ipv4_prefix)
             (bx_parse_attributes B (sr_path_attributes route))) (\<lambda>attributes.
          Inr (encode_mrt_message B timestamp TABLE_DUMP_V2 (bx_subtype B RibIpv4Unicast)
            (RibAfi
               \<lparr>ra_sequence_number = sr_sequence route, ra_prefix = ipv4_prefix,
                ra_rib_entries =
                  [\<lparr>re_peer_index = sr_peer_index route, re_originated_time = sr_originated_time route,
                    re_path_id = None, re_attributes = attributes\<rparr>]\<rparr>)))))"

definition build_table_dump_v2 ::
  "('m, 's, 'a, 'y) mrt_ext_scheme \<Rightarrow> rib_snapshot_input \<Rightarrow> bytes list result" where
  "build_table_dump_v2 B snapshot =
     bind_res (build_peer_index_table snapshot) (\<lambda>pit.
     bind_res
       (collect_res
          (build_rib_record B (i64_as_u32 (rs_timestamp snapshot)) (length (rs_peers snapshot)) pit)
          (rs_routes snapshot)) (\<lambda>ribs.
       Inr (encode_mrt_message B (i64_as_u32 (rs_timestamp snapshot)) TABLE_DUMP_V2
              (bx_subtype B PeerIndexTableType) (PeerIndexTable pit) # ribs)))"

section \<open>The peer index table\<close>

lemma index_peers_ids:
  assumes "idx + length ps \<le> 2 ^ 16" "index_peers idx ps (ids, ips) = (ids', ips')"
  shows "ids' i = (if idx \<le> unat i \<and> unat i < idx + length ps
    then Some (snapshot_peer_of (ps ! (unat i - idx))) else ids i)"
  using assms
proof (induction ps arbitrary: idx ids ips)
  case (Cons p ps)
  have idx: "unat (of_nat idx :: u16) = idx" using Cons.prems(1) by (simp add: unat_of_nat)
  then have eq: "i = of_nat idx \<longleftrightarrow> unat i = idx" by (simp add: word_unat_eq_iff)
  have step: "ids' i = (if Suc idx \<le> unat i \<and> unat i < Suc idx + length ps
      then Some (snapshot_peer_of (ps ! (unat i - Suc idx)))
      else (ids(of_nat idx \<mapsto> snapshot_peer_of p)) i)"
    using Cons.IH [of "Suc idx"] Cons.prems by simp
  show ?case
  proof (cases "unat i = idx")
    case True
    then show ?thesis using step eq by simp
  next
    case False
    moreover have "(p # ps) ! (unat i - idx) = ps ! (unat i - Suc idx)" if "Suc idx \<le> unat i"
      using that by (simp add: nth_Cons' Suc_le_eq)
    ultimately show ?thesis using step eq by (auto simp: Suc_le_eq)
  qed
qed auto

lemma build_peer_index_table_Inr:
  assumes "build_peer_index_table s = Inr pit"
  shows "length (rs_peers s) \<le> 65535"
    and "pt_id_peer_map pit i = (if unat i < length (rs_peers s)
      then Some (snapshot_peer_of (rs_peers s ! unat i)) else None)"
proof -
  obtain ids ips where maps: "index_peers 0 (rs_peers s) (Map.empty, Map.empty) = (ids, ips)" by force
  with assms show "length (rs_peers s) \<le> 65535"
    by (simp add: build_peer_index_table_def split: if_splits)
  with index_peers_ids [OF _ maps, of i] assms maps show "pt_id_peer_map pit i = (if unat i < length (rs_peers s)
      then Some (snapshot_peer_of (rs_peers s ! unat i)) else None)"
    by (auto simp: build_peer_index_table_def split: if_splits)
qed

lemma build_peer_index_table_runs:
  "length (rs_peers s) \<le> 65535 \<Longrightarrow> \<exists>pit. build_peer_index_table s = Inr pit"
  by (simp add: build_peer_index_table_def split: prod.splits)

section \<open>Reading a segment back\<close>

text \<open>
  What is assumed of the encoder of headers: the common header of an MRT record without
  microseconds is twelve bytes from which it can be decoded. What is assumed of
  \<^verbatim>\<open>Ipv4Net::new\<close>: it accepts every length up to 32.
\<close>

definition header_laws :: "('m, 's, 'a, 'y) mrt_ext_scheme \<Rightarrow> bool" where
  "header_laws B \<longleftrightarrow>
     (\<forall>h. ch_microsecond_timestamp h = None \<longrightarrow>
        length (bx_header_encode B h) = 12 \<and> bx_header_decode B (bx_header_encode B h) = Some h)"

definition net_laws :: "('m, 's, 'a, 'y) mrt_ext_scheme \<Rightarrow> bool" where
  "net_laws B \<longleftrightarrow> (\<forall>a n. n \<le> 32 \<longrightarrow> bx_ipv4_net_new B a n = Inr (NetV4 a n))"

text \<open>A reader that takes a segment apart by the length field of the headers.\<close>

function read_mrt_stream ::
  "('m, 's, 'a, 'y) mrt_ext_scheme \<Rightarrow> bytes \<Rightarrow> (common_header \<times> bytes) list option" where
  "read_mrt_stream B bs =
     (if bs = [] then Some []
      else case bx_header_decode B (take 12 bs) of
        None \<Rightarrow> None
      | Some h \<Rightarrow>
          let n = unat (ch_length h)
          in if length bs < 12 + n then None
             else map_option ((#) (h, take n (drop 12 bs))) (read_mrt_stream B (drop (12 + n) bs)))"
  by pat_completeness auto
termination
  by (relation "measure (\<lambda>(B, bs). length bs)") auto

declare read_mrt_stream.simps [simp del]

text \<open>The records the encoders of this file produce.\<close>

definition mrt_record :: "('m, 's, 'a, 'y) mrt_ext_scheme \<Rightarrow> bytes \<Rightarrow> bool" where
  "mrt_record B r \<longleftrightarrow> length r < 2 ^ 32 \<and> (\<exists>ts ty st m. r = encode_mrt_message B ts ty st m)"

lemma mrt_recordD:
  assumes "header_laws B" "mrt_record B r"
  shows "\<exists>h p. r = bx_header_encode B h @ p \<and> length (bx_header_encode B h) = 12 \<and>
    bx_header_decode B (bx_header_encode B h) = Some h \<and> unat (ch_length h) = length p"
proof -
  from assms(2) obtain ts ty st m where r: "r = encode_mrt_message B ts ty st m" "length r < 2 ^ 32"
    unfolding mrt_record_def by blast
  let ?p = "bx_encode B m st"
  let ?h = "\<lparr>ch_timestamp = ts, ch_microsecond_timestamp = None, ch_entry_type = ty,
    ch_entry_subtype = st, ch_length = of_nat (length ?p)\<rparr>"
  have split: "r = bx_header_encode B ?h @ ?p" by (simp add: r(1) encode_mrt_message_def Let_def)
  with r(2) have "unat (ch_length ?h) = length ?p" by (simp add: unat_of_nat)
  with split assms(1) show ?thesis unfolding header_laws_def by (intro exI [of _ ?h] exI [of _ ?p]) simp
qed

lemma read_mrt_stream_records:
  assumes "header_laws B" "\<forall>r \<in> set rs. mrt_record B r"
  shows "\<exists>es. read_mrt_stream B (concat rs) = Some es \<and> map (\<lambda>(h, p). bx_header_encode B h @ p) es = rs"
  using assms(2)
proof (induction rs)
  case Nil
  then show ?case by (simp add: read_mrt_stream.simps)
next
  case (Cons r rs)
  then obtain es where es: "read_mrt_stream B (concat rs) = Some es"
    "map (\<lambda>(h, p). bx_header_encode B h @ p) es = rs" by auto
  from mrt_recordD [OF assms(1), of r] Cons.prems obtain h p where
    r: "r = bx_header_encode B h @ p" "length (bx_header_encode B h) = 12"
    "bx_header_decode B (bx_header_encode B h) = Some h" "unat (ch_length h) = length p" by auto
  have "r @ concat rs \<noteq> []" using r(1,2) by auto
  moreover have "take 12 (r @ concat rs) = bx_header_encode B h" "drop 12 (r @ concat rs) = p @ concat rs"
    "drop (12 + length p) (r @ concat rs) = concat rs"
    using r(1,2) by simp_all
  ultimately have "read_mrt_stream B (concat (r # rs)) = Some ((h, p) # es)"
    using r es(1) by (subst read_mrt_stream.simps) (simp add: Let_def)
  with es(2) r(1) show ?case by (intro exI [of _ "(h, p) # es"]) simp
qed

section \<open>Properties\<close>

lemma encoder_records:
  "encode_bgp4mp_message_as4 B u = Inr r \<Longrightarrow> \<exists>ts ty st m. r = encode_mrt_message B ts ty st m"
  "encode_bgp4mp_state_change_as4 B p = Inr r \<Longrightarrow> \<exists>ts ty st m. r = encode_mrt_message B ts ty st m"
  "build_rib_record B t n pit x = Inr r \<Longrightarrow> \<exists>ts ty st m. r = encode_mrt_message B ts ty st m"
  by (auto simp: encode_bgp4mp_message_as4_def encode_bgp4mp_state_change_as4_def build_rib_record_def
      bind_res_Inr split: if_splits)

lemma build_table_dump_v2_Inr:
  assumes "build_table_dump_v2 B s = Inr rs"
  shows "\<exists>pit ribs. build_peer_index_table s = Inr pit \<and>
    rs = encode_mrt_message B (i64_as_u32 (rs_timestamp s)) TABLE_DUMP_V2
           (bx_subtype B PeerIndexTableType) (PeerIndexTable pit) # ribs \<and>
    list_all2 (\<lambda>x r. build_rib_record B (i64_as_u32 (rs_timestamp s)) (length (rs_peers s)) pit x = Inr r)
      (rs_routes s) ribs"
  using assms by (auto simp: build_table_dump_v2_def bind_res_Inr collect_res_Inr)

text \<open>
  C25: the records of a RIB snapshot, written one after the other, can be taken apart again: a
  reader that goes by the length fields finds exactly the records that were written, one for
  the peer index table and one for every route, provided each is shorter than the four
  gigabytes the length field can express.
\<close>

theorem table_dump_stream_roundtrip:
  assumes "header_laws B" "build_table_dump_v2 B s = Inr rs" "\<forall>r \<in> set rs. length r < 2 ^ 32"
  shows "\<exists>es. read_mrt_stream B (concat rs) = Some es \<and>
    map (\<lambda>(h, p). bx_header_encode B h @ p) es = rs \<and> length es = 1 + length (rs_routes s)"
proof -
  from build_table_dump_v2_Inr [OF assms(2)] obtain pit ribs where
    rs: "rs = encode_mrt_message B (i64_as_u32 (rs_timestamp s)) TABLE_DUMP_V2
           (bx_subtype B PeerIndexTableType) (PeerIndexTable pit) # ribs"
    and ribs: "list_all2 (\<lambda>x r. build_rib_record B (i64_as_u32 (rs_timestamp s)) (length (rs_peers s)) pit x = Inr r)
      (rs_routes s) ribs" by blast
  have "\<exists>ts ty st m. r = encode_mrt_message B ts ty st m" if "r \<in> set ribs" for r
    using ribs that by (auto simp: list_all2_conv_all_nth in_set_conv_nth dest!: encoder_records(3))
  with rs assms(3) have "\<forall>r \<in> set rs. mrt_record B r" by (auto simp: mrt_record_def)
  from read_mrt_stream_records [OF assms(1) this] obtain es where
    es: "read_mrt_stream B (concat rs) = Some es" "map (\<lambda>(h, p). bx_header_encode B h @ p) es = rs" by blast
  then have "length es = length rs" by (metis length_map)
  with es rs list_all2_lengthD [OF ribs] show ?thesis by auto
qed

text \<open>
  C26: a snapshot is encoded exactly when it has at most 65535 peers and every route has a
  prefix length of at most 32, refers to one of the peers by its position, and has attributes
  that parse. The index table then maps every position to the peer at that position.
\<close>

theorem table_dump_accepts:
  assumes "net_laws B"
  shows "((\<exists>rs. build_table_dump_v2 B s = Inr rs) \<longleftrightarrow>
      length (rs_peers s) \<le> 65535 \<and>
      (\<forall>x \<in> set (rs_routes s). sr_prefix_len x \<le> 32 \<and> unat (sr_peer_index x) < length (rs_peers s) \<and>
         (\<exists>a. bx_parse_attributes B (sr_path_attributes x) = Inr a))) \<and>
    (\<forall>pit i. build_peer_index_table s = Inr pit \<longrightarrow> i < length (rs_peers s) \<longrightarrow>
      pt_id_peer_map pit (of_nat i) = Some (snapshot_peer_of (rs_peers s ! i)))"
proof -
  have route: "(\<exists>r. build_rib_record B t n pit x = Inr r) \<longleftrightarrow>
      sr_prefix_len x \<le> 32 \<and> unat (sr_peer_index x) < length (rs_peers s) \<and>
      (\<exists>a. bx_parse_attributes B (sr_path_attributes x) = Inr a)"
    if pit: "build_peer_index_table s = Inr pit" for pit x t n
  proof (cases "sr_prefix_len x \<le> 32")
    case True
    with assms have "bx_ipv4_net_new B (sr_prefix x) (sr_prefix_len x) = Inr (NetV4 (sr_prefix x) (sr_prefix_len x))"
      by (simp add: net_laws_def)
    with True build_peer_index_table_Inr(2) [OF pit, of "sr_peer_index x"] show ?thesis
      by (auto simp: build_rib_record_def bind_res_Inr not_less)
  next
    case False
    then show ?thesis by (simp add: build_rib_record_def not_le)
  qed
  have "(\<exists>rs. build_table_dump_v2 B s = Inr rs) \<longleftrightarrow>
      length (rs_peers s) \<le> 65535 \<and>
      (\<forall>x \<in> set (rs_routes s). sr_prefix_len x \<le> 32 \<and> unat (sr_peer_index x) < length (rs_peers s) \<and>
         (\<exists>a. bx_parse_attributes B (sr_path_attributes x) = Inr a))"
  proof (cases "length (rs_peers s) \<le> 65535")
    case True
    then obtain pit where pit: "build_peer_index_table s = Inr pit" using build_peer_index_table_runs by blast
    have "(\<exists>ys. collect_res f xs = Inr ys) \<longleftrightarrow> (\<forall>x \<in> set xs. \<exists>y. f x = Inr y)" for f :: "snapshot_route \<Rightarrow> bytes result" and xs
      by (induction xs) (auto simp: bind_res_Inr)
    with pit route [OF pit] True show ?thesis
      by (simp add: build_table_dump_v2_def bind_res_Inr)
  next
    case False
    then show ?thesis by (simp add: build_table_dump_v2_def build_peer_index_table_def)
  qed
  moreover have "pt_id_peer_map pit (of_nat i) = Some (snapshot_peer_of (rs_peers s ! i))"
    if "build_peer_index_table s = Inr pit" "i < length (rs_peers s)" for pit i
  proof -
    have "unat (of_nat i :: u16) = i"
      using build_peer_index_table_Inr(1) [OF that(1)] that(2) by (simp add: unat_of_nat)
    with build_peer_index_table_Inr(2) [OF that(1), of "of_nat i"] that(2) show ?thesis by simp
  qed
  ultimately show ?thesis by blast
qed

section \<open>Witnesses\<close>

definition demo_header_encode :: "common_header \<Rightarrow> bytes" where
  "demo_header_encode h =
     be_bytes 4 (unat (ch_timestamp h)) @
     be_bytes 2 (case ch_entry_type h of BGP4MP \<Rightarrow> 16 | TABLE_DUMP_V2 \<Rightarrow> 13) @
     be_bytes 2 (unat (ch_entry_subtype h)) @ be_bytes 4 (unat (ch_length h))"

definition demo_header_decode :: "bytes \<Rightarrow> common_header option" where
  "demo_header_decode bs =
     Some \<lparr>ch_timestamp = of_nat (be_value (take 4 bs)), ch_microsecond_timestamp = None,
       ch_entry_type = (if be_value (take 2 (drop 4 bs)) = 16 then BGP4MP else TABLE_DUMP_V2),
       ch_entry_subtype = of_nat (be_value (take 2 (drop 6 bs))),
       ch_length = of_nat (be_value (take 4 (drop 8 bs)))\<rparr>"

definition demo_mrt_ext :: "(bytes, u16, bytes) mrt_ext" where
  "demo_mrt_ext =
     \<lparr>bx_parse_bgp_message = (\<lambda>_ raw. Inr raw), bx_is_update = (\<lambda>m. length m \<ge> 19),
      bx_msg_type_debug = (\<lambda>_. ''Keepalive''),
      bx_bgp_state = (\<lambda>v. if 1 \<le> v \<and> v \<le> 6 then Some v else None),
      bx_ipv4_net_new = (\<lambda>a n. if n \<le> 32 then Inr (NetV4 a n) else Inl (Msg ''invalid IP prefix length'')),
      bx_show_net = (\<lambda>_. ''net''), bx_parse_attributes = (\<lambda>b. Inr b),
      bx_subtype = (\<lambda>t. case t of MessageAs4 \<Rightarrow> 4 | StateChangeAs4 \<Rightarrow> 5 | PeerIndexTableType \<Rightarrow> 1 | RibIpv4Unicast \<Rightarrow> 2),
      bx_encode = (\<lambda>m t. case m of PeerIndexTable p \<Rightarrow> [1, 2] | RibAfi r \<Rightarrow> [3] | _ \<Rightarrow> [4, 5, 6]),
      bx_header_encode = demo_header_encode, bx_header_decode = demo_header_decode\<rparr>"

lemma u32_bytes: "unat (x :: u32) < 256 ^ 4"
proof -
  have "unat x < 2 ^ LENGTH(32)" by (rule unsigned_less)
  then show ?thesis by simp
qed

lemma u16_bytes: "unat (x :: u16) < 256 ^ 2"
proof -
  have "unat x < 2 ^ LENGTH(16)" by (rule unsigned_less)
  then show ?thesis by simp
qed

lemma demo_header_laws: "header_laws demo_mrt_ext"
proof -
  have "demo_header_decode (demo_header_encode h) = Some h" if "ch_microsecond_timestamp h = None" for h
  proof -
    have "be_value (be_bytes 2 (case ch_entry_type h of BGP4MP \<Rightarrow> 16 | TABLE_DUMP_V2 \<Rightarrow> 13)) =
        (case ch_entry_type h of BGP4MP \<Rightarrow> 16 | TABLE_DUMP_V2 \<Rightarrow> 13)"
      by (rule be_value_be_bytes) (simp split: entry_type.splits)
    then show ?thesis
      using that be_value_be_bytes [OF u32_bytes] be_value_be_bytes [OF u16_bytes]
      by (cases h) (simp add: demo_header_decode_def demo_header_encode_def split: entry_type.splits)
  qed
  then show ?thesis by (simp add: header_laws_def demo_mrt_ext_def) (simp add: demo_header_encode_def)
qed

lemma demo_net_laws: "net_laws demo_mrt_ext"
  by (simp add: net_laws_def demo_mrt_ext_def)

definition demo_snapshot :: rib_snapshot_input where
  "demo_snapshot =
     \<lparr>rs_timestamp = 1700000000, rs_collector_bgp_id = Ipv4 192 0 2 1, rs_view_name = ''main'',
      rs_peers = [\<lparr>sn_peer_bgp_id = Ipv4 198 51 100 1, sn_peer_ip = V4 (Ipv4 198 51 100 1), sn_peer_asn = 64512\<rparr>],
      rs_routes = [\<lparr>sr_sequence = 1, sr_prefix = Ipv4 203 0 113 0, sr_prefix_len = 24, sr_peer_index = 0,
        sr_originated_time = 1700000000, sr_path_attributes = []\<rparr>]\<rparr>"

theorem table_dump_accepts_witness: "\<exists>rs. build_table_dump_v2 demo_mrt_ext demo_snapshot = Inr rs"
  using table_dump_accepts [OF demo_net_laws, of demo_snapshot]
  by (simp add: demo_snapshot_def demo_mrt_ext_def)

lemma demo_dump: obtains rs where "build_table_dump_v2 demo_mrt_ext demo_snapshot = Inr rs" "\<forall>r \<in> set rs. length r < 2 ^ 32"
proof -
  have "\<exists>rs. build_table_dump_v2 demo_mrt_ext demo_snapshot = Inr rs \<and> (\<forall>r \<in> set rs. length r < 2 ^ 32)"
    by (simp add: build_table_dump_v2_def demo_snapshot_def build_peer_index_table_def snapshot_peer_of_def
        build_rib_record_def demo_mrt_ext_def encode_mrt_message_def Let_def demo_header_encode_def)
  then show ?thesis using that by blast
qed

theorem table_dump_stream_roundtrip_witness:
  "\<exists>rs es. build_table_dump_v2 demo_mrt_ext demo_snapshot = Inr rs \<and>
     read_mrt_stream demo_mrt_ext (concat rs) = Some es \<and> length es = 2"
proof -
  obtain rs where rs: "build_table_dump_v2 demo_mrt_ext demo_snapshot = Inr rs" "\<forall>r \<in> set rs. length r < 2 ^ 32"
    by (rule demo_dump)
  from table_dump_stream_roundtrip [OF demo_header_laws rs] rs(1) show ?thesis
    by (auto simp: demo_snapshot_def)
qed

end
