(* ===== verification/Archive.thy ===== *)
theory Archive
  imports Replicator Layout Snapshot
begin

text \<open>
  \<^verbatim>\<open>src/archive/mod.rs\<close>: the archive service. Its fields behind mutexes are the record
  \<open>archive_service\<close>; an operation acts on the service and the environment together. Every
  operation runs between two acquisitions of a mutex or longer, so a history of the daemon is
  a sequence of these operations. The libraries of the parts are gathered in \<open>archive_ext\<close>.
\<close>

record ('h, 'm, 's, 'a) archive_ext =
  ax_writer :: "'h writer_ext"
  ax_mrt :: "('m, 's, 'a) mrt_ext"
  ax_calendar :: calendar
  ax_hash_order :: "string list \<Rightarrow> string list"
  ax_read_dir :: "path \<Rightarrow> (path \<Rightarrow> bytes option) \<Rightarrow> path list"

record archive_service =
  av_cfg :: archive_config
  av_collector_bgp_id :: ipv4_addr
  av_updates_writer :: "segment_writer option"
  av_ribs_last :: "finalized_segment option"
  av_last_rib_bucket :: "int option"
  av_replicator :: "replicator option"

type_synonym 'z service_state = "archive_service \<times> 'z store_scheme"

definition on_store :: "('z store_scheme, 'a) io \<Rightarrow> ('z service_state, 'a) io" where
  "on_store m = (\<lambda>(s, w). case m w of (r, w') \<Rightarrow> (r, (s, w')))"

definition service :: "('z service_state, archive_service) io" where
  "service = gets fst"

definition update_service :: "(archive_service \<Rightarrow> archive_service) \<Rightarrow> ('z service_state, unit) io" where
  "update_service f = modify (\<lambda>(s, w). (f s, w))"

definition service_emit :: "event \<Rightarrow> ('z service_state, unit) io" where
  "service_emit e = on_store (emit e)"

section \<open>Rotation of the updates segment\<close>

definition emit_finalized :: "archive_stream \<Rightarrow> finalized_segment \<Rightarrow> ('z service_state, unit) io" where
  "emit_finalized stream f =
     service_emit (ArchiveSegmentFinalized (stream_as_str stream) (fs_final_path f) (fs_end_ts f)
       (fs_record_count f))"

definition enqueue_finalized :: "finalized_segment \<Rightarrow> ('z service_state, unit) io" where
  "enqueue_finalized f =
     and_then service (\<lambda>s.
       case av_replicator s of None \<Rightarrow> ret () | Some rp \<Rightarrow> on_store (enqueue_segment rp f))"

text \<open>
  \<^verbatim>\<open>writer_guard.take()\<close> and what follows: the writer is gone from the service before it is
  finalized, whether that succeeds or not.
\<close>

definition close_updates ::
  "('h, 'm, 's, 'a, 'y) archive_ext_scheme \<Rightarrow> int \<Rightarrow> ('z service_state, unit) io" where
  "close_updates E now_ts =
     and_then service (\<lambda>s.
       case av_updates_writer s of
         None \<Rightarrow> ret ()
       | Some old_writer \<Rightarrow>
           and_then (update_service (\<lambda>s. s\<lparr>av_updates_writer := None\<rparr>)) (\<lambda>_.
           and_then (on_store (writer_finalize (ax_writer E) old_writer now_ts)) (\<lambda>f.
           and_then (emit_finalized Updates f) (\<lambda>_.
             enqueue_finalized f))))"

definition open_updates ::
  "('h, 'm, 's, 'a, 'y) archive_ext_scheme \<Rightarrow> int \<Rightarrow> int \<Rightarrow> ('z service_state, unit) io" where
  "open_updates E now_ts update_bucket =
     and_then service (\<lambda>s.
     and_then (lift_res (segment_paths (ax_calendar E) (av_cfg s) Updates now_ts)) (\<lambda>paths.
     and_then (service_emit (ArchiveSegmentOpened (stream_as_str Updates) (sp_final_path paths) update_bucket)) (\<lambda>_.
     and_then (on_store (segment_writer_new (av_cfg s) Updates update_bucket paths)) (\<lambda>writer.
       update_service (\<lambda>s. s\<lparr>av_updates_writer := Some writer\<rparr>)))))"

definition needs_rotate :: "archive_service \<Rightarrow> int \<Rightarrow> bool" where
  "needs_rotate s bucket =
     (case av_updates_writer s of None \<Rightarrow> True | Some writer \<Rightarrow> sw_start_ts writer \<noteq> bucket)"

definition ensure_updates_writer ::
  "('h, 'm, 's, 'a, 'y) archive_ext_scheme \<Rightarrow> int \<Rightarrow> ('z service_state, unit) io" where
  "ensure_updates_writer E now_ts =
     and_then service (\<lambda>s.
     and_then (lift_res (aligned_epoch now_ts (ac_updates_interval_secs (av_cfg s)))) (\<lambda>update_bucket.
       if needs_rotate s update_bucket
       then and_then (close_updates E now_ts) (\<lambda>_. open_updates E now_ts update_bucket)
       else ret ()))"

definition rotate_updates ::
  "('h, 'm, 's, 'a, 'y) archive_ext_scheme \<Rightarrow> int \<Rightarrow> ('z service_state, unit) io" where
  "rotate_updates E now_ts =
     and_then (close_updates E now_ts) (\<lambda>_. ensure_updates_writer E now_ts)"

section \<open>Records\<close>

definition append_record :: "bytes \<Rightarrow> ('z service_state, unit) io" where
  "append_record rec = (\<lambda>(s, w).
     case av_updates_writer s of
       None \<Rightarrow> (Inl (Msg ''updates writer not initialized''), (s, w))
     | Some writer \<Rightarrow>
         (case write_record writer rec w of
            (r, writer', w') \<Rightarrow> (r, (s\<lparr>av_updates_writer := Some writer'\<rparr>, w'))))"

definition ingest_update ::
  "('h, 'm, 's, 'a, 'y) archive_ext_scheme \<Rightarrow> update_record_input \<Rightarrow> ('z service_state, unit) io" where
  "ingest_update E upd =
     and_then service (\<lambda>s.
       if \<not> ac_enabled (av_cfg s) then ret ()
       else
         and_then (ensure_updates_writer E (ur_timestamp upd)) (\<lambda>_.
         and_then (lift_res (encode_bgp4mp_message_as4 (ax_mrt E) upd)) (\<lambda>rec.
           append_record rec)))"

definition ingest_peer_state ::
  "('h, 'm, 's, 'a, 'y) archive_ext_scheme \<Rightarrow> peer_state_record_input \<Rightarrow> ('z service_state, unit) io" where
  "ingest_peer_state E st =
     and_then service (\<lambda>s.
       if \<not> ac_enabled (av_cfg s) \<or> \<not> ac_include_peer_state_records (av_cfg s) then ret ()
       else
         and_then (ensure_updates_writer E (ps_timestamp st)) (\<lambda>_.
         and_then (lift_res (encode_bgp4mp_state_change_as4 (ax_mrt E) st)) (\<lambda>rec.
           append_record rec)))"

section \<open>Snapshots\<close>

fun write_records ::
  "segment_writer \<Rightarrow> bytes list \<Rightarrow> 'z store_scheme \<Rightarrow> segment_writer result \<times> 'z store_scheme" where
  "write_records writer [] w = (Inr writer, w)"
| "write_records writer (rec # recs) w =
     (case write_record writer rec w of
        (Inl e, writer', w') \<Rightarrow> (Inl e, w')
      | (Inr _, writer', w') \<Rightarrow> write_records writer' recs w')"

definition unspecified :: ipv4_addr where
  "unspecified = Ipv4 0 0 0 0"

definition snapshot_input :: "archive_service \<Rightarrow> rib_snapshot_input \<Rightarrow> rib_snapshot_input" where
  "snapshot_input s input =
     (if rs_collector_bgp_id input = unspecified
      then input\<lparr>rs_collector_bgp_id := av_collector_bgp_id s\<rparr> else input)"

definition write_snapshot ::
  "('h, 'm, 's, 'a, 'y) archive_ext_scheme \<Rightarrow> archive_config \<Rightarrow> rib_snapshot_input \<Rightarrow>
   ('z service_state, finalized_segment) io" where
  "write_snapshot E cfg input =
     and_then (lift_res (segment_paths (ax_calendar E) cfg Ribs (rs_timestamp input))) (\<lambda>paths.
     and_then (lift_res (aligned_epoch (rs_timestamp input) (ac_ribs_interval_secs cfg))) (\<lambda>start_ts.
     and_then (service_emit (ArchiveSegmentOpened (stream_as_str Ribs) (sp_final_path paths) start_ts)) (\<lambda>_.
     and_then (on_store (segment_writer_new cfg Ribs start_ts paths)) (\<lambda>writer.
     and_then (lift_res (build_table_dump_v2 (ax_mrt E) input)) (\<lambda>records.
     and_then (on_store (write_records writer records)) (\<lambda>writer.
     and_then (on_store (writer_finalize (ax_writer E) writer (rs_timestamp input))) (\<lambda>f.
     and_then (emit_finalized Ribs f) (\<lambda>_.
     and_then (enqueue_finalized f) (\<lambda>_.
     and_then (update_service (\<lambda>s. s\<lparr>av_ribs_last := Some f\<rparr>)) (\<lambda>_.
       ret f))))))))))"

definition snapshot_now ::
  "('h, 'm, 's, 'a, 'y) archive_ext_scheme \<Rightarrow> rib_snapshot_input \<Rightarrow> ('z service_state, finalized_segment) io" where
  "snapshot_now E input =
     and_then service (\<lambda>s.
       if \<not> ac_enabled (av_cfg s) then fail (Msg ''archive is disabled'')
       else write_snapshot E (av_cfg s) (snapshot_input s input))"

definition empty_snapshot :: "archive_service \<Rightarrow> int \<Rightarrow> rib_snapshot_input" where
  "empty_snapshot s now =
     \<lparr>rs_timestamp = now, rs_collector_bgp_id = av_collector_bgp_id s, rs_view_name = ''main'',
      rs_peers = [], rs_routes = []\<rparr>"

definition rollover ::
  "('h, 'm, 's, 'a, 'y) archive_ext_scheme \<Rightarrow> archive_stream \<Rightarrow> ('z service_state, unit) io" where
  "rollover E stream =
     and_then service (\<lambda>s.
       if \<not> ac_enabled (av_cfg s) then ret ()
       else case stream of
         Updates \<Rightarrow> and_then (on_store utc_now) (\<lambda>now. rotate_updates E now)
       | Ribs \<Rightarrow>
           and_then (on_store utc_now) (\<lambda>now.
           and_then (snapshot_now E (empty_snapshot s now)) (\<lambda>_. ret ())))"

section \<open>Scheduler, status, start\<close>

definition archive_tick ::
  "('h, 'm, 's, 'a, 'y) archive_ext_scheme \<Rightarrow> ('z service_state, unit) io" where
  "archive_tick E =
     and_then service (\<lambda>s.
       if \<not> ac_enabled (av_cfg s) then ret ()
       else
         and_then (on_store utc_now) (\<lambda>now.
         and_then (ensure_updates_writer E now) (\<lambda>_.
         and_then (lift_res (aligned_epoch now (ac_ribs_interval_secs (av_cfg s)))) (\<lambda>rib_bucket.
           if av_last_rib_bucket s \<noteq> Some rib_bucket
           then and_then (snapshot_now E (empty_snapshot s now)) (\<lambda>_.
                  update_service (\<lambda>s. s\<lparr>av_last_rib_bucket := Some rib_bucket\<rparr>))
           else ret ()))))"

definition retry_failed_replications :: "('z service_state, u64) io" where
  "retry_failed_replications =
     and_then service (\<lambda>s.
       case av_replicator s of
         Some rp \<Rightarrow> on_store (replicator_retry_failed rp)
       | None \<Rightarrow> ret 0)"

definition archive_status_op :: "('z service_state, archive_status) io" where
  "archive_status_op =
     and_then service (\<lambda>s.
     and_then
       (case av_replicator s of
          Some rp \<Rightarrow> on_store (pending_count (rp_queue rp)) | None \<Rightarrow> ret 0) (\<lambda>queued.
     and_then
       (case av_replicator s of
          Some rp \<Rightarrow> on_store (gets st_failures) | None \<Rightarrow> ret 0) (\<lambda>failures.
       ret \<lparr>as_enabled = ac_enabled (av_cfg s), as_collector_id = ac_collector_id (av_cfg s),
            as_updates_interval_secs = ac_updates_interval_secs (av_cfg s),
            as_ribs_interval_secs = ac_ribs_interval_secs (av_cfg s),
            as_updates_open_path = map_option writer_path (av_updates_writer s),
            as_updates_record_count =
              (case av_updates_writer s of Some writer \<Rightarrow> sw_record_count writer | None \<Rightarrow> 0),
            as_ribs_last_path = map_option fs_final_path (av_ribs_last s),
            as_ribs_last_record_count =
              (case av_ribs_last s of Some f \<Rightarrow> fs_record_count f | None \<Rightarrow> 0),
            as_queued_replication_jobs = queued, as_replication_failures = failures\<rparr>)))"

definition destinations :: "archive_service \<Rightarrow> (string \<times> string \<times> string) list" where
  "destinations s =
     map (\<lambda>d. (destination_key d,
                (case ad_mode d of Primary \<Rightarrow> ''primary'' | AsyncReplica \<Rightarrow> ''async_replica''),
                (case ad_type d of Local \<Rightarrow> ''local'' | S3 \<Rightarrow> ''s3'')))
       (ac_destinations (av_cfg s))"

text \<open>\<^verbatim>\<open>read_dir\<close> yields the direct children only; directories are left alone.\<close>

definition remove_temp :: "path \<Rightarrow> ('z store_scheme, unit) io" where
  "remove_temp p =
     and_then (syscall (OpReadDir p)) (\<lambda>_.
     and_then (gets w_files) (\<lambda>fs.
       if fs p = None then ret ()
       else in_context (''failed removing temp segment '' @ p) (remove_file p)))"

definition clean_entries ::
  "('h, 'm, 's, 'a, 'y) archive_ext_scheme \<Rightarrow> path \<Rightarrow> ('z store_scheme, unit) io" where
  "clean_entries E tmp_root =
     and_then (in_context (''failed reading tmp root '' @ tmp_root) (syscall (OpReadDir tmp_root))) (\<lambda>_.
     and_then (gets w_files) (\<lambda>fs. for_each (ax_read_dir E tmp_root fs) remove_temp))"

definition cleanup_tmp_root ::
  "('h, 'm, 's, 'a, 'y) archive_ext_scheme \<Rightarrow> path \<Rightarrow> ('z store_scheme, unit) io" where
  "cleanup_tmp_root E tmp_root = (\<lambda>w.
     case syscall (OpMetadata tmp_root) w of
       (Inl e, w') \<Rightarrow> (Inr (), w')
     | (Inr _, w') \<Rightarrow> clean_entries E tmp_root w')"

definition start_replicator ::
  "('h, 'm, 's, 'a, 'y) archive_ext_scheme \<Rightarrow> archive_config \<Rightarrow> ('z store_scheme, replicator option) io" where
  "start_replicator E cfg =
     (if ac_enabled cfg
      then
        and_then (in_context (''failed creating archive root '' @ ac_root cfg)
          (create_dir_all (ac_root cfg))) (\<lambda>_.
        and_then (in_context (''failed creating archive tmp root '' @ ac_tmp_root cfg)
          (create_dir_all (ac_tmp_root cfg))) (\<lambda>_.
        and_then (in_context (''failed cleaning tmp root '' @ ac_tmp_root cfg)
          (cleanup_tmp_root E (ac_tmp_root cfg))) (\<lambda>_.
        and_then (queue_new (ac_root cfg)) (\<lambda>q.
          ret (Some (replicator_new (ax_hash_order E) cfg q True))))))
      else ret None)"

definition fresh_service :: "archive_config \<Rightarrow> ipv4_addr \<Rightarrow> replicator option \<Rightarrow> archive_service" where
  "fresh_service cfg collector_bgp_id replicator =
     \<lparr>av_cfg = cfg, av_collector_bgp_id = collector_bgp_id, av_updates_writer = None,
      av_ribs_last = None, av_last_rib_bucket = None, av_replicator = replicator\<rparr>"

definition archive_new ::
  "('h, 'm, 's, 'a, 'y) archive_ext_scheme \<Rightarrow> archive_config \<Rightarrow> ipv4_addr \<Rightarrow>
   'z store_scheme \<Rightarrow> archive_service result \<times> 'z store_scheme" where
  "archive_new E cfg collector_bgp_id w0 =
     (case start_replicator E cfg w0 of
        (Inl e, w) \<Rightarrow> (Inl e, w)
      | (Inr replicator, w) \<Rightarrow>
          let s = fresh_service cfg collector_bgp_id replicator
          in if \<not> ac_enabled cfg then (Inr s, w)
             else case and_then (on_store utc_now) (ensure_updates_writer E) (s, w) of
                    (Inl e, (s', w')) \<Rightarrow> (Inl e, w')
                  | (Inr _, (s', w')) \<Rightarrow> (Inr s', w'))"

text \<open>The scheduler task: an error of a tick is logged and the next one follows.\<close>

fun archive_ticks ::
  "nat \<Rightarrow> ('h, 'm, 's, 'a, 'y) archive_ext_scheme \<Rightarrow> 'z service_state \<Rightarrow> 'z service_state" where
  "archive_ticks 0 E st = st"
| "archive_ticks (Suc n) E st = archive_ticks n E (snd (archive_tick E st))"

section \<open>Taking the operations apart\<close>

lemma on_store_run [io_simps]:
  "on_store m (s, w) = (r, (s', w')) \<longleftrightarrow> s' = s \<and> m w = (r, w')"
  by (auto simp: on_store_def split: prod.splits)

lemma service_run [simp]: "service (s, w) = (Inr s, (s, w))"
  by (simp add: service_def)

lemma update_service_run [simp]: "update_service f (s, w) = (Inr (), (f s, w))"
  by (simp add: update_service_def)

lemma service_emit_run [simp]:
  "service_emit e (s, w) = (Inr (), (s, w\<lparr>w_events := w_events w @ [envelope_new e]\<rparr>))"
  by (simp add: service_emit_def on_store_def emit_def)

lemma and_then_service [simp]: "and_then service f (s, w) = f s (s, w)"
  by (simp add: service_def)

lemma segment_paths_bucket:
  "aligned_epoch t (stream_interval cfg s) = aligned_epoch u (stream_interval cfg s) \<Longrightarrow>
   segment_paths cal cfg s t = segment_paths cal cfg s u"
  by (simp add: segment_paths_def)

lemma stream_interval_updates [simp]: "stream_interval cfg Updates = ac_updates_interval_secs cfg"
  by (simp add: stream_interval_def)

text \<open>
  The invariant of the service: the open writer is an updates writer of this configuration,
  its start is the start of a bucket, its paths are those of the bucket, and its encoder
  writes to its temporary file.
\<close>

definition bucket_writer ::
  "('h, 'm, 's, 'a, 'y) archive_ext_scheme \<Rightarrow> archive_config \<Rightarrow> int \<Rightarrow> segment_writer \<Rightarrow> bool" where
  "bucket_writer E cfg ts sw \<longleftrightarrow>
     writer_ok sw \<and> sw_cfg sw = cfg \<and> sw_stream sw = Updates \<and>
     aligned_epoch ts (ac_updates_interval_secs cfg) = Inr (sw_start_ts sw) \<and>
     segment_paths (ax_calendar E) cfg Updates ts = Inr (sw_paths sw)"

definition service_ok :: "('h, 'm, 's, 'a, 'y) archive_ext_scheme \<Rightarrow> archive_service \<Rightarrow> bool" where
  "service_ok E s \<longleftrightarrow>
     (\<forall>sw. av_updates_writer s = Some sw \<longrightarrow> (\<exists>ts. bucket_writer E (av_cfg s) ts sw))"

lemma bucket_writer_same:
  assumes "bucket_writer E cfg ts sw" "aligned_epoch ts' (ac_updates_interval_secs cfg) = Inr (sw_start_ts sw)"
  shows "bucket_writer E cfg ts' sw"
  using assms segment_paths_bucket [of ts cfg Updates ts'] by (simp add: bucket_writer_def)

lemma open_updates_Inr:
  assumes "open_updates E now b (s, w) = (Inr (), (s', w'))"
    "aligned_epoch now (ac_updates_interval_secs (av_cfg s)) = Inr b"
  shows "\<exists>sw. s' = s\<lparr>av_updates_writer := Some sw\<rparr> \<and> bucket_writer E (av_cfg s) now sw \<and>
    sw_start_ts sw = b \<and> writer_exact sw \<and> enc_written (sw_encoder sw) = []"
proof -
  from assms(1) obtain paths w1 sw where p: "segment_paths (ax_calendar E) (av_cfg s) Updates now = Inr paths"
    and n: "segment_writer_new (av_cfg s) Updates b paths w1 = (Inr sw, w')"
    and s': "s' = s\<lparr>av_updates_writer := Some sw\<rparr>"
    by (auto simp: open_updates_def io_simps)
  with segment_writer_new_Inr [OF n] assms(2) show ?thesis
    by (intro exI [of _ sw]) (auto simp: bucket_writer_def writer_exact_def)
qed

lemma open_updates_Inl:
  "open_updates E now b (s, w) = (Inl e, (s', w')) \<Longrightarrow> s' = s"
  by (auto simp: open_updates_def io_simps)

lemma enqueue_finalized_service: "enqueue_finalized f (s, w) = (r, (s', w')) \<Longrightarrow> s' = s"
  by (auto simp: enqueue_finalized_def io_simps split: option.splits)

lemma close_updates_service:
  "close_updates E now (s, w) = (r, (s', w')) \<Longrightarrow> s' = s\<lparr>av_updates_writer := None\<rparr>"
  by (cases "av_updates_writer s")
     (auto simp: close_updates_def and_then_def emit_finalized_def on_store_def
        dest: enqueue_finalized_service split: sum.splits prod.splits)

lemma close_updates_none: "av_updates_writer s = None \<Longrightarrow> close_updates E now (s, w) = (Inr (), (s, w))"
  by (simp add: close_updates_def)

lemma ensure_updates_writer_Inr:
  assumes "ensure_updates_writer E now (s, w) = (Inr (), (s', w'))" "service_ok E s"
  shows "\<exists>b sw. aligned_epoch now (ac_updates_interval_secs (av_cfg s)) = Inr b \<and>
    s' = s\<lparr>av_updates_writer := Some sw\<rparr> \<and> bucket_writer E (av_cfg s) now sw \<and> sw_start_ts sw = b \<and>
    (if needs_rotate s b then writer_exact sw \<and> enc_written (sw_encoder sw) = []
     else av_updates_writer s = Some sw \<and> w' = w)"
proof -
  from assms(1) obtain b where b: "aligned_epoch now (ac_updates_interval_secs (av_cfg s)) = Inr b"
    and run: "(if needs_rotate s b
       then and_then (close_updates E now) (\<lambda>_. open_updates E now b) else ret ()) (s, w) = (Inr (), (s', w'))"
    unfolding ensure_updates_writer_def by (auto simp: io_simps)
  show ?thesis
  proof (cases "needs_rotate s b")
    case True
    with run obtain s1 w1 where c: "close_updates E now (s, w) = (Inr (), (s1, w1))"
      "open_updates E now b (s1, w1) = (Inr (), (s', w'))" by (auto simp: io_simps)
    from close_updates_service [OF c(1)] open_updates_Inr [OF c(2)] b True show ?thesis by auto
  next
    case False
    then obtain sw where sw: "av_updates_writer s = Some sw" "sw_start_ts sw = b"
      by (auto simp: needs_rotate_def split: option.splits)
    with assms(2) obtain ts where "bucket_writer E (av_cfg s) ts sw" by (auto simp: service_ok_def)
    with bucket_writer_same b sw have "bucket_writer E (av_cfg s) now sw" by blast
    moreover have "s' = s" "w' = w" using run False by simp_all
    ultimately show ?thesis using b sw False by (auto intro!: exI [of _ sw])
  qed
qed

lemma ensure_updates_writer_service:
  assumes "ensure_updates_writer E now (s, w) = (r, (s', w'))" "service_ok E s"
  shows "service_ok E s' \<and> av_cfg s' = av_cfg s"
proof (cases r)
  case (Inr u)
  with assms ensure_updates_writer_Inr [of E now s w s' w'] show ?thesis by (auto simp: service_ok_def)
next
  case (Inl e)
  with assms(1) consider "s' = s" | "s' = s\<lparr>av_updates_writer := None\<rparr>"
    unfolding ensure_updates_writer_def
    by (auto simp: io_simps split: if_splits dest!: close_updates_service open_updates_Inl)
  then show ?thesis using assms(2) by cases (auto simp: service_ok_def)
qed

lemma append_record_Inr:
  assumes "append_record rec (s, w) = (Inr (), (s', w'))"
  shows "\<exists>sw. av_updates_writer s = Some sw \<and> w' = tick w \<and>
    s' = s\<lparr>av_updates_writer := Some (sw\<lparr>sw_encoder := enc_append rec (sw_encoder sw),
      sw_record_count := sw_record_count sw + 1\<rparr>)\<rparr>"
proof -
  from assms obtain sw sw' where sw: "av_updates_writer s = Some sw"
    and run: "write_record sw rec w = (Inr (), sw', w')" and s': "s' = s\<lparr>av_updates_writer := Some sw'\<rparr>"
    by (auto simp: append_record_def split: option.splits prod.splits)
  with write_record_Inr [OF run] show ?thesis by auto
qed

lemma bucket_writer_write:
  assumes "bucket_writer E cfg ts sw"
  shows "bucket_writer E cfg ts (fst (snd (write_record sw rec w)))"
  using assms write_record_ok [of sw rec w] write_record_frame [of sw rec w] by (simp add: bucket_writer_def)

lemma append_record_service:
  assumes "append_record rec (s, w) = (r, (s', w'))" "service_ok E s"
  shows "service_ok E s' \<and> av_cfg s' = av_cfg s"
proof (cases "av_updates_writer s")
  case None
  with assms show ?thesis by (simp add: append_record_def)
next
  case (Some sw)
  with assms(2) obtain ts where "bucket_writer E (av_cfg s) ts sw" by (auto simp: service_ok_def)
  from bucket_writer_write [OF this, of rec w] assms(1) Some show ?thesis
    by (auto simp: append_record_def service_ok_def split: prod.splits)
qed

section \<open>Every operation keeps the invariant\<close>

definition keeps :: "('h, 'm, 's, 'a, 'y) archive_ext_scheme \<Rightarrow> ('z service_state, 'b) io \<Rightarrow> bool" where
  "keeps E m \<longleftrightarrow>
     (\<forall>s w r s' w'. service_ok E s \<longrightarrow> m (s, w) = (r, (s', w')) \<longrightarrow> service_ok E s' \<and> av_cfg s' = av_cfg s)"

named_theorems keeps_intros "operations that keep the invariant of the archive service"

lemma keeps_and_then [keeps_intros]:
  assumes "keeps E m" "\<And>a. keeps E (f a)"
  shows "keeps E (and_then m f)"
  unfolding keeps_def
proof (intro allI impI)
  fix s w r s' w' assume ok: "service_ok E s" and run: "and_then m f (s, w) = (r, (s', w'))"
  obtain r1 s1 w1 where m: "m (s, w) = (r1, (s1, w1))" by (cases "m (s, w)") auto
  with assms(1) ok have one: "service_ok E s1" "av_cfg s1 = av_cfg s" unfolding keeps_def by metis+
  show "service_ok E s' \<and> av_cfg s' = av_cfg s"
  proof (cases r1)
    case (Inl e)
    with run m one show ?thesis by (simp add: and_then_def)
  next
    case (Inr a)
    with run m have "f a (s1, w1) = (r, (s', w'))" by (simp add: and_then_def)
    with assms(2) [of a] one show ?thesis unfolding keeps_def by metis
  qed
qed

lemma keeps_basic [keeps_intros]:
  "keeps E (ret a)" "keeps E (fail e)" "keeps E (lift_res r)" "keeps E service" "keeps E (on_store m)"
  "keeps E (service_emit ev)"
  by (auto simp: keeps_def service_emit_def io_simps)

lemma keeps_update [keeps_intros]:
  "(\<And>s. av_updates_writer (f s) = av_updates_writer s \<and> av_cfg (f s) = av_cfg s) \<Longrightarrow> keeps E (update_service f)"
  by (simp add: keeps_def service_ok_def)

lemma keeps_writer [keeps_intros]:
  "keeps E (ensure_updates_writer E now)" "keeps E (append_record rec)" "keeps E (close_updates E now)"
  "keeps E (enqueue_finalized f)" "keeps E (emit_finalized stream f)"
  by (auto simp: keeps_def service_ok_def emit_finalized_def
      dest: ensure_updates_writer_service [unfolded service_ok_def]
        append_record_service [unfolded service_ok_def] close_updates_service enqueue_finalized_service)

lemma keeps_if [keeps_intros]: "keeps E m \<Longrightarrow> keeps E n \<Longrightarrow> keeps E (if b then m else n)"
  by simp

lemma keeps_option [keeps_intros]:
  "keeps E m \<Longrightarrow> (\<And>x. keeps E (n x)) \<Longrightarrow> keeps E (case o1 of None \<Rightarrow> m | Some x \<Rightarrow> n x)"
  by (simp split: option.splits)

lemma keeps_stream [keeps_intros]:
  "keeps E m \<Longrightarrow> keeps E n \<Longrightarrow> keeps E (case stream of Updates \<Rightarrow> m | Ribs \<Rightarrow> n)"
  by (simp split: archive_stream.splits)

lemma keeps_snapshot [keeps_intros]: "keeps E (snapshot_now E input)"
  unfolding snapshot_now_def write_snapshot_def by (intro keeps_intros) simp

lemma keeps_rotate [keeps_intros]: "keeps E (rotate_updates E now)"
  unfolding rotate_updates_def by (intro keeps_intros)

lemma keeps_rollover: "keeps E (rollover E stream)"
  unfolding rollover_def by (intro keeps_intros)

lemma keeps_tick: "keeps E (archive_tick E)"
  unfolding archive_tick_def by (intro keeps_intros) simp

lemma archive_new_service:
  assumes "archive_new E cfg bgp_id w = (Inr s, w')"
  shows "service_ok E s" "av_cfg s = cfg"
proof -
  have start: "keeps E (and_then (on_store utc_now) (ensure_updates_writer E))" by (intro keeps_intros)
  obtain r1 w1 where st: "start_replicator E cfg w = (r1, w1)" by force
  with assms obtain rp where rp: "r1 = Inr rp" by (cases r1) (auto simp: archive_new_def)
  let ?s = "fresh_service cfg bgp_id rp"
  have fresh: "service_ok E ?s" "av_cfg ?s = cfg" by (simp_all add: service_ok_def fresh_service_def)
  obtain r2 s2 w2 where en: "and_then (on_store utc_now) (ensure_updates_writer E) (?s, w1) = (r2, (s2, w2))"
    by (cases "and_then (on_store utc_now) (ensure_updates_writer E) (?s, w1)") auto
  with start fresh have "service_ok E s2" "av_cfg s2 = cfg" unfolding keeps_def by metis+
  moreover have "s = ?s \<or> s = s2"
    using assms st rp en by (auto simp: archive_new_def Let_def split: if_splits sum.splits)
  ultimately show "service_ok E s" "av_cfg s = cfg" using fresh by auto
qed

section \<open>Files\<close>

text \<open>Queueing a job and opening the next segment leave the published files alone.\<close>

lemma touches_enqueue [touches_intros]: "touches Q (enqueue q seg man key n)"
proof -
  have "touches Q (put_table q t)" for t by (simp add: touches_def put_table_def)
  moreover have "touches Q (table q)" by (simp add: touches_def table_def)
  ultimately show ?thesis
    unfolding enqueue_def queue_open_def sql_update_def sql_def
    by (intro touches_intros) (auto split: prod.splits intro!: touches_intros)
qed

lemma touches_enqueue_segment [touches_intros]: "touches Q (enqueue_segment rp f)"
  unfolding enqueue_segment_def enqueue_for_def by (intro touches_intros)

lemma enqueue_finalized_files:
  assumes "enqueue_finalized f (s, w) = (r, (s', w'))"
  shows "w_files w' = w_files w"
proof (cases "av_replicator s")
  case None
  with assms show ?thesis by (simp add: enqueue_finalized_def)
next
  case (Some rp)
  with assms have "enqueue_segment rp f w = (r, w')"
    by (simp add: enqueue_finalized_def io_simps)
  from touchesD [OF touches_enqueue_segment [of "{}"] this] show ?thesis by auto
qed

lemma open_updates_files:
  assumes "open_updates E now b (s, w) = (r, (s', w'))"
    and "\<And>p. segment_paths (ax_calendar E) (av_cfg s) Updates now = Inr p \<Longrightarrow> q \<noteq> sp_tmp_path p"
  shows "w_files w' q = w_files w q"
proof (cases "segment_paths (ax_calendar E) (av_cfg s) Updates now")
  case (Inl e)
  with assms(1) show ?thesis by (simp add: open_updates_def)
next
  case (Inr p)
  let ?w = "w\<lparr>w_events := w_events w @ [envelope_new (ArchiveSegmentOpened (stream_as_str Updates) (sp_final_path p) b)]\<rparr>"
  obtain r1 w1 where n: "segment_writer_new (av_cfg s) Updates b p ?w = (r1, w1)" by force
  with assms(1) Inr have "w' = w1"
    by (cases r1) (auto simp: open_updates_def and_then_def on_store_def)
  with touchesD [OF touches_segment_writer_new n, of q] assms(2) [OF Inr] show ?thesis by simp
qed

lemma close_updates_run:
  assumes "close_updates E now (s, w) = (r, (s', w'))" "av_updates_writer s = Some sw"
  obtains rf wf where "writer_finalize (ax_writer E) sw now w = (rf, wf)" "w_files w' = w_files wf"
    "r = Inr () \<Longrightarrow> \<exists>f. rf = Inr f" "\<And>e. rf = Inl e \<Longrightarrow> r = Inl e"
proof -
  obtain rf wf where f: "writer_finalize (ax_writer E) sw now w = (rf, wf)" by force
  show ?thesis
  proof (cases rf)
    case (Inl e)
    with assms f show ?thesis
      by (intro that [OF f]) (auto simp: close_updates_def and_then_def on_store_def)
  next
    case (Inr g)
    let ?e = "envelope_new (ArchiveSegmentFinalized (stream_as_str Updates) (fs_final_path g) (fs_end_ts g) (fs_record_count g))"
    have "enqueue_finalized g (s\<lparr>av_updates_writer := None\<rparr>, wf\<lparr>w_events := w_events wf @ [?e]\<rparr>) = (r, (s', w'))"
      using assms f Inr by (simp add: close_updates_def and_then_def on_store_def emit_finalized_def)
    from enqueue_finalized_files [OF this] Inr show ?thesis by (intro that [OF f]) simp_all
  qed
qed

lemma writer_paths_apart:
  assumes "bucket_writer E cfg ts sw" "ac_layout_profile cfg \<noteq> Custom"
  shows "paths_apart (sw_paths sw)"
    and "segment_paths (ax_calendar E) cfg s t = Inr p \<Longrightarrow> sp_final_path (sw_paths sw) \<noteq> sp_tmp_path p"
  using assms tmp_path_apart [OF assms(2)]
  by (auto simp: bucket_writer_def paths_apart_def sidecar_path_def) metis+

section \<open>Ingesting without faults\<close>

definition appended :: "segment_writer \<Rightarrow> bytes list \<Rightarrow> segment_writer" where
  "appended sw recs = fold (\<lambda>rec sw. sw\<lparr>sw_encoder := enc_append rec (sw_encoder sw),
     sw_record_count := sw_record_count sw + 1\<rparr>) recs sw"

lemma appended_facts:
  "enc_written (sw_encoder (appended sw recs)) = enc_written (sw_encoder sw) @ recs"
  "sw_cfg (appended sw recs) = sw_cfg sw" "sw_stream (appended sw recs) = sw_stream sw"
  "sw_start_ts (appended sw recs) = sw_start_ts sw" "sw_paths (appended sw recs) = sw_paths sw"
  "enc_kind (sw_encoder (appended sw recs)) = enc_kind (sw_encoder sw)"
  "enc_path (sw_encoder (appended sw recs)) = enc_path (sw_encoder sw)"
  "sw_record_count (appended sw recs) = sw_record_count sw + of_nat (length recs)"
  unfolding appended_def by (induction recs arbitrary: sw) simp_all

lemma ingest_update_same_bucket:
  assumes "fault_free w" "ac_enabled (av_cfg s)" "av_updates_writer s = Some sw"
    and "aligned_epoch (ur_timestamp u) (ac_updates_interval_secs (av_cfg s)) = Inr (sw_start_ts sw)"
    and "encode_bgp4mp_message_as4 (ax_mrt E) u = Inr rec"
  shows "ingest_update E u (s, w) = (Inr (), (s\<lparr>av_updates_writer := Some (appended sw [rec])\<rparr>, tick w))"
  using assms
  by (simp add: ingest_update_def ensure_updates_writer_def needs_rotate_def and_then_def append_record_def
      write_record_def encoder_write_all_def syscall_fault_free appended_def)

lemma ingest_updates_same_bucket:
  assumes "fault_free w" "ac_enabled (av_cfg s)" "av_updates_writer s = Some sw"
    and "\<And>u. u \<in> set us \<Longrightarrow>
      aligned_epoch (ur_timestamp u) (ac_updates_interval_secs (av_cfg s)) = Inr (sw_start_ts sw) \<and>
      encode_bgp4mp_message_as4 (ax_mrt E) u = Inr (rec u)"
  shows "\<exists>n. for_each us (ingest_update E) (s, w) =
    (Inr (), (s\<lparr>av_updates_writer := Some (appended sw (map rec us))\<rparr>, w\<lparr>w_step := n\<rparr>))"
  using assms
proof (induction us arbitrary: s w sw)
  case Nil
  then have "s\<lparr>av_updates_writer := Some (appended sw [])\<rparr> = s" by (simp add: appended_def)
  then show ?case by (intro exI [of _ "w_step w"]) simp
next
  case (Cons u us)
  let ?s = "s\<lparr>av_updates_writer := Some (appended sw [rec u])\<rparr>"
  have one: "ingest_update E u (s, w) = (Inr (), (?s, tick w))"
    by (rule ingest_update_same_bucket) (use Cons.prems in auto)
  obtain n where "for_each us (ingest_update E) (?s, tick w) =
      (Inr (), (?s\<lparr>av_updates_writer := Some (appended (appended sw [rec u]) (map rec us))\<rparr>, (tick w)\<lparr>w_step := n\<rparr>))"
    using Cons.IH [of "tick w" ?s "appended sw [rec u]"] Cons.prems by (auto simp: appended_facts)
  then show ?case by (intro exI [of _ n]) (simp add: one and_then_def appended_def)
qed

text \<open>A rotation publishes the data of the writer it replaces, whatever comes after.\<close>

lemma rotation_publishes:
  assumes "digest_laws (ax_writer E)" "json_laws (ax_writer E)"
    and "ac_layout_profile (av_cfg s) \<noteq> Custom" "fault_free w"
    and "av_updates_writer s = Some sw" "writer_ok sw"
    and "bucket_writer E (av_cfg s) ts sw" "w_files w (sp_tmp_path (sw_paths sw)) \<noteq> None"
    and "aligned_epoch now (ac_updates_interval_secs (av_cfg s)) = Inr b \<and> b \<noteq> sw_start_ts sw"
    and run: "ensure_updates_writer E now (s, w) = (r, (s', w'))"
  shows "w_files w' (sp_final_path (sw_paths sw)) = Some (writer_data (ax_writer E) sw)"
proof -
  have body: "and_then (close_updates E now) (\<lambda>_. open_updates E now b) (s, w) = (r, (s', w'))"
    using run assms(5,9) by (simp add: ensure_updates_writer_def needs_rotate_def)
  obtain r1 s1 w1 where c: "close_updates E now (s, w) = (r1, (s1, w1))"
    by (cases "close_updates E now (s, w)") auto
  have w1: "w_files w1 (sp_final_path (sw_paths sw)) = Some (writer_data (ax_writer E) sw)"
    using close_updates_run [OF c assms(5)] writer_finalize_runs [OF assms(4,6,1,2,8), of now]
    by (metis (no_types, lifting) fun_upd_other fun_upd_same prod.inject sidecar_path_neq(2))
  show ?thesis
  proof (cases r1)
    case (Inl e)
    with body c w1 show ?thesis by (simp add: and_then_def)
  next
    case (Inr u)
    with body c have o: "open_updates E now b (s1, w1) = (r, (s', w'))" by (simp add: and_then_def)
    have cfg: "av_cfg s1 = av_cfg s" using close_updates_service [OF c] by simp
    have "w_files w' (sp_final_path (sw_paths sw)) = w_files w1 (sp_final_path (sw_paths sw))"
      using writer_paths_apart(2) [OF assms(7,3)] by (intro open_updates_files [OF o]) (simp add: cfg)
    with w1 show ?thesis by simp
  qed
qed

lemma closed_data:
  assumes "close_updates E now (s, w) = (Inr (), (s', w'))" "av_updates_writer s = Some sw"
    and "bucket_writer E cfg ts sw" "ac_layout_profile cfg \<noteq> Custom"
  shows "w_files w' (sp_final_path (sw_paths sw)) = Some (writer_data (ax_writer E) sw)"
proof -
  from close_updates_run [OF assms(1,2)] obtain f wf where
    "writer_finalize (ax_writer E) sw now w = (Inr f, wf)" "w_files w' = w_files wf" by metis
  with writer_finalize_files [of "ax_writer E" sw now w "Inr f" wf] assms(3) show ?thesis
    by (auto simp: bucket_writer_def)
qed

section \<open>Snapshots and the temporary directory\<close>

lemma write_records_Inr:
  "write_records sw recs w = (Inr sw', w') \<Longrightarrow>
     sw' = appended sw recs \<and> w' = w\<lparr>w_step := w_step w + length recs\<rparr>"
proof (induction recs arbitrary: sw w)
  case Nil
  then show ?case by (simp add: appended_def)
next
  case (Cons rec recs)
  then obtain sw1 where "write_record sw rec w = (Inr (), sw1, tick w)"
    "write_records sw1 recs (tick w) = (Inr sw', w')"
    by (auto split: prod.splits sum.splits dest: write_record_Inr(2))
  with Cons.IH [of sw1 "tick w"] write_record_Inr(1) [of sw rec w sw1 "tick w"] show ?case
    by (simp add: appended_def)
qed

lemma appended_exact: "writer_exact sw \<Longrightarrow> writer_exact (appended sw recs)"
  by (simp add: writer_exact_def writer_ok_def appended_facts)

lemma enqueue_finalized_frame:
  "enqueue_finalized f (s, w) = (r, (s', w')) \<Longrightarrow> s' = s \<and> w_files w' = w_files w"
  using enqueue_finalized_service enqueue_finalized_files by blast

lemma and_then_utc_now [simp]:
  "and_then (on_store utc_now) f (s, w) = f (w_clock w (w_step w)) (s, tick w)"
  by (simp add: and_then_def on_store_def utc_now_def)

lemma open_updates_frame:
  "open_updates E now b (s, w) = (r, (s', w')) \<Longrightarrow> s' = s\<lparr>av_updates_writer := av_updates_writer s'\<rparr>"
  by (cases r) (auto simp: open_updates_def io_simps)

text \<open>What a snapshot that succeeds leaves behind.\<close>

lemma write_snapshot_Inr:
  fixes w w' :: "'z store_scheme"
  assumes run: "write_snapshot E cfg i (s, w) = (Inr f, (s', w'))"
  shows "s' = s\<lparr>av_ribs_last := Some f\<rparr> \<and>
    (\<exists>recs. build_table_dump_v2 (ax_mrt E) i = Inr recs \<and> fs_stream f = Ribs \<and>
       fs_record_count f = of_nat (length recs) \<and>
       w_files w' (fs_final_path f) = Some (wx_compress (ax_writer E) (ac_compression cfg) recs))"
proof -
  from run obtain p b recs sw sw2 and w1 w2 w3 w4 :: "'z store_scheme" where
    new: "segment_writer_new cfg Ribs b p w1 = (Inr sw, w2)"
    and recs: "build_table_dump_v2 (ax_mrt E) i = Inr recs"
    and wr: "write_records sw recs w2 = (Inr sw2, w3)"
    and fin: "writer_finalize (ax_writer E) sw2 (rs_timestamp i) w3 = (Inr f, w4)"
    and w': "w_files w' = w_files w4" and s': "s' = s\<lparr>av_ribs_last := Some f\<rparr>"
    unfolding write_snapshot_def emit_finalized_def
    by (fastforce simp: io_simps dest!: enqueue_finalized_frame)
  note new' = segment_writer_new_Inr [OF new]
  have sw2: "sw2 = appended sw recs" using write_records_Inr [OF wr] by simp
  have "writer_ok sw2" using new'(1) appended_exact [of sw recs] sw2 by (simp add: writer_exact_def)
  from writer_finalize_files [OF fin this] w'
  have data: "w_files w' (sp_final_path p) = Some (writer_data (ax_writer E) sw2)"
    by (auto simp: sw2 appended_facts new')
  have "fs_stream f = sw_stream sw2" "fs_record_count f = sw_record_count sw2"
    "fs_final_path f = sp_final_path (sw_paths sw2)"
    using fin by (auto simp: writer_finalize_stages finalized_def io_simps)
  with data recs s' show ?thesis by (simp add: sw2 appended_facts new' writer_data_def)
qed

lemma write_snapshot_bucket:
  "write_snapshot E cfg i (s, w) = (r, (s', w')) \<Longrightarrow> av_last_rib_bucket s' = av_last_rib_bucket s"
  by (cases r) (auto simp: write_snapshot_def emit_finalized_def io_simps dest!: enqueue_finalized_frame)

lemma ensure_updates_writer_frame:
  assumes "ensure_updates_writer E now (s, w) = (r, (s', w'))"
  shows "s' = s\<lparr>av_updates_writer := av_updates_writer s'\<rparr>"
  using assms unfolding ensure_updates_writer_def
  by (cases r) (auto simp: io_simps split: if_splits dest!: close_updates_service open_updates_frame)

text \<open>The entries of a directory are its direct children.\<close>

definition read_dir_laws :: "('h, 'm, 's, 'a, 'y) archive_ext_scheme \<Rightarrow> bool" where
  "read_dir_laws E \<longleftrightarrow> (\<forall>d fs. \<forall>p \<in> set (ax_read_dir E d fs). \<exists>n. plain_name n \<and> p = join d n)"

lemma touches_remove_temp [touches_intros]: "p \<in> Q \<Longrightarrow> touches Q (remove_temp p)"
  unfolding remove_temp_def by (intro touches_intros) 

lemma cleanup_files:
  assumes "cleanup_tmp_root E d w = (r, w')" "\<And>fs. q \<notin> set (ax_read_dir E d fs)"
  shows "w_files w' q = w_files w q"
proof -
  have "touches (- {q}) (clean_entries E d)"
    unfolding clean_entries_def by (intro touches_intros) (use assms(2) in auto)
  moreover have "w' = tick w \<or> clean_entries E d (tick w) = (r, w')"
    using assms(1) by (auto simp: cleanup_tmp_root_def syscall_def split: option.splits)
  ultimately show ?thesis using touchesD [of "- {q}" "clean_entries E d" "tick w" r w' q] by auto
qed

section \<open>Runs without faults\<close>

lemma segment_writer_new_runs:
  assumes "fault_free w"
  shows "\<exists>sw w'. segment_writer_new cfg s t p w = (Inr sw, w') \<and> fault_free w' \<and>
    w_files w' = (w_files w)(sp_tmp_path p \<mapsto> [])"
  using assms
  by (cases "ac_compression cfg"; cases "parent (sp_tmp_path p)"; cases "parent (sp_final_path p)")
     (auto simp: segment_writer_new_def create_parent_def encoder_new_def create_dir_all_def file_create_def
       and_then_def in_context_def syscall_fault_free set_file_def)

lemma write_records_runs:
  "fault_free w \<Longrightarrow> \<exists>n. write_records sw recs w = (Inr (appended sw recs), w\<lparr>w_step := n\<rparr>)"
proof (induction recs arbitrary: sw w)
  case Nil
  then show ?case by (intro exI [of _ "w_step w"]) (simp add: appended_def)
next
  case (Cons rec recs)
  then show ?case
    using Cons.IH [of "tick w"]
    by (auto simp: write_record_def encoder_write_all_def syscall_fault_free appended_def)
qed

lemma open_updates_runs:
  assumes "fault_free w" "segment_paths (ax_calendar E) (av_cfg s) Updates now = Inr p"
  shows "\<exists>sw w'. open_updates E now b (s, w) = (Inr (), (s\<lparr>av_updates_writer := Some sw\<rparr>, w')) \<and>
    fault_free w' \<and> w_files w' = (w_files w)(sp_tmp_path p \<mapsto> [])"
proof -
  let ?w = "w\<lparr>w_events := w_events w @ [envelope_new (ArchiveSegmentOpened (stream_as_str Updates) (sp_final_path p) b)]\<rparr>"
  have "fault_free ?w" using assms(1) by simp
  from segment_writer_new_runs [OF this, of "av_cfg s" Updates b p] assms(2) show ?thesis
    by (auto simp: open_updates_def and_then_def on_store_def)
qed

text \<open>Without a replicator, closing a segment succeeds when no call fails.\<close>

lemma close_updates_runs:
  assumes "fault_free w" "digest_laws (ax_writer E)" "json_laws (ax_writer E)" "av_replicator s = None"
    "av_updates_writer s = Some sw" "writer_ok sw" "w_files w (sp_tmp_path (sw_paths sw)) \<noteq> None"
  shows "\<exists>w'. close_updates E now (s, w) = (Inr (), (s\<lparr>av_updates_writer := None\<rparr>, w')) \<and> fault_free w' \<and>
    w_files w' (sp_final_path (sw_paths sw)) = Some (writer_data (ax_writer E) sw)"
  using writer_finalize_runs [OF assms(1,6,2,3,7), of now] assms(4,5)
  by (auto simp: close_updates_def and_then_def on_store_def emit_finalized_def enqueue_finalized_def)

lemma write_snapshot_runs:
  assumes "fault_free w" "digest_laws (ax_writer E)" "json_laws (ax_writer E)" "av_replicator s = None"
    "segment_paths (ax_calendar E) cfg Ribs (rs_timestamp i) = Inr p"
    "aligned_epoch (rs_timestamp i) (ac_ribs_interval_secs cfg) = Inr b"
    "build_table_dump_v2 (ax_mrt E) i = Inr recs"
  shows "\<exists>f w'. write_snapshot E cfg i (s, w) = (Inr f, (s\<lparr>av_ribs_last := Some f\<rparr>, w'))"
proof -
  let ?w = "w\<lparr>w_events := w_events w @ [envelope_new (ArchiveSegmentOpened (stream_as_str Ribs) (sp_final_path p) b)]\<rparr>"
  have "fault_free ?w" using assms(1) by simp
  from segment_writer_new_runs [OF this, of cfg Ribs b p] obtain sw w1 where
    new: "segment_writer_new cfg Ribs b p ?w = (Inr sw, w1)" "fault_free w1"
      "w_files w1 = (w_files w)(sp_tmp_path p \<mapsto> [])" by auto
  note sw = segment_writer_new_Inr [OF new(1)]
  obtain n where wr: "write_records sw recs w1 = (Inr (appended sw recs), w1\<lparr>w_step := n\<rparr>)"
    using write_records_runs [OF new(2)] by blast
  have ok: "writer_ok (appended sw recs)" using sw(1) appended_exact by (auto simp: writer_exact_def)
  have "fault_free (w1\<lparr>w_step := n\<rparr>)" "w_files (w1\<lparr>w_step := n\<rparr>) (sp_tmp_path (sw_paths (appended sw recs))) \<noteq> None"
    using new by (simp_all add: appended_facts sw)
  from writer_finalize_runs [OF this(1) ok assms(2,3) this(2), of "rs_timestamp i"] new wr assms(4-7) show ?thesis
    by (auto simp: write_snapshot_def and_then_def on_store_def emit_finalized_def enqueue_finalized_def)
qed

definition runs :: "('z world_scheme, 'a) io \<Rightarrow> bool" where
  "runs m \<longleftrightarrow> (\<forall>w. fault_free w \<longrightarrow> (\<exists>a w'. m w = (Inr a, w') \<and> env_le w w'))"

named_theorems runs_intros "operations that succeed when no call fails"

lemma runs_and_then [runs_intros]:
  assumes "runs m" "\<And>a. runs (f a)"
  shows "runs (and_then m f)"
  unfolding runs_def
proof (intro allI impI)
  fix w :: "'a world_scheme" assume w: "fault_free w"
  with assms(1) obtain a w1 where one: "m w = (Inr a, w1)" "env_le w w1" unfolding runs_def by blast
  with w assms(2) [of a] obtain b w2 where "f a w1 = (Inr b, w2)" "env_le w1 w2"
    unfolding runs_def using env_le_fault_free by blast
  with one show "\<exists>b w'. and_then m f w = (Inr b, w') \<and> env_le w w'"
    by (auto simp: and_then_def intro: env_le_trans)
qed

lemma runs_basic [runs_intros]: "runs (ret a)" "runs (syscall op)" "runs (gets f)"
  by (auto simp: runs_def syscall_fault_free)

lemma runs_in_context [runs_intros]: "runs m \<Longrightarrow> runs (in_context c m)"
  by (fastforce simp: runs_def in_context_def)

lemma runs_modify [runs_intros]: "(\<And>w. env_le w (f w)) \<Longrightarrow> runs (modify f)"
  by (simp add: runs_def)

lemma runs_option [runs_intros]:
  "runs m \<Longrightarrow> (\<And>x. runs (n x)) \<Longrightarrow> runs (case o1 of None \<Rightarrow> m | Some x \<Rightarrow> n x)"
  by (cases o1) simp_all

lemma runs_for_each [runs_intros]: "(\<And>x. runs (f x)) \<Longrightarrow> runs (for_each xs f)"
  by (induction xs) (simp_all add: runs_intros)

lemma runs_remove_temp [runs_intros]: "runs (remove_temp p)"
  by (auto simp: runs_def remove_temp_def remove_file_def content_def ok_or_def and_then_def in_context_def
      syscall_fault_free env_le_def set_file_def split: option.splits)

lemma runs_cleanup [runs_intros]: "runs (cleanup_tmp_root E d)"
proof -
  have "runs (and_then (syscall (OpMetadata d)) (\<lambda>_. clean_entries E d))"
    unfolding clean_entries_def by (intro runs_intros)
  then show ?thesis unfolding runs_def cleanup_tmp_root_def and_then_def
    by (metis (no_types, lifting) old.prod.case syscall_fault_free sum.simps(6))
qed

lemma runs_queue_new [runs_intros]: "runs (queue_new root)"
  unfolding queue_new_def queue_init_def queue_open_def sql_def create_dir_all_def Let_def
  by (intro runs_intros) (simp add: env_le_def)

lemma runs_start_replicator: "runs (start_replicator E cfg)"
proof (cases "ac_enabled cfg")
  case True
  then show ?thesis
    unfolding start_replicator_def create_dir_all_def by (simp add: runs_intros)
qed (simp add: start_replicator_def runs_intros)

lemma archive_new_runs:
  assumes "fault_free w" "ac_enabled cfg"
    and "\<And>n. \<exists>p. segment_paths (ax_calendar E) cfg Updates (w_clock w n) = Inr p"
  shows "\<exists>s w' sw. archive_new E cfg bgp_id w = (Inr s, w') \<and> av_updates_writer s = Some sw \<and>
    (\<exists>n. aligned_epoch (w_clock w n) (ac_updates_interval_secs cfg) = Inr (sw_start_ts sw)) \<and>
    sw_record_count sw = 0 \<and> w_files w' (sp_tmp_path (sw_paths sw)) = Some [] \<and> fault_free w'"
proof -
  obtain rp w1 where st: "start_replicator E cfg w = (Inr rp, w1)" "env_le w w1"
    using runs_start_replicator [of E cfg] assms(1) unfolding runs_def by blast
  let ?s = "fresh_service cfg bgp_id rp" and ?now = "w_clock w (w_step w1)"
  have w1: "fault_free (tick w1)" "w_clock w1 = w_clock w"
    using st(2) assms(1) env_le_fault_free by (auto simp: env_le_def)
  have s: "av_updates_writer ?s = None" "av_cfg ?s = cfg" by (simp_all add: fresh_service_def)
  obtain p where p: "segment_paths (ax_calendar E) cfg Updates ?now = Inr p" using assms(3) by blast
  then obtain b where b: "aligned_epoch ?now (ac_updates_interval_secs cfg) = Inr b"
    by (auto simp: segment_paths_def bind_res_Inr)
  from open_updates_runs [OF w1(1), of E ?s ?now p b] p s obtain sw w' where
    o: "open_updates E ?now b (?s, tick w1) = (Inr (), (?s\<lparr>av_updates_writer := Some sw\<rparr>, w'))"
      "w_files w' (sp_tmp_path p) = Some []" "fault_free w'" by auto
  have inj: "sw = sw'" if "?s\<lparr>av_updates_writer := Some sw\<rparr> = ?s\<lparr>av_updates_writer := Some sw'\<rparr>" for sw'
    using arg_cong [OF that, of av_updates_writer] by simp
  from open_updates_Inr [OF o(1)] b s inj have "bucket_writer E cfg ?now sw" "sw_start_ts sw = b" "writer_exact sw"
    "enc_written (sw_encoder sw) = []" by metis+
  then have "sw_start_ts sw = b" "sw_paths sw = p" "sw_record_count sw = 0"
    using p by (simp_all add: bucket_writer_def writer_exact_def)
  moreover have "archive_new E cfg bgp_id w = (Inr (?s\<lparr>av_updates_writer := Some sw\<rparr>), w')"
    using st(1) assms(2) b s o(1) w1(2)
    by (simp add: archive_new_def ensure_updates_writer_def needs_rotate_def close_updates_none
        and_then_def [of "close_updates E ?now"])
  ultimately show ?thesis using b o(2,3) by auto
qed

end
