(* ===== verification/Archive_Properties.thy ===== *)
theory Archive_Properties
  imports Archive
begin

text \<open>
  The properties of the archive service: what is in the published segments, the invariant of
  the service, what rotation, rollover, the scheduler and the start-up clean-up do.
\<close>

section \<open>Properties\<close>


text \<open>
  C9: every operation of the service keeps its invariant, whichever calls fail: the open writer
  is an updates writer of the service's configuration whose start and paths belong to one
  bucket and whose encoder writes to its temporary file; and a service that starts has it.
\<close>

theorem service_invariant:
  "keeps E (ingest_update E u) \<and> keeps E (ingest_peer_state E p) \<and> keeps E (snapshot_now E i) \<and>
   keeps E (rollover E stream) \<and> keeps E (archive_tick E) \<and>
   (\<forall>w s w'. archive_new E cfg bgp_id w = (Inr s, w') \<longrightarrow> service_ok E s \<and> av_cfg s = cfg)"
proof (intro conjI allI impI)
  show "keeps E (ingest_update E u)" unfolding ingest_update_def by (intro keeps_intros)
  show "keeps E (ingest_peer_state E p)" unfolding ingest_peer_state_def by (intro keeps_intros)
  show "keeps E (snapshot_now E i)" "keeps E (rollover E stream)" "keeps E (archive_tick E)"
    by (rule keeps_snapshot keeps_rollover keeps_tick)+
next
  fix w :: "'z store_scheme" and s w' assume run: "archive_new E cfg bgp_id w = (Inr s, w')"
  show "service_ok E s" "av_cfg s = cfg" by (rule archive_new_service [OF run])+
qed

text \<open>
  C23: when an update has been ingested, whatever failed on the way, it is the last record of
  the open segment, that segment is the one of the update's own bucket, and the records ingested
  before it into the same bucket are still there in front of it.
\<close>

theorem ingest_update_appends:
  assumes "service_ok E s" "ac_enabled (av_cfg s)" "ingest_update E u (s, w) = (Inr (), (s', w'))"
  shows "\<exists>b sw rec. aligned_epoch (ur_timestamp u) (ac_updates_interval_secs (av_cfg s)) = Inr b \<and>
    encode_bgp4mp_message_as4 (ax_mrt E) u = Inr rec \<and>
    av_updates_writer s' = Some sw \<and> sw_start_ts sw = b \<and>
    segment_paths (ax_calendar E) (av_cfg s) Updates (ur_timestamp u) = Inr (sw_paths sw) \<and>
    enc_written (sw_encoder sw) =
      (case av_updates_writer s of
         Some old \<Rightarrow> (if sw_start_ts old = b then enc_written (sw_encoder old) else [])
       | None \<Rightarrow> []) @ [rec]"
proof -
  from assms(2,3) obtain s1 w1 rec where e: "ensure_updates_writer E (ur_timestamp u) (s, w) = (Inr (), (s1, w1))"
    and rec: "encode_bgp4mp_message_as4 (ax_mrt E) u = Inr rec"
    and a: "append_record rec (s1, w1) = (Inr (), (s', w'))"
    by (auto simp: ingest_update_def io_simps)
  from ensure_updates_writer_Inr [OF e assms(1)] obtain b sw where
    b: "aligned_epoch (ur_timestamp u) (ac_updates_interval_secs (av_cfg s)) = Inr b"
    and s1: "s1 = s\<lparr>av_updates_writer := Some sw\<rparr>" and sw: "bucket_writer E (av_cfg s) (ur_timestamp u) sw"
      "sw_start_ts sw = b"
    and w: "if needs_rotate s b then writer_exact sw \<and> enc_written (sw_encoder sw) = []
      else av_updates_writer s = Some sw \<and> w1 = w" by blast
  have old: "enc_written (sw_encoder sw) = (case av_updates_writer s of
         Some old \<Rightarrow> (if sw_start_ts old = b then enc_written (sw_encoder old) else []) | None \<Rightarrow> [])"
    using w sw(2) by (auto simp: needs_rotate_def split: option.splits if_splits)
  from append_record_Inr [OF a] s1 have "av_updates_writer s' = Some (sw\<lparr>sw_encoder := enc_append rec (sw_encoder sw),
      sw_record_count := sw_record_count sw + 1\<rparr>)" by auto
  with b rec sw old show ?thesis by (auto simp: bucket_writer_def)
qed

text \<open>
  C38: a manual rollover inside a bucket loses the records of the bucket so far. The segment is
  finalized and published, and a new one is opened for the same bucket, with the same paths; when
  that one is closed in turn, its data replaces the published segment. With no update in between
  the final path then holds an empty segment.
\<close>

theorem rollover_overwrites:
  assumes ok: "service_ok E s" and layout: "ac_layout_profile (av_cfg s) \<noteq> Custom"
    and sw: "av_updates_writer s = Some sw"
      "aligned_epoch now (ac_updates_interval_secs (av_cfg s)) = Inr (sw_start_ts sw)"
    and rot: "rotate_updates E now (s, w) = (Inr (), (s1, w1))"
    and close: "close_updates E later (s1, w1) = (Inr (), (s2, w2))"
  shows "w_files w1 (sp_final_path (sw_paths sw)) = Some (writer_data (ax_writer E) sw) \<and>
    w_files w2 (sp_final_path (sw_paths sw)) = Some (wx_compress (ax_writer E) (ac_compression (av_cfg s)) [])"
proof -
  let ?final = "sp_final_path (sw_paths sw)"
  from ok sw(1) obtain ts where bw: "bucket_writer E (av_cfg s) ts sw" by (auto simp: service_ok_def)
  from rot obtain sc wc where c: "close_updates E now (s, w) = (Inr (), (sc, wc))"
    and e: "ensure_updates_writer E now (sc, wc) = (Inr (), (s1, w1))"
    by (auto simp: rotate_updates_def io_simps)
  have sc: "sc = s\<lparr>av_updates_writer := None\<rparr>" by (rule close_updates_service [OF c])
  have wc: "w_files wc ?final = Some (writer_data (ax_writer E) sw)"
    by (rule closed_data [OF c sw(1) bw layout])
  from ensure_updates_writer_Inr [OF e] sc ok obtain sw1 where
    s1: "s1 = s\<lparr>av_updates_writer := Some sw1\<rparr>" and sw1: "bucket_writer E (av_cfg s) now sw1"
      "enc_written (sw_encoder sw1) = []"
    by (auto simp: service_ok_def needs_rotate_def)
  have paths: "sw_paths sw1 = sw_paths sw"
    using bucket_writer_same [OF bw sw(2)] sw1(1) by (simp add: bucket_writer_def)
  have o: "open_updates E now (sw_start_ts sw) (sc, wc) = (Inr (), (s1, w1))"
    using e sc sw(2)
    by (simp add: ensure_updates_writer_def needs_rotate_def close_updates_none
        and_then_def [of "close_updates E now"])
  have "w_files w1 ?final = w_files wc ?final"
    by (rule open_updates_files [OF o]) (use writer_paths_apart(2) [OF bw layout] sc in simp)
  moreover have "w_files w2 (sp_final_path (sw_paths sw1)) = Some (writer_data (ax_writer E) sw1)"
    by (rule closed_data [OF close _ _ layout]) (use s1 sw1 in \<open>simp_all add: \<close>)
  moreover have "writer_data (ax_writer E) sw1 = wx_compress (ax_writer E) (ac_compression (av_cfg s)) []"
    using sw1 by (simp add: writer_data_def bucket_writer_def)
  ultimately show ?thesis using wc paths by simp
qed

text \<open>
  a rotation that fails drops the segment: when the writer cannot be finalized, it is no
  longer in the service afterwards, so its records are not written again, and the final path
  holds what it held before or the whole data, never a part.
\<close>

theorem failed_rotation_drops_segment:
  assumes "service_ok E s" "ac_layout_profile (av_cfg s) \<noteq> Custom" "av_updates_writer s = Some sw"
    and "writer_finalize (ax_writer E) sw now w = (Inl err, w0)"
    and "aligned_epoch now (ac_updates_interval_secs (av_cfg s)) = Inr b" "b \<noteq> sw_start_ts sw"
  shows "\<exists>s' w'. ensure_updates_writer E now (s, w) = (Inl err, (s', w')) \<and>
    av_updates_writer s' = None \<and>
    w_files w' (sp_final_path (sw_paths sw)) \<in>
      {w_files w (sp_final_path (sw_paths sw)), Some (writer_data (ax_writer E) sw)}"
proof -
  from assms(1,3) obtain ts where bw: "bucket_writer E (av_cfg s) ts sw" by (auto simp: service_ok_def)
  have "ensure_updates_writer E now (s, w) = (Inl err, (s\<lparr>av_updates_writer := None\<rparr>, w0))"
    using assms(3-6)
    by (simp add: ensure_updates_writer_def needs_rotate_def close_updates_def and_then_def on_store_def)
  moreover have "w_files w0 (sp_final_path (sw_paths sw)) \<in>
      {w_files w (sp_final_path (sw_paths sw)), Some (writer_data (ax_writer E) sw)}"
    using writer_finalize_files [OF assms(4)] bw writer_paths_apart(1) [OF bw assms(2)]
    by (auto simp: bucket_writer_def paths_apart_def)
  ultimately show ?thesis by auto
qed

text \<open>
  C24: the scheduler writes one routing table dump per bucket. When a tick succeeds, the bucket
  of the current time is recorded as done; if it was recorded before, the tick leaves the last
  dump as it is; otherwise it writes one, and a tick that fails records nothing, so the next
  one tries again. The dump consists of the peer index table alone, and that names no peer: the
  scheduler asks for a snapshot without peers and routes.
\<close>

theorem tick_dumps_once:
  assumes enabled: "ac_enabled (av_cfg s)" and run: "archive_tick E (s, w) = (r, (s', w'))"
    and b: "aligned_epoch (w_clock w (w_step w)) (ac_ribs_interval_secs (av_cfg s)) = Inr b"
  shows "av_last_rib_bucket s' = (if r = Inr () then Some b else av_last_rib_bucket s) \<and>
    (r = Inr () \<longrightarrow> av_last_rib_bucket s = Some b \<longrightarrow> av_ribs_last s' = av_ribs_last s) \<and>
    (r = Inr () \<longrightarrow> av_last_rib_bucket s \<noteq> Some b \<longrightarrow>
      (\<exists>f rec. av_ribs_last s' = Some f \<and> fs_record_count f = 1 \<and>
        build_table_dump_v2 (ax_mrt E) (empty_snapshot s (w_clock w (w_step w))) = Inr [rec] \<and>
        w_files w' (fs_final_path f) = Some (wx_compress (ax_writer E) (ac_compression (av_cfg s)) [rec])))"
proof -
  let ?now = "w_clock w (w_step w)" and ?i = "empty_snapshot s (w_clock w (w_step w))"
  obtain r1 s1 w1 where e: "ensure_updates_writer E ?now (s, tick w) = (r1, (s1, w1))"
    by (cases "ensure_updates_writer E ?now (s, tick w)") auto
  note s1 = ensure_updates_writer_frame [OF e]
  have rest: "r1 = Inr () \<Longrightarrow> (if av_last_rib_bucket s \<noteq> Some b
      then and_then (snapshot_now E ?i) (\<lambda>_. update_service (\<lambda>s. s\<lparr>av_last_rib_bucket := Some b\<rparr>))
      else ret ()) (s1, w1) = (r, (s', w'))"
    and early: "r1 = Inl err \<Longrightarrow> r = Inl err \<and> s' = s1" for err
    using run enabled b e
    by (simp_all add: archive_tick_def and_then_def [of "ensure_updates_writer E ?now"])
  have same: "av_last_rib_bucket s1 = av_last_rib_bucket s" "av_ribs_last s1 = av_ribs_last s" "av_cfg s1 = av_cfg s"
    "av_collector_bgp_id s1 = av_collector_bgp_id s"
    using arg_cong [OF s1, of av_last_rib_bucket] arg_cong [OF s1, of av_ribs_last] arg_cong [OF s1, of av_cfg]
      arg_cong [OF s1, of av_collector_bgp_id] by simp_all
  consider err where "r1 = Inl err" | "r1 = Inr ()" "av_last_rib_bucket s = Some b"
    | "r1 = Inr ()" "av_last_rib_bucket s \<noteq> Some b" by (cases r1) auto
  then show ?thesis
  proof cases
    case 1
    with early same show ?thesis by simp
  next
    case 2
    with rest same show ?thesis by auto
  next
    case 3
    have i: "snapshot_input s1 ?i = ?i" by (simp add: snapshot_input_def empty_snapshot_def same)
    obtain r2 s2 w2 where sn: "snapshot_now E ?i (s1, w1) = (r2, (s2, w2))"
      by (cases "snapshot_now E ?i (s1, w1)") auto
    then have wr: "write_snapshot E (av_cfg s) ?i (s1, w1) = (r2, (s2, w2))"
      using enabled same i by (simp add: snapshot_now_def)
    show ?thesis
    proof (cases r2)
      case (Inl err)
      with rest 3 sn have "r = Inl err" "s' = s2" by (simp_all add: and_then_def)
      moreover have "av_last_rib_bucket s2 = av_last_rib_bucket s1"
        by (rule write_snapshot_bucket [OF wr])
      ultimately show ?thesis using same by simp
    next
      case (Inr f)
      with rest 3 sn have "r = Inr ()" "s' = s2\<lparr>av_last_rib_bucket := Some b\<rparr>" "w' = w2"
        by (simp_all add: and_then_def)
      moreover obtain rec where "build_table_dump_v2 (ax_mrt E) ?i = Inr [rec]"
        by (auto simp: build_table_dump_v2_def empty_snapshot_def build_peer_index_table_def split: prod.splits)
      ultimately show ?thesis using write_snapshot_Inr [of E "av_cfg s" ?i s1 w1 f s2 w2] wr Inr 3 by auto
    qed
  qed
qed

text \<open>
  the clean-up of the temporary directory at the start does not reach the temporary files
  of segments. It removes files directly in the temporary root, and in the fixed layouts every
  temporary segment lies in a subdirectory, so what an interrupted run has left stays there.
\<close>

theorem cleanup_leaves_segments:
  assumes "read_dir_laws E" "ac_layout_profile cfg \<noteq> Custom"
    and "ac_collector_id cfg \<noteq> ''''" "\<not> is_absolute (ac_collector_id cfg)"
    and p: "segment_paths cal cfg stream t = Inr p"
    and run: "cleanup_tmp_root E (ac_tmp_root cfg) w = (r, w')"
  shows "w_files w' (sp_tmp_path p) = w_files w (sp_tmp_path p)"
proof (rule cleanup_files [OF run], rule notI)
  fix fs assume "sp_tmp_path p \<in> set (ax_read_dir E (ac_tmp_root cfg) fs)"
  with assms(1) obtain n where n: "plain_name n" "sp_tmp_path p = join (ac_tmp_root cfg) n"
    unfolding read_dir_laws_def by blast
  obtain a dt where "aligned_epoch t (stream_interval cfg stream) = Inr a" "cal a = Some dt"
    using p assms(2) by (rule segment_paths_Inr)
  with segment_paths_fixed [OF assms(2)] p have tmp: "sp_tmp_path p =
      join (ac_tmp_root cfg) (seg_dir cfg stream dt @ slash # ''.'' @ seg_file cfg stream dt @ ''.tmp'')" by auto
  have "\<not> is_absolute n" using plain_nameD [OF n(1)] by (cases n) (auto simp: is_absolute_def)
  moreover have "\<not> is_absolute (seg_dir cfg stream dt @ slash # ''.'' @ seg_file cfg stream dt @ ''.tmp'')"
    using assms(3,4)
    by (cases "ac_collector_id cfg"; cases "ac_layout_profile cfg")
       (auto simp: is_absolute_def seg_dir_def seg_subdir_def)
  ultimately have "n = seg_dir cfg stream dt @ slash # ''.'' @ seg_file cfg stream dt @ ''.tmp''"
    using join_inj [of n _ "ac_tmp_root cfg"] n(2) tmp by simp
  with plain_nameD(1) [OF n(1)] show False by simp
qed

text \<open>
  the archive starts. When no call into the environment fails and the paths of the current
  bucket can be formed, \<^verbatim>\<open>ArchiveService::new\<close> returns a service, and the service of an enabled
  archive has an empty segment open for the bucket of the current time.
\<close>

theorem archive_new_starts:
  assumes "fault_free w" "ac_enabled cfg"
    and "\<And>n. \<exists>p. segment_paths (ax_calendar E) cfg Updates (w_clock w n) = Inr p"
  shows "\<exists>s w' sw. archive_new E cfg bgp_id w = (Inr s, w') \<and> av_updates_writer s = Some sw \<and>
    (\<exists>n. aligned_epoch (w_clock w n) (ac_updates_interval_secs cfg) = Inr (sw_start_ts sw)) \<and>
    sw_record_count sw = 0 \<and> w_files w' (sp_tmp_path (sw_paths sw)) = Some []"
  using archive_new_runs [OF assms] by blast

section \<open>Witnesses\<close>

definition demo_archive_ext :: "(bytes, bytes, u16, bytes) archive_ext" where
  "demo_archive_ext =
     \<lparr>ax_writer = demo_writer_ext, ax_mrt = demo_mrt_ext, ax_calendar = gregorian, ax_hash_order = id,
      ax_read_dir = (\<lambda>d fs. filter (\<lambda>p. fs p \<noteq> None) [join d ''old.tmp''])\<rparr>"

definition demo_archive :: archive_config where
  "demo_archive = default_archive\<lparr>ac_enabled := True\<rparr>"

definition demo_segment :: "seg_paths \<Rightarrow> segment_writer" where
  "demo_segment p =
     \<lparr>sw_cfg = demo_archive, sw_stream = Updates, sw_start_ts = 1700000100, sw_paths = p,
      sw_encoder = GzipEnc (sp_tmp_path p) [], sw_record_count = 0\<rparr>"

definition demo_service :: "segment_writer option \<Rightarrow> archive_service" where
  "demo_service sw = (fresh_service demo_archive (Ipv4 192 0 2 1) None)\<lparr>av_updates_writer := sw\<rparr>"

definition demo_update :: update_record_input where
  "demo_update =
     \<lparr>ur_timestamp = 1700000200, ur_peer_asn = 64512, ur_local_asn = 64513, ur_interface_index = 0,
      ur_peer_ip = Ipv4 198 51 100 1, ur_local_ip = Ipv4 192 0 2 1, ur_bgp_message = replicate 23 0\<rparr>"

lemma demo_archive_ext_simps [simp]:
  "ax_writer demo_archive_ext = demo_writer_ext" "ax_mrt demo_archive_ext = demo_mrt_ext"
  "ax_calendar demo_archive_ext = gregorian"
  by (simp_all add: demo_archive_ext_def)

lemma demo_archive_simps [simp]:
  "ac_enabled demo_archive" "ac_layout_profile demo_archive \<noteq> Custom" "ac_updates_interval_secs demo_archive = 900"
  "ac_ribs_interval_secs demo_archive = 7200" "ac_compression demo_archive = Gzip"
  by (simp_all add: demo_archive_def default_archive_def config_defaults)

lemma demo_service_simps [simp]:
  "av_cfg (demo_service sw) = demo_archive" "av_updates_writer (demo_service sw) = sw"
  by (simp_all add: demo_service_def fresh_service_def)

lemma demo_buckets [simp]:
  "aligned_epoch 1700000100 900 = Inr 1700000100" "aligned_epoch 1700000200 900 = Inr 1700000100"
  "aligned_epoch 1700001000 900 = Inr 1700001000" "aligned_epoch 1700000200 7200 = Inr 1699999200"
  by (simp_all add: aligned_epoch_plain)

lemma demo_segment_bucket:
  obtains p where "segment_paths gregorian demo_archive Updates 1700000100 = Inr p"
    "bucket_writer demo_archive_ext demo_archive 1700000100 (demo_segment p)"
proof -
  obtain p where p: "segment_paths gregorian demo_archive Updates 1700000100 = Inr p"
    by (rule segment_paths_default [OF demo_archive_simps(2)]) auto
  then show thesis by (intro that) (simp_all add: bucket_writer_def demo_segment_def writer_ok_def)
qed

lemma demo_segment_simps [simp]:
  "sw_start_ts (demo_segment p) = 1700000100" "sw_paths (demo_segment p) = p"
  "enc_written (sw_encoder (demo_segment p)) = []"
  by (simp_all add: demo_segment_def)

lemma demo_update_record:
  obtains rec where "encode_bgp4mp_message_as4 demo_mrt_ext demo_update = Inr rec" "length rec < 2 ^ 32"
proof -
  have "\<exists>rec. encode_bgp4mp_message_as4 demo_mrt_ext demo_update = Inr rec \<and> length rec < 2 ^ 32"
    by (simp add: encode_bgp4mp_message_as4_def parse_update_message_def demo_mrt_ext_def demo_update_def
        encode_mrt_message_def Let_def demo_header_encode_def)
  then show thesis using that by blast
qed

definition demo_env :: "(path \<Rightarrow> bytes option) \<Rightarrow> store" where
  "demo_env fs = (demo_store fs)\<lparr>w_fault := (\<lambda>_ _. None), w_clock := (\<lambda>_. 1700000200)\<rparr>"

lemma demo_env_simps [simp]: "fault_free (demo_env fs)" "w_files (demo_env fs) = fs" "w_clock (demo_env fs) n = 1700000200"
  "w_fault (demo_env fs) n op = None"
  by (simp_all add: demo_env_def demo_store_def fault_free_def)


theorem tick_dumps_once_witness:
  "\<exists>p s' w' f rec. segment_paths gregorian demo_archive Updates 1700000100 = Inr p \<and>
    archive_tick demo_archive_ext (demo_service (Some (demo_segment p)), demo_env Map.empty) = (Inr (), (s', w')) \<and>
    av_last_rib_bucket s' = Some 1699999200 \<and> av_ribs_last s' = Some f \<and> fs_record_count f = 1 \<and>
    w_files w' (fs_final_path f) = Some rec"
proof -
  obtain p where p: "segment_paths gregorian demo_archive Updates 1700000100 = Inr p" by (rule demo_segment_bucket)
  let ?s = "demo_service (Some (demo_segment p))" and ?w = "demo_env Map.empty"
  let ?i = "empty_snapshot ?s 1700000200"
  obtain q where q: "segment_paths gregorian demo_archive Ribs 1700000200 = Inr q"
    by (rule segment_paths_default [OF demo_archive_simps(2)]) (auto simp: stream_interval_def)
  obtain rec where rec: "build_table_dump_v2 demo_mrt_ext ?i = Inr [rec]"
    by (auto simp: build_table_dump_v2_def empty_snapshot_def build_peer_index_table_def split: prod.splits)
  have s: "av_replicator ?s = None" "av_last_rib_bucket ?s = None"
    by (simp_all add: demo_service_def fresh_service_def)
  have i: "snapshot_input ?s ?i = ?i" "rs_timestamp ?i = 1700000200"
    by (simp_all add: snapshot_input_def empty_snapshot_def)
  obtain f w' where run: "write_snapshot demo_archive_ext demo_archive ?i (?s, tick ?w) = (Inr f, (?s\<lparr>av_ribs_last := Some f\<rparr>, w'))"
    using write_snapshot_runs [of "tick ?w" demo_archive_ext ?s demo_archive ?i q 1699999200 "[rec]"] s q rec i
    by (auto simp: demo_writer_ext_laws)
  have "ensure_updates_writer demo_archive_ext 1700000200 (?s, tick ?w) = (Inr (), (?s, tick ?w))"
    by (simp add: ensure_updates_writer_def needs_rotate_def)
  moreover have "snapshot_now demo_archive_ext ?i (?s, tick ?w) = (Inr f, (?s\<lparr>av_ribs_last := Some f\<rparr>, w'))"
    using run i by (simp add: snapshot_now_def)
  ultimately have tick: "archive_tick demo_archive_ext (?s, ?w) =
      (Inr (), (?s\<lparr>av_ribs_last := Some f, av_last_rib_bucket := Some 1699999200\<rparr>, w'))"
    using s by (simp add: archive_tick_def and_then_def [of "ensure_updates_writer demo_archive_ext 1700000200"]
        and_then_def [of "snapshot_now demo_archive_ext ?i"])
  from tick_dumps_once [OF _ tick, of 1699999200] tick p s(2) show ?thesis by auto
qed

theorem cleanup_leaves_segments_witness:
  "\<exists>p r w'. segment_paths gregorian demo_archive Updates 1700000100 = Inr p \<and>
    cleanup_tmp_root demo_archive_ext (ac_tmp_root demo_archive) (demo_env [sp_tmp_path p \<mapsto> [7]]) = (r, w') \<and>
    w_files w' (sp_tmp_path p) = Some [7]"
proof -
  obtain p where p: "segment_paths gregorian demo_archive Updates 1700000100 = Inr p" by (rule demo_segment_bucket)
  obtain r w' where run: "cleanup_tmp_root demo_archive_ext (ac_tmp_root demo_archive)
      (demo_env [sp_tmp_path p \<mapsto> [7]]) = (r, w')" by force
  have "read_dir_laws demo_archive_ext"
    by (auto simp: read_dir_laws_def demo_archive_ext_def plain_name_def intro!: exI [of _ "''old.tmp''"])
  moreover have "ac_collector_id demo_archive \<noteq> ''''" "\<not> is_absolute (ac_collector_id demo_archive)"
    by (simp_all add: demo_archive_def default_archive_def config_defaults is_absolute_def)
  ultimately show ?thesis
    using cleanup_leaves_segments [OF _ demo_archive_simps(2) _ _ p run] p run by simp
qed

theorem ingest_update_appends_witness:
  "\<exists>p s' w' sw rec. segment_paths gregorian demo_archive Updates 1700000100 = Inr p \<and>
    ingest_update demo_archive_ext demo_update (demo_service (Some (demo_segment p)), demo_env Map.empty) =
      (Inr (), (s', w')) \<and>
    av_updates_writer s' = Some sw \<and> sw_start_ts sw = 1700000100 \<and> enc_written (sw_encoder sw) = [rec]"
proof -
  obtain p where p: "segment_paths gregorian demo_archive Updates 1700000100 = Inr p"
    "bucket_writer demo_archive_ext demo_archive 1700000100 (demo_segment p)" by (rule demo_segment_bucket)
  let ?s = "demo_service (Some (demo_segment p))"
  obtain rec where rec: "encode_bgp4mp_message_as4 demo_mrt_ext demo_update = Inr rec" by (rule demo_update_record)
  have t: "ur_timestamp demo_update = 1700000200" by (simp add: demo_update_def)
  have ok: "service_ok demo_archive_ext ?s" using p(2) by (auto simp: service_ok_def)
  obtain s' w' where run: "ingest_update demo_archive_ext demo_update (?s, demo_env Map.empty) = (Inr (), (s', w'))"
    using ingest_update_same_bucket [of "demo_env Map.empty" ?s "demo_segment p" demo_update demo_archive_ext rec] t rec
    by simp
  from ingest_update_appends [OF ok _ run] run p(1) t show ?thesis by auto
qed

theorem rollover_overwrites_witness:
  "\<exists>p s1 w1 s2 w2. segment_paths gregorian demo_archive Updates 1700000100 = Inr p \<and>
    rotate_updates demo_archive_ext 1700000100
      (demo_service (Some (appended (demo_segment p) [[1, 2], [3]])), demo_env [sp_tmp_path p \<mapsto> []]) = (Inr (), (s1, w1)) \<and>
    close_updates demo_archive_ext 1700001000 (s1, w1) = (Inr (), (s2, w2)) \<and>
    w_files w1 (sp_final_path p) = Some [1, 2, 3] \<and> w_files w2 (sp_final_path p) = Some []"
proof -
  obtain p where p: "segment_paths gregorian demo_archive Updates 1700000100 = Inr p"
    "bucket_writer demo_archive_ext demo_archive 1700000100 (demo_segment p)" by (rule demo_segment_bucket)
  let ?sw = "appended (demo_segment p) [[1, 2], [3]]"
  let ?s = "demo_service (Some ?sw)" and ?w = "demo_env [sp_tmp_path p \<mapsto> []]"
  have bw: "bucket_writer demo_archive_ext demo_archive 1700000100 ?sw"
    using p(2) by (simp add: bucket_writer_def writer_ok_def appended_facts)
  then have ok: "service_ok demo_archive_ext ?s" "writer_ok ?sw" by (auto simp: service_ok_def) (simp add: bucket_writer_def)
  have none: "av_replicator (demo_service x) = None" for x by (simp add: demo_service_def fresh_service_def)
  obtain wc where c: "close_updates demo_archive_ext 1700000100 (?s, ?w) = (Inr (), (demo_service None, wc))" "fault_free wc"
    using close_updates_runs [of ?w demo_archive_ext ?s ?sw 1700000100] ok(2) none
    by (auto simp: demo_writer_ext_laws appended_facts demo_service_def)
  obtain sw1 w1 where o: "open_updates demo_archive_ext 1700000100 1700000100 (demo_service None, wc) =
      (Inr (), (demo_service (Some sw1), w1))" "fault_free w1" "w_files w1 (sp_tmp_path p) = Some []"
    using open_updates_runs [OF c(2), of demo_archive_ext "demo_service None" 1700000100 p 1700000100] p(1)
    by (auto simp: demo_service_def fresh_service_def)
  have rot: "rotate_updates demo_archive_ext 1700000100 (?s, ?w) = (Inr (), (demo_service (Some sw1), w1))"
    using c o by (simp add: rotate_updates_def and_then_def [of "close_updates demo_archive_ext 1700000100"]
        ensure_updates_writer_def needs_rotate_def close_updates_none)
  from open_updates_Inr [OF o(1)] p(1) have sw1: "bucket_writer demo_archive_ext demo_archive 1700000100 sw1"
    by (auto simp: demo_service_def fresh_service_def)
  then have "sw_paths sw1 = p" "writer_ok sw1" using p(1) by (simp_all add: bucket_writer_def)
  then obtain s2 w2 where close: "close_updates demo_archive_ext 1700001000 (demo_service (Some sw1), w1) = (Inr (), (s2, w2))"
    using close_updates_runs [of w1 demo_archive_ext "demo_service (Some sw1)" sw1 1700001000] o none
    by (auto simp: demo_writer_ext_laws)
  have data: "writer_data demo_writer_ext ?sw = [1, 2, 3]" "wx_compress demo_writer_ext Gzip [] = []" "sw_paths ?sw = p"
    by (simp_all add: writer_data_def demo_writer_ext_def appended_facts)
  from rollover_overwrites [OF ok(1) _ _ _ rot close, of ?sw] p(1) rot close data show ?thesis
    by (auto simp: appended_facts)
qed

lemma finish_and_sync_fault: "finish_and_sync X sw w = (r, w') \<Longrightarrow> w_fault w' = w_fault w"
  by (cases r) (auto simp: finish_and_sync_def io_simps dest!: encoder_finish_Inr encoder_finish_Inl split: if_splits)

theorem failed_rotation_drops_segment_witness:
  "\<exists>p s' w' err. segment_paths gregorian demo_archive Updates 1700000100 = Inr p \<and>
    ensure_updates_writer demo_archive_ext 1700001000
      (demo_service (Some (demo_segment p)), (demo_env [sp_tmp_path p \<mapsto> []])\<lparr>w_fault := rename_fails\<rparr>) =
      (Inl err, (s', w')) \<and> av_updates_writer s' = None"
proof -
  obtain p where p: "segment_paths gregorian demo_archive Updates 1700000100 = Inr p"
    "bucket_writer demo_archive_ext demo_archive 1700000100 (demo_segment p)" by (rule demo_segment_bucket)
  let ?s = "demo_service (Some (demo_segment p))" and ?w = "(demo_env [sp_tmp_path p \<mapsto> []])\<lparr>w_fault := rename_fails\<rparr>"
  have ok: "service_ok demo_archive_ext ?s" using p(2) by (auto simp: service_ok_def)
  obtain err w0 where "writer_finalize demo_writer_ext (demo_segment p) 1700001000 ?w = (Inl err, w0)"
  proof (cases "writer_finalize demo_writer_ext (demo_segment p) 1700001000 ?w")
    case (Pair r w0)
    show thesis
    proof (cases r)
      case (Inr f)
      with Pair obtain w1 where w1: "finish_and_sync demo_writer_ext (demo_segment p) ?w = (Inr (), w1)"
        "w_fault w1 (w_step w1) (OpRename (sp_tmp_path p) (sp_final_path p)) = None"
        by (auto simp: writer_finalize_stages io_simps publish_rename_Inr)
      from finish_and_sync_fault [OF w1(1)] w1(2) show thesis by (simp add: rename_fails_def)
    qed (use Pair that in simp)
  qed
  with failed_rotation_drops_segment [OF ok, of "demo_segment p" 1700001000 ?w err w0 1700001000] p(1) show ?thesis
    by auto
qed

lemma demo_starts:
  obtains s w' sw where "archive_new demo_archive_ext demo_archive (Ipv4 192 0 2 1) (demo_env Map.empty) = (Inr s, w')"
    "av_updates_writer s = Some sw"
proof -
  have "\<exists>p. segment_paths gregorian demo_archive Updates 1700000200 = Inr p"
    by (rule segment_paths_default [OF demo_archive_simps(2)]) auto
  then show thesis
    using archive_new_runs [of "demo_env Map.empty" demo_archive demo_archive_ext "Ipv4 192 0 2 1"] that by auto
qed

theorem archive_new_starts_witness:
  "\<exists>s w' sw. archive_new demo_archive_ext demo_archive (Ipv4 192 0 2 1) (demo_env Map.empty) = (Inr s, w') \<and>
    av_updates_writer s = Some sw \<and> sw_start_ts sw = 1700000100 \<and> w_files w' (sp_tmp_path (sw_paths sw)) = Some []"
proof -
  have "\<exists>p. segment_paths gregorian demo_archive Updates 1700000200 = Inr p"
    by (rule segment_paths_default [OF demo_archive_simps(2)]) auto
  then show ?thesis
    using archive_new_starts [of "demo_env Map.empty" demo_archive demo_archive_ext "Ipv4 192 0 2 1"] by auto
qed

theorem service_invariant_witness:
  "\<exists>s w'. archive_new demo_archive_ext demo_archive (Ipv4 192 0 2 1) (demo_env Map.empty) = (Inr s, w') \<and>
    service_ok demo_archive_ext s \<and> av_cfg s = demo_archive"
proof -
  obtain s w' where "archive_new demo_archive_ext demo_archive (Ipv4 192 0 2 1) (demo_env Map.empty) = (Inr s, w')"
    by (rule demo_starts)
  with service_invariant [of demo_archive_ext demo_update undefined "empty_snapshot s 0" Updates demo_archive "Ipv4 192 0 2 1"]
  show ?thesis by blast
qed

end
