(* ===== verification/Async.thy ===== *)
theory Async
  imports Snapshot
begin

text \<open>
  Asynchronous computations of the BGP part: the \<^verbatim>\<open>async fn\<close>s that talk to a peer. Such a
  computation is done with a value, has failed, or waits; it waits when the peer or the
  operating system never answers, and a loop that is followed for a number of rounds waits
  when the rounds are used up. The state that is kept then is the one in which it waits, and
  \<^verbatim>\<open>tokio::time::timeout\<close> goes on from there: what the cancelled computation has read is gone.

  The network of one task is the record \<open>net\<close>. Calls are numbered by \<open>nt_step\<close>; from the
  number the environment decides whether a call fails or stalls, how long it takes and how
  many bytes have arrived when a wait ends. Nothing is assumed about these. Time is counted in
  nanoseconds and only grows.
\<close>

datatype 'a outcome = Done 'a | Failed error | Waits

type_synonym ('w, 'a) task = "'w \<Rightarrow> 'a outcome \<times> 'w"

definition done_with :: "'a \<Rightarrow> ('w, 'a) task" where
  "done_with a w = (Done a, w)"

definition bail :: "error \<Rightarrow> ('w, 'a) task" where
  "bail e w = (Failed e, w)"

definition of_result :: "'a result \<Rightarrow> ('w, 'a) task" where
  "of_result r w = ((case r of Inl e \<Rightarrow> Failed e | Inr a \<Rightarrow> Done a), w)"

definition await :: "('w, 'a) task \<Rightarrow> ('a \<Rightarrow> ('w, 'b) task) \<Rightarrow> ('w, 'b) task" where
  "await m f w =
     (case m w of (Done a, w') \<Rightarrow> f a w' | (Failed e, w') \<Rightarrow> (Failed e, w') | (Waits, w') \<Rightarrow> (Waits, w'))"

definition task_context :: "string \<Rightarrow> ('w, 'a) task \<Rightarrow> ('w, 'a) task" where
  "task_context c m w =
     (case m w of (Failed e, w') \<Rightarrow> (Failed (add_context c e), w') | (r, w') \<Rightarrow> (r, w'))"

definition change :: "('w \<Rightarrow> 'w) \<Rightarrow> ('w, unit) task" where
  "change f w = (Done (), f w)"

definition asks :: "('w \<Rightarrow> 'a) \<Rightarrow> ('w, 'a) task" where
  "asks f w = (Done (f w), w)"

fun await_each :: "'a list \<Rightarrow> ('a \<Rightarrow> ('w, unit) task) \<Rightarrow> ('w, unit) task" where
  "await_each [] f = done_with ()"
| "await_each (x # xs) f = await (f x) (\<lambda>_. await_each xs f)"

named_theorems task_simps "inversion rules for asynchronous computations"

lemma task_basic [simp]:
  "done_with a w = (Done a, w)" "bail e w = (Failed e, w)" "change g w = (Done (), g w)"
  "asks h w = (Done (h w), w)" "of_result (Inr a) w = (Done a, w)" "of_result (Inl e) w = (Failed e, w)"
  by (simp_all add: done_with_def bail_def change_def asks_def of_result_def)

lemma await_basic [simp]:
  "await (done_with a) f w = f a w" "await (bail e) f w = (Failed e, w)"
  "await (change g) k w = k () (g w)" "await (asks h) f w = f (h w) w"
  by (simp_all add: await_def)

lemma await_run:
  "m w = (Done a, w') \<Longrightarrow> await m f w = f a w'"
  "m w = (Failed e, w') \<Longrightarrow> await m f w = (Failed e, w')"
  "m w = (Waits, w') \<Longrightarrow> await m f w = (Waits, w')"
  by (simp_all add: await_def)

lemma await_Done [task_simps]:
  "await m f w = (Done b, w'') \<longleftrightarrow> (\<exists>a w'. m w = (Done a, w') \<and> f a w' = (Done b, w''))"
  by (auto simp: await_def split: prod.splits outcome.splits)

lemma of_result_Done [task_simps]: "of_result r w = (Done a, w') \<longleftrightarrow> r = Inr a \<and> w' = w"
  by (auto simp: of_result_def split: sum.splits)

lemma task_context_Done [task_simps]: "task_context c m w = (Done a, w') \<longleftrightarrow> m w = (Done a, w')"
  by (auto simp: task_context_def split: prod.splits outcome.splits)

lemma task_context_snd [simp]: "snd (task_context c m w) = snd (m w)"
  by (simp add: task_context_def split: prod.splits outcome.splits)

lemma await_assoc: "await (await m f) g = await m (\<lambda>a. await (f a) g)"
  by (rule ext) (simp add: await_def split: prod.splits outcome.splits)

section \<open>Frames\<close>

text \<open>
  What a computation leaves unchanged, or only lets grow, is a reflexive and transitive relation
  between the states before and after it. Such a relation passes from the parts of a computation
  to the whole, whether the whole is done, has failed or waits.
\<close>

locale step_frame =
  fixes R :: "'w \<Rightarrow> 'w \<Rightarrow> bool"
  assumes frame_refl: "R w w" and frame_trans: "R a b \<Longrightarrow> R b c \<Longrightarrow> R a c"
begin

lemma frame_await:
  assumes "\<forall>w. R w (snd (m w))" "\<And>a. \<forall>w. R w (snd (f a w))"
  shows "\<forall>w. R w (snd (await m f w))"
proof
  fix w
  obtain r w1 where m: "m w = (r, w1)" by force
  with assms(1) have one: "R w w1" by (metis snd_conv)
  show "R w (snd (await m f w))"
    using m one assms(2) frame_trans by (cases r) (auto simp: await_def)
qed

lemma frame_basic:
  "\<forall>w. R w (snd (done_with a w))" "\<forall>w. R w (snd (bail e w))" "\<forall>w. R w (snd (of_result r w))" "\<forall>w. R w (snd (asks f w))"
  by (simp_all add: frame_refl of_result_def)

lemma frame_if: "\<forall>w. R w (snd (m w)) \<Longrightarrow> \<forall>w. R w (snd (n w)) \<Longrightarrow> \<forall>w. R w (snd ((if b then m else n) w))"
  by simp

lemma frame_context: "\<forall>w. R w (snd (m w)) \<Longrightarrow> \<forall>w. R w (snd (task_context c m w))"
  by simp

lemma frame_each: "(\<And>x. \<forall>w. R w (snd (f x w))) \<Longrightarrow> \<forall>w. R w (snd (await_each xs f w))"
proof (induction xs)
  case Nil
  then show ?case by (simp add: frame_refl)
next
  case (Cons x xs)
  then show ?case unfolding await_each.simps by (intro frame_await) simp_all
qed

end

lemma await_each_map: "await_each (map f xs) g = await_each xs (\<lambda>x. g (f x))"
  by (induction xs) simp_all

section \<open>The network of a task\<close>

record md5sig =
  tcpm_addr :: bytes
  tcpm_flags :: u8
  tcpm_prefixlen :: u8
  tcpm_keylen :: u16
  tcpm_ifindex :: u32
  tcpm_key :: bytes

datatype net_op =
    SockNewV4
  | SockNewV6
  | SockBind socket_addr
  | SockConnect socket_addr
  | SockListen socket_addr
  | SockAccept
  | SockMd5 md5sig
  | SockWrite

text \<open>
  \<open>nt_inbox\<close>: what the peer has still to send on the connection; \<open>nt_closed\<close>: the peer closes
  it after that, rather than falling silent; \<open>nt_window\<close>: how many bytes of it arrive before the
  current wait ends (the end of the stream counts as one), unbounded outside \<^verbatim>\<open>timeout\<close>; \<open>nt_conns\<close>: what the peer of a connection
  made at a step sends; \<open>nt_part\<close>: how much of a failing write has been sent.
\<close>

record net =
  nt_inbox :: bytes
  nt_closed :: bool
  nt_window :: "nat option"
  nt_outbox :: bytes
  nt_fault :: "nat \<Rightarrow> net_op \<Rightarrow> string option"
  nt_stall :: "nat \<Rightarrow> bool"
  nt_delay :: "nat \<Rightarrow> nat"
  nt_arrived :: "nat \<Rightarrow> nat"
  nt_part :: "nat \<Rightarrow> nat"
  nt_conns :: "nat \<Rightarrow> bytes \<times> bool"
  nt_caller :: "nat \<Rightarrow> socket_addr"
  nt_utc :: "nat \<Rightarrow> int"
  nt_time :: nat
  nt_step :: nat

definition pass :: "'z net_scheme \<Rightarrow> 'z net_scheme" where
  "pass w = w\<lparr>nt_step := Suc (nt_step w), nt_time := nt_time w + nt_delay w (nt_step w)\<rparr>"

definition net_call :: "net_op \<Rightarrow> ('z net_scheme, unit) task" where
  "net_call op w =
     (if nt_stall w (nt_step w) then (Waits, w)
      else case nt_fault w (nt_step w) op of
             Some m \<Rightarrow> (Failed (Msg m), pass w)
           | None \<Rightarrow> (Done (), pass w))"

definition instant_now :: "('z net_scheme, nat) task" where
  "instant_now = asks nt_time"

definition net_utc_now :: "('z net_scheme, int) task" where
  "net_utc_now w = (Done (nt_utc w (nt_step w)), pass w)"

text \<open>A new connection has its own bytes in both directions.\<close>

definition fresh_stream :: "nat \<Rightarrow> 'z net_scheme \<Rightarrow> 'z net_scheme" where
  "fresh_stream k w =
     w\<lparr>nt_inbox := fst (nt_conns w k), nt_closed := snd (nt_conns w k), nt_window := None, nt_outbox := []\<rparr>"

definition tcp_connect :: "socket_addr \<Rightarrow> ('z net_scheme, unit) task" where
  "tcp_connect a = await (asks nt_step) (\<lambda>k. await (net_call (SockConnect a)) (\<lambda>_. change (fresh_stream k)))"

definition tcp_accept :: "('z net_scheme, socket_addr) task" where
  "tcp_accept =
     await (asks nt_step) (\<lambda>k.
     await (net_call SockAccept) (\<lambda>_.
     await (change (fresh_stream k)) (\<lambda>_. asks (\<lambda>w. nt_caller w k))))"

definition write_all :: "bytes \<Rightarrow> ('z net_scheme, unit) task" where
  "write_all bs w =
     (case net_call SockWrite w of
        (Done _, w') \<Rightarrow> (Done (), w'\<lparr>nt_outbox := nt_outbox w @ bs\<rparr>)
      | (r, w') \<Rightarrow> (r, w'\<lparr>nt_outbox := nt_outbox w @ take (nt_part w (nt_step w)) bs\<rparr>))"

text \<open>
  \<^verbatim>\<open>read_exact\<close>: the buffer is filled, or the end of the stream is met, or the bytes that have
  arrived are in the buffer and the computation waits for more.
\<close>

definition early_eof :: error where
  "early_eof = Msg ''early eof''"

definition in_window :: "'z net_scheme \<Rightarrow> nat" where
  "in_window w = (case nt_window w of None \<Rightarrow> length (nt_inbox w) | Some k \<Rightarrow> min k (length (nt_inbox w)))"

definition eof_in_window :: "'z net_scheme \<Rightarrow> bool" where
  "eof_in_window w \<longleftrightarrow>
     nt_closed w \<and> (case nt_window w of None \<Rightarrow> True | Some k \<Rightarrow> length (nt_inbox w) < k)"

definition consume :: "nat \<Rightarrow> 'z net_scheme \<Rightarrow> 'z net_scheme" where
  "consume n w = w\<lparr>nt_inbox := drop n (nt_inbox w), nt_window := map_option (\<lambda>k. k - n) (nt_window w)\<rparr>"

definition read_exact :: "nat \<Rightarrow> ('z net_scheme, bytes) task" where
  "read_exact n w =
     (if n \<le> in_window w then (Done (take n (nt_inbox w)), consume n w)
      else if eof_in_window w then (Failed early_eof, consume (in_window w) w)
      else (Waits, consume (in_window w) w))"

text \<open>
  \<^verbatim>\<open>timeout(dur, m)\<close>: the value or error of the computation, or nothing when the time is up.
\<close>

definition time_limit :: "nat \<Rightarrow> ('z net_scheme, 'a) task \<Rightarrow> ('z net_scheme, 'a result option) task" where
  "time_limit dur m w =
     (case m (w\<lparr>nt_window := Some (nt_arrived w (nt_step w))\<rparr>) of
        (Done a, w') \<Rightarrow> (Done (Some (Inr a)), pass (w'\<lparr>nt_window := None\<rparr>))
      | (Failed e, w') \<Rightarrow> (Done (Some (Inl e)), pass (w'\<lparr>nt_window := None\<rparr>))
      | (Waits, w') \<Rightarrow> (Done None, pass (w'\<lparr>nt_window := None, nt_time := nt_time w' + dur\<rparr>)))"

end
