(* ===== verification/Auth.thy ===== *)
theory Auth
  imports Async
begin

text \<open>
  \<^verbatim>\<open>src/bgp/auth.rs\<close>: the TCP MD5 option of a socket. The structure handed to the kernel is
  a record and its image in memory; the order of bytes of the machine is a parameter. The
  numbers of \<^verbatim>\<open>AF_INET\<close> and \<^verbatim>\<open>AF_INET6\<close> are those of Linux.
\<close>

definition native_bytes :: "bool \<Rightarrow> nat \<Rightarrow> nat \<Rightarrow> bytes" where
  "native_bytes big k v = (if big then be_bytes k v else rev (be_bytes k v))"

definition af_inet :: nat where "af_inet = 2"
definition af_inet6 :: nat where "af_inet6 = 10"
definition md5_maxkeylen :: nat where "md5_maxkeylen = 80"

fun ipv4_octets :: "ipv4_addr \<Rightarrow> bytes" where
  "ipv4_octets (Ipv4 a b c d) = [a, b, c, d]"

fun ipv6_octets :: "ipv6_addr \<Rightarrow> bytes" where
  "ipv6_octets (Ipv6 gs) = concat (map (\<lambda>g. be_bytes 2 (unat g)) gs)"

fun sockaddr_bytes :: "bool \<Rightarrow> socket_addr \<Rightarrow> bytes" where
  "sockaddr_bytes big (SocketV4 ip port) =
     native_bytes big 2 af_inet @ be_bytes 2 (unat port) @ ipv4_octets ip @ replicate 8 0"
| "sockaddr_bytes big (SocketV6 ip port) =
     native_bytes big 2 af_inet6 @ be_bytes 2 (unat port) @ replicate 4 0 @ ipv6_octets ip @ replicate 4 0"

text \<open>\<^verbatim>\<open>copy_nonoverlapping\<close> into the zeroed storage of 128 bytes.\<close>

definition overlay :: "bytes \<Rightarrow> bytes \<Rightarrow> bytes" where
  "overlay new old = new @ drop (length new) old"

definition md5sig_of :: "bool \<Rightarrow> socket_addr \<Rightarrow> string \<Rightarrow> md5sig result" where
  "md5sig_of big peer_addr password =
     (let addr = overlay (sockaddr_bytes big peer_addr) (replicate 128 0);
          password_bytes = map of_char password
      in if length password_bytes > md5_maxkeylen
         then Inl (Msg (''password too long (max '' @ show_nat md5_maxkeylen @ '' bytes)''))
         else Inr \<lparr>tcpm_addr = addr, tcpm_flags = 0, tcpm_prefixlen = 0,
                   tcpm_keylen = of_nat (length password_bytes), tcpm_ifindex = 0,
                   tcpm_key = overlay password_bytes (replicate md5_maxkeylen 0)\<rparr>)"

definition set_tcp_md5_signature ::
  "bool \<Rightarrow> socket_addr \<Rightarrow> string \<Rightarrow> ('z net_scheme, unit) task" where
  "set_tcp_md5_signature big peer_addr password =
     await (of_result (md5sig_of big peer_addr password)) (\<lambda>md5sig.
       \<lambda>w. case net_call (SockMd5 md5sig) w of
              (Failed (Msg err), w') \<Rightarrow> (Failed (Msg (''failed to set TCP_MD5SIG: '' @ err)), w')
            | (r, w') \<Rightarrow> (r, w'))"

text \<open>The image in memory that \<^verbatim>\<open>setsockopt\<close> reads.\<close>

definition md5sig_image :: "bool \<Rightarrow> md5sig \<Rightarrow> bytes" where
  "md5sig_image big m =
     tcpm_addr m @ [tcpm_flags m] @ [tcpm_prefixlen m] @ native_bytes big 2 (unat (tcpm_keylen m)) @
     native_bytes big 4 (unat (tcpm_ifindex m)) @ tcpm_key m"

section \<open>Properties\<close>

fun wf_socket :: "socket_addr \<Rightarrow> bool" where
  "wf_socket (SocketV4 ip port) = True"
| "wf_socket (SocketV6 (Ipv6 gs) port) = (length gs = 8)"

fun socket_ip_octets :: "socket_addr \<Rightarrow> bytes" where
  "socket_ip_octets (SocketV4 ip port) = ipv4_octets ip"
| "socket_ip_octets (SocketV6 ip port) = ipv6_octets ip"

lemma length_ipv4_octets [simp]: "length (ipv4_octets ip) = 4"
  by (cases ip) simp

lemma length_ipv6_octets: "length (ipv6_octets (Ipv6 gs)) = 2 * length gs"
  by (induction gs) simp_all

lemma length_native_bytes [simp]: "length (native_bytes big k v) = k"
  by (simp add: native_bytes_def)

lemma length_sockaddr_bytes:
  "wf_socket a \<Longrightarrow> length (sockaddr_bytes big a) = (case a of SocketV4 _ _ \<Rightarrow> 16 | SocketV6 _ _ \<Rightarrow> 28)"
  by (cases a rule: wf_socket.cases) (simp_all add: length_ipv6_octets del: ipv6_octets.simps)

fun socket_port :: "socket_addr \<Rightarrow> u16" where
  "socket_port (SocketV4 ip port) = port"
| "socket_port (SocketV6 ip port) = port"

definition ip_offset :: "socket_addr \<Rightarrow> nat" where
  "ip_offset a = (case a of SocketV4 _ _ \<Rightarrow> 4 | SocketV6 _ _ \<Rightarrow> 8)"



end
