(* ===== verification/Bgp.thy ===== *)
theory Bgp
  imports Auth Config "HOL-Library.AList"
begin

text \<open>
  \<^verbatim>\<open>src/bgp/mod.rs\<close>: the peers, their sessions and the queries on them. The shared
  \<^verbatim>\<open>BgpServiceInner\<close> and the network of one task are the record \<open>bgp\<close>. The hash map of the
  peers is an association list with distinct keys; the order in which its values are visited
  is the parameter \<open>kx_values\<close>. Messages, their encoder and parser and the path attributes are
  those of the crate \<^verbatim>\<open>bgpkit-parser\<close>, prefixes those of \<^verbatim>\<open>ipnet\<close>: they are gathered in
  \<open>bgp_lib\<close>. A spawned task is a number.
\<close>

record open_msg =
  om_version :: u8
  om_asn :: u32
  om_hold_time :: u16
  om_sender_ip :: ipv4_addr
  om_extended_length :: bool
  om_opt_params :: "bytes list"

record network_prefix =
  np_prefix :: ip_net
  np_path_id :: "u32 option"

record 'at update_msg =
  um_withdrawn_prefixes :: "network_prefix list"
  um_attributes :: 'at
  um_announced_prefixes :: "network_prefix list"

datatype ('at, 'n) bgp_message = Open open_msg | Update "'at update_msg" | Notification 'n | KeepAlive

datatype origin = IGP | EGP | INCOMPLETE

datatype attribute_value = AttrOrigin origin | AttrAsPath "u32 list" bool | AttrNextHop ip_addr

record peer_info =
  pi_address :: string
  pi_name :: "string option"
  pi_remote_as :: u32
  pi_local_as :: u32
  pi_remote_port :: u16
  pi_passive :: bool
  pi_auth_enabled :: bool
  pi_state :: peer_state
  pi_last_error :: "string option"
  pi_advertised_prefixes :: u64
  pi_established_at :: "int option"

record rib_summary =
  ri_peers_total :: u64
  ri_peers_established :: u64
  ri_advertised_prefixes_total :: u64

record peer_runtime =
  pr_info :: peer_info
  pr_cfg :: peer_config
  pr_task :: nat

record prefix_entry =
  pe_network :: ip_net
  pe_next_hop :: "ip_addr option"

record ('at, 'n) bgp_lib =
  kx_encode :: "('at, 'n) bgp_message \<Rightarrow> bytes"
  kx_parse :: "asn_length \<Rightarrow> bytes \<Rightarrow> ('at, 'n) bgp_message result"
  kx_attrs_default :: 'at
  kx_add_attr :: "attribute_value \<Rightarrow> 'at \<Rightarrow> 'at"
  kx_net_parse :: "string \<Rightarrow> ip_net result"
  kx_show_net :: "ip_net \<Rightarrow> string"
  kx_values :: "(string \<times> peer_runtime) list \<Rightarrow> peer_runtime list"
  kx_big_endian :: bool

record bgp = net +
  bg_global_asn :: u32
  bg_router_id :: ipv4_addr
  bg_prefixes :: "prefix_entry list"
  bg_peers :: "(string \<times> peer_runtime) list"
  bg_events :: "event_envelope list"
  bg_next_task :: nat
  bg_aborted :: "nat list"

section \<open>Addresses and strings as text\<close>

fun show_hex :: "nat \<Rightarrow> string" where
  "show_hex n =
     (if n < 16 then [''0123456789abcdef'' ! n] else show_hex (n div 16) @ [''0123456789abcdef'' ! (n mod 16)])"

fun join_colons :: "u16 list \<Rightarrow> string" where
  "join_colons [] = []"
| "join_colons [g] = show_hex (unat g)"
| "join_colons (g # gs) = show_hex (unat g) @ '':'' @ join_colons gs"

text \<open>The first of the longest runs of zero groups, as its start and length.\<close>

definition longest_zeros :: "u16 list \<Rightarrow> nat \<times> nat" where
  "longest_zeros gs =
     foldl (\<lambda>(s, l) i. let k = length (takeWhile (\<lambda>g. g = 0) (drop i gs)) in if k > l then (i, k) else (s, l))
       (0, 0) [0 ..< length gs]"

fun show_ipv6 :: "ipv6_addr \<Rightarrow> string" where
  "show_ipv6 (Ipv6 gs) =
     (if take 6 gs = [0, 0, 0, 0, 0, 0xffff] \<and> length gs = 8
      then ''::ffff:'' @ show_ipv4 (Ipv4 (ucast (drop_bit 8 (gs ! 6))) (ucast (gs ! 6))
             (ucast (drop_bit 8 (gs ! 7))) (ucast (gs ! 7)))
      else case longest_zeros gs of
             (s, l) \<Rightarrow>
               if l > 1 then join_colons (take s gs) @ ''::'' @ join_colons (drop (s + l) gs)
               else join_colons gs)"

fun show_socket :: "socket_addr \<Rightarrow> string" where
  "show_socket (SocketV4 ip port) = show_ipv4 ip @ '':'' @ show_nat (unat port)"
| "show_socket (SocketV6 ip port) = ''['' @ show_ipv6 ip @ '']:'' @ show_nat (unat port)"

text \<open>\<^verbatim>\<open>{:?}\<close> of a string; bytes outside of ASCII are left as they are.\<close>

definition debug_char :: "char \<Rightarrow> string" where
  "debug_char c =
     (if c = CHR 0x22 then [CHR 0x5C, CHR 0x22] else if c = CHR 0x5C then [CHR 0x5C, CHR 0x5C]
      else if c = CHR 0x0A then [CHR 0x5C, CHR ''n''] else if c = CHR 0x0D then [CHR 0x5C, CHR ''r'']
      else if c = CHR 0x09 then [CHR 0x5C, CHR ''t''] else if c = CHR 0x00 then [CHR 0x5C, CHR ''0'']
      else if (of_char c :: nat) < 32 \<or> (of_char c :: nat) = 127
      then [CHR 0x5C, CHR ''u'', CHR 0x7B] @ show_hex (of_char c) @ [CHR 0x7D]
      else [c])"

definition debug_string :: "string \<Rightarrow> string" where
  "debug_string s = [CHR 0x22] @ concat (map debug_char s) @ [CHR 0x22]"

section \<open>Messages on the wire\<close>

definition marker :: bytes where
  "marker = replicate 16 0xff"

definition write_bgp_message ::
  "('at, 'n, 'y) bgp_lib_scheme \<Rightarrow> ('at, 'n) bgp_message \<Rightarrow> ('z net_scheme, unit) task" where
  "write_bgp_message K msg =
     (let bytes = kx_encode K msg
      in if length bytes < 19 then bail (Msg ''encoded BGP message too short'')
         else write_all (marker @ drop 16 bytes))"

definition parse_either :: "('at, 'n, 'y) bgp_lib_scheme \<Rightarrow> bytes \<Rightarrow> ('at, 'n) bgp_message result" where
  "parse_either K bytes =
     (case (case kx_parse K Bits32 bytes of Inr m \<Rightarrow> Inr m | Inl _ \<Rightarrow> kx_parse K Bits16 bytes) of
        Inr m \<Rightarrow> Inr m
      | Inl e \<Rightarrow> Inl (Msg (''failed parsing BGP message using bgpkit-parser: '' @ err_to_string e)))"

definition invalid_marker :: error where
  "invalid_marker = Msg ''invalid BGP marker''"

definition invalid_length :: "nat \<Rightarrow> error" where
  "invalid_length n = Msg (''invalid BGP message length '' @ show_nat n)"

definition read_bgp_message ::
  "('at, 'n, 'y) bgp_lib_scheme \<Rightarrow> ('z net_scheme, ('at, 'n) bgp_message) task" where
  "read_bgp_message K =
     await (read_exact 19) (\<lambda>header.
       if take 16 header \<noteq> marker then bail invalid_marker
       else
         let len = be_value [header ! 16, header ! 17]
         in if \<not> (19 \<le> len \<and> len \<le> 4096)
            then bail (invalid_length len)
            else
              await (if len - 19 > 0 then read_exact (len - 19) else done_with []) (\<lambda>payload.
                of_result (parse_either K (header @ payload))))"

definition link_local_one :: ipv6_addr where
  "link_local_one = Ipv6 [0xfe80, 0, 0, 0, 0, 0, 0, 1]"

definition announce_next_hop :: "prefix_entry \<Rightarrow> ipv4_addr \<Rightarrow> ip_addr" where
  "announce_next_hop e router_id =
     (case pe_next_hop e of
        Some nh \<Rightarrow> nh
      | None \<Rightarrow> (case pe_network e of NetV4 _ _ \<Rightarrow> V4 router_id | NetV6 _ _ \<Rightarrow> V6 link_local_one))"

definition build_announce_update ::
  "('at, 'n, 'y) bgp_lib_scheme \<Rightarrow> prefix_entry \<Rightarrow> ipv4_addr \<Rightarrow> u32 \<Rightarrow> ('at, 'n) bgp_message" where
  "build_announce_update K e router_id local_as =
     (let attrs = kx_attrs_default K;
          attrs = kx_add_attr K (AttrOrigin IGP) attrs;
          attrs = kx_add_attr K (AttrAsPath [local_as] False) attrs;
          attrs = kx_add_attr K (AttrNextHop (announce_next_hop e router_id)) attrs
      in Update \<lparr>um_withdrawn_prefixes = [], um_attributes = attrs,
                 um_announced_prefixes = [\<lparr>np_prefix = pe_network e, np_path_id = None\<rparr>]\<rparr>)"

section \<open>The table of the peers\<close>

definition local_as_of :: "'z bgp_scheme \<Rightarrow> peer_config \<Rightarrow> u32" where
  "local_as_of w peer = (case pc_local_as peer of Some a \<Rightarrow> a | None \<Rightarrow> bg_global_asn w)"

definition fresh_info :: "peer_config \<Rightarrow> u32 \<Rightarrow> peer_info" where
  "fresh_info cfg local_as =
     \<lparr>pi_address = pc_address cfg, pi_name = pc_name cfg, pi_remote_as = pc_remote_as cfg,
      pi_local_as = local_as, pi_remote_port = pc_remote_port cfg, pi_passive = pc_passive cfg,
      pi_auth_enabled = (pc_password cfg \<noteq> None), pi_state = Idle, pi_last_error = None,
      pi_advertised_prefixes = 0, pi_established_at = None\<rparr>"

definition spawn_peer_task :: "peer_config \<Rightarrow> 'z bgp_scheme \<Rightarrow> peer_runtime \<times> 'z bgp_scheme" where
  "spawn_peer_task cfg w =
     (\<lparr>pr_info = fresh_info cfg (local_as_of w cfg), pr_cfg = cfg, pr_task = bg_next_task w\<rparr>,
      w\<lparr>bg_next_task := Suc (bg_next_task w)\<rparr>)"

fun start_peers :: "peer_config list \<Rightarrow> 'z bgp_scheme \<Rightarrow> 'z bgp_scheme" where
  "start_peers [] w = w"
| "start_peers (peer # peers) w =
     (if \<not> pc_enabled peer then start_peers peers w
      else case spawn_peer_task peer w of
             (runtime, w') \<Rightarrow>
               start_peers peers (w'\<lparr>bg_peers := AList.update (pc_address peer) runtime (bg_peers w')\<rparr>))"

definition prefix_entry_of ::
  "('at, 'n, 'y) bgp_lib_scheme \<Rightarrow> prefix_config \<Rightarrow> prefix_entry result" where
  "prefix_entry_of K p =
     bind_res (with_context (''invalid prefix network: '' @ px_network p) (kx_net_parse K (px_network p))) (\<lambda>network.
     bind_res
       (case px_next_hop p of
          None \<Rightarrow> Inr None
        | Some nh \<Rightarrow>
            with_context (''invalid next-hop address: Some('' @ debug_string nh @ '')'')
              (bind_res (ok_or (Msg ''invalid IP address syntax'') (parse_ip nh)) (\<lambda>ip. Inr (Some ip))))
       (\<lambda>next_hop. Inr \<lparr>pe_network = network, pe_next_hop = next_hop\<rparr>))"

definition bgp_new ::
  "('at, 'n, 'y) bgp_lib_scheme \<Rightarrow> focl_config \<Rightarrow> 'z bgp_scheme \<Rightarrow> 'z bgp_scheme result" where
  "bgp_new K cfg w =
     bind_res (with_context ''global.router_id must be IPv4''
       (ok_or (Msg ''invalid IPv4 address syntax'') (parse_ipv4 (gc_router_id (fc_global cfg))))) (\<lambda>router_id.
     bind_res (with_context ''invalid prefix in config''
       (collect_res (prefix_entry_of K) (fc_prefixes cfg))) (\<lambda>prefixes.
       Inr (start_peers (fc_peers cfg)
         (w\<lparr>bg_global_asn := gc_asn (fc_global cfg), bg_router_id := router_id, bg_prefixes := prefixes,
            bg_peers := []\<rparr>))))"

definition state_info ::
  "peer_state \<Rightarrow> string option \<Rightarrow> int option \<Rightarrow> peer_info \<Rightarrow> peer_info" where
  "state_info state last_error established_at info =
     info\<lparr>pi_state := state,
          pi_last_error :=
            (case last_error of
               Some err \<Rightarrow> Some err
             | None \<Rightarrow> if state = Established then None else pi_last_error info),
          pi_established_at :=
            (case established_at of Some ts \<Rightarrow> Some ts | None \<Rightarrow> pi_established_at info)\<rparr>"

definition set_peer_state ::
  "string \<Rightarrow> peer_state \<Rightarrow> string option \<Rightarrow> int option \<Rightarrow> ('z bgp_scheme, unit) task" where
  "set_peer_state address state last_error established_at = change (\<lambda>w.
     if map_of (bg_peers w) address = None then w
     else w\<lparr>bg_peers := AList.map_entry address
              (\<lambda>r. r\<lparr>pr_info := state_info state last_error established_at (pr_info r)\<rparr>) (bg_peers w),
            bg_events := bg_events w @ [envelope_new (PeerStateEvent address state)]\<rparr>)"

section \<open>A session\<close>

definition send_prefix_announcements ::
  "('at, 'n, 'y) bgp_lib_scheme \<Rightarrow> peer_config \<Rightarrow> ('z bgp_scheme, unit) task" where
  "send_prefix_announcements K peer =
     await (asks (\<lambda>w. w)) (\<lambda>w0.
     await (await_each (bg_prefixes w0) (\<lambda>e.
       write_bgp_message K (build_announce_update K e (bg_router_id w0) (local_as_of w0 peer)))) (\<lambda>_.
       change (\<lambda>w. w\<lparr>bg_peers := AList.map_entry (pc_address peer)
         (\<lambda>r. r\<lparr>pr_info := (pr_info r)\<lparr>pi_advertised_prefixes := of_nat (length (bg_prefixes w0))\<rparr>\<rparr>)
         (bg_peers w)\<rparr>)))"

definition hold_expired :: error where
  "hold_expired = Msg ''hold timer expired''"

definition notification_received :: error where
  "notification_received = Msg ''received NOTIFICATION from peer''"

definition second :: nat where
  "second = 1000000000"

definition session_hold :: "peer_config \<Rightarrow> u16" where
  "session_hold peer = max (pc_hold_time_secs peer) 3"

definition negotiated_hold :: "peer_config \<Rightarrow> nat" where
  "negotiated_hold peer = unat (session_hold peer) * second"

definition keepalive_interval :: "peer_config \<Rightarrow> nat" where
  "keepalive_interval peer = max (unat (session_hold peer) div 3) 1 * second"

text \<open>One arm per message; the rounds are bounded by the first argument.\<close>

fun session_loop ::
  "nat \<Rightarrow> ('at, 'n, 'y) bgp_lib_scheme \<Rightarrow> peer_config \<Rightarrow> nat \<Rightarrow> nat \<Rightarrow> ('z net_scheme, unit) task" where
  "session_loop 0 K peer next_keepalive hold_deadline = (\<lambda>w. (Waits, w))"
| "session_loop (Suc n) K peer next_keepalive hold_deadline =
     await instant_now (\<lambda>now.
     await (if now \<ge> next_keepalive
            then await (write_bgp_message K KeepAlive) (\<lambda>_. done_with (now + keepalive_interval peer))
            else done_with next_keepalive) (\<lambda>next_keepalive.
       if now \<ge> hold_deadline then bail hold_expired
       else
         await (time_limit (min (next_keepalive - now) second) (read_bgp_message K)) (\<lambda>r.
           case r of
             Some (Inr msg) \<Rightarrow>
               (case msg of
                  Notification _ \<Rightarrow> bail notification_received
                | _ \<Rightarrow> await instant_now (\<lambda>t.
                         session_loop n K peer next_keepalive (t + negotiated_hold peer)))
           | Some (Inl err) \<Rightarrow> bail err
           | None \<Rightarrow> session_loop n K peer next_keepalive hold_deadline)))"

definition open_of :: "'z bgp_scheme \<Rightarrow> peer_config \<Rightarrow> ('at, 'n) bgp_message" where
  "open_of w peer =
     Open \<lparr>om_version = 4, om_asn = local_as_of w peer, om_hold_time = session_hold peer,
           om_sender_ip = bg_router_id w, om_extended_length = False, om_opt_params = []\<rparr>"

definition is_open :: "('at, 'n) bgp_message \<Rightarrow> bool" where
  "is_open m = (case m of Open _ \<Rightarrow> True | _ \<Rightarrow> False)"

definition is_keepalive :: "('at, 'n) bgp_message \<Rightarrow> bool" where
  "is_keepalive m = (case m of KeepAlive \<Rightarrow> True | _ \<Rightarrow> False)"

definition handshake ::
  "('at, 'n, 'y) bgp_lib_scheme \<Rightarrow> peer_config \<Rightarrow> ('z bgp_scheme, unit) task" where
  "handshake K peer =
     await (asks (\<lambda>w. open_of w peer)) (\<lambda>open_message.
     await (write_bgp_message K open_message) (\<lambda>_.
     await (read_bgp_message K) (\<lambda>incoming.
       if \<not> is_open incoming then bail (Msg ''expected OPEN from peer'')
       else
         await (write_bgp_message K KeepAlive) (\<lambda>_.
         await (read_bgp_message K) (\<lambda>incoming.
           if \<not> is_keepalive incoming then bail (Msg ''expected KEEPALIVE from peer after OPEN'')
           else done_with ())))))"

definition run_session ::
  "nat \<Rightarrow> ('at, 'n, 'y) bgp_lib_scheme \<Rightarrow> peer_config \<Rightarrow> ('z bgp_scheme, unit) task" where
  "run_session rounds K peer =
     await (set_peer_state (pc_address peer) OpenSent None None) (\<lambda>_.
     await (handshake K peer) (\<lambda>_.
     await net_utc_now (\<lambda>ts.
     await (set_peer_state (pc_address peer) Established None (Some ts)) (\<lambda>_.
     await (send_prefix_announcements K peer) (\<lambda>_.
     await instant_now (\<lambda>t1.
     await instant_now (\<lambda>t2.
       session_loop rounds K peer (t1 + keepalive_interval peer) (t2 + negotiated_hold peer))))))))"

section \<open>Connections\<close>

definition normalize_socket_addr :: "string \<Rightarrow> u16 \<Rightarrow> socket_addr result" where
  "normalize_socket_addr raw default_port =
     (case parse_socket raw of
        Some sa \<Rightarrow> Inr sa
      | None \<Rightarrow>
          bind_res (with_context (''invalid ip/address '' @ raw)
            (ok_or (Msg ''invalid IP address syntax'') (parse_ip raw))) (\<lambda>ip.
            Inr (case ip of V4 a \<Rightarrow> SocketV4 a default_port | V6 a \<Rightarrow> SocketV6 a default_port)))"

definition set_md5 ::
  "('at, 'n, 'y) bgp_lib_scheme \<Rightarrow> string \<Rightarrow> peer_config \<Rightarrow> socket_addr \<Rightarrow> ('z net_scheme, unit) task" where
  "set_md5 K what peer addr =
     (case pc_password peer of
        None \<Rightarrow> done_with ()
      | Some password \<Rightarrow> task_context what (set_tcp_md5_signature (kx_big_endian K) addr password))"

text \<open>
  The two arms of the source with a local address do the same: the first is the second for two
  IPv4 addresses.
\<close>

definition connect_with_optional_bind ::
  "('at, 'n, 'y) bgp_lib_scheme \<Rightarrow> peer_config \<Rightarrow> socket_addr \<Rightarrow> ('z net_scheme, unit) task" where
  "connect_with_optional_bind K peer remote =
     await (of_result
       (case pc_local_address peer of
          None \<Rightarrow> Inr None
        | Some raw \<Rightarrow>
            with_context ''invalid peer local_address''
              (bind_res (normalize_socket_addr raw 0) (\<lambda>a. Inr (Some a))))) (\<lambda>local_bind.
     case local_bind of
       Some local \<Rightarrow>
         await (case local of SocketV4 _ _ \<Rightarrow> net_call SockNewV4 | SocketV6 _ _ \<Rightarrow> net_call SockNewV6) (\<lambda>_.
         await (net_call (SockBind local)) (\<lambda>_.
         await (set_md5 K ''failed to set TCP-MD5 signature'' peer remote) (\<lambda>_.
           tcp_connect remote)))
     | None \<Rightarrow>
         await (tcp_connect remote) (\<lambda>_.
           set_md5 K ''failed to set TCP-MD5 signature'' peer remote))"

definition peer_socket_text :: "peer_config \<Rightarrow> string" where
  "peer_socket_text peer = pc_address peer @ '':'' @ show_nat (unat (pc_remote_port peer))"

definition run_active_session ::
  "nat \<Rightarrow> ('at, 'n, 'y) bgp_lib_scheme \<Rightarrow> peer_config \<Rightarrow> ('z bgp_scheme, unit) task" where
  "run_active_session rounds K peer =
     await (of_result (with_context (''invalid peer socket '' @ peer_socket_text peer)
       (ok_or (Msg ''invalid socket address syntax'') (parse_socket (peer_socket_text peer))))) (\<lambda>addr.
     await (connect_with_optional_bind K peer addr) (\<lambda>_.
       run_session rounds K peer))"

definition passive_listen_addr :: "peer_config \<Rightarrow> string" where
  "passive_listen_addr peer =
     (case pc_local_address peer of
        Some a \<Rightarrow> a | None \<Rightarrow> ''0.0.0.0:'' @ show_nat (unat (pc_remote_port peer)))"

definition run_passive_session ::
  "nat \<Rightarrow> ('at, 'n, 'y) bgp_lib_scheme \<Rightarrow> peer_config \<Rightarrow> ('z bgp_scheme, unit) task" where
  "run_passive_session rounds K peer =
     await (of_result (with_context (''invalid passive local_address '' @ passive_listen_addr peer)
       (normalize_socket_addr (passive_listen_addr peer) (pc_remote_port peer)))) (\<lambda>listen.
     await (task_context (''failed binding passive listener '' @ show_socket listen)
       (net_call (SockListen listen))) (\<lambda>_.
     await tcp_accept (\<lambda>peer_addr.
     await (set_md5 K ''failed to set TCP-MD5 signature on accepted connection'' peer peer_addr) (\<lambda>_.
       run_session rounds K peer))))"

text \<open>One turn of \<^verbatim>\<open>peer_loop\<close>: it waits where the session waits, and otherwise notes its end.\<close>

definition peer_turn ::
  "nat \<Rightarrow> ('at, 'n, 'y) bgp_lib_scheme \<Rightarrow> peer_config \<Rightarrow> ('z bgp_scheme, unit) task" where
  "peer_turn rounds K peer =
     await (set_peer_state (pc_address peer) Connect None None) (\<lambda>_ w.
       case (if pc_passive peer then run_passive_session rounds K peer
             else run_active_session rounds K peer) w of
         (Done _, w') \<Rightarrow> set_peer_state (pc_address peer) Active None None w'
       | (Failed err, w') \<Rightarrow> set_peer_state (pc_address peer) Active (Some (err_to_string err)) None w'
       | (Waits, w') \<Rightarrow> (Waits, w'))"

definition retry_sleep :: "peer_config \<Rightarrow> ('z net_scheme, unit) task" where
  "retry_sleep peer = change (\<lambda>w. w\<lparr>nt_time := nt_time w + unat (pc_connect_retry_secs peer) * second\<rparr>)"

fun peer_loop ::
  "nat \<Rightarrow> nat \<Rightarrow> ('at, 'n, 'y) bgp_lib_scheme \<Rightarrow> peer_config \<Rightarrow> ('z bgp_scheme, unit) task" where
  "peer_loop 0 rounds K peer = (\<lambda>w. (Waits, w))"
| "peer_loop (Suc n) rounds K peer =
     await (peer_turn rounds K peer) (\<lambda>_.
     await (retry_sleep peer) (\<lambda>_. peer_loop n rounds K peer))"

section \<open>Queries and reset\<close>

definition peer_list :: "('at, 'n, 'y) bgp_lib_scheme \<Rightarrow> 'z bgp_scheme \<Rightarrow> peer_info list" where
  "peer_list K w = map pr_info (kx_values K (bg_peers w))"

definition peer_show :: "string \<Rightarrow> 'z bgp_scheme \<Rightarrow> peer_info option" where
  "peer_show peer w = map_option pr_info (map_of (bg_peers w) peer)"

definition peer_not_found :: "string \<Rightarrow> error" where
  "peer_not_found peer = Msg (''peer '' @ peer @ '' not found'')"

text \<open>Between the two locked sections of \<^verbatim>\<open>peer_reset\<close> the peer is not in the table.\<close>

definition reset_remove :: "string \<Rightarrow> ('z bgp_scheme, peer_config) task" where
  "reset_remove peer w =
     (case map_of (bg_peers w) peer of
        None \<Rightarrow> (Failed (peer_not_found peer), w)
      | Some old \<Rightarrow>
          (Done (pr_cfg old),
           w\<lparr>bg_peers := AList.delete peer (bg_peers w), bg_aborted := pr_task old # bg_aborted w\<rparr>))"

definition reset_insert :: "string \<Rightarrow> peer_config \<Rightarrow> ('z bgp_scheme, unit) task" where
  "reset_insert peer cfg = change (\<lambda>w.
     case spawn_peer_task cfg w of
       (runtime, w') \<Rightarrow> w'\<lparr>bg_peers := AList.update peer runtime (bg_peers w')\<rparr>)"

definition peer_reset :: "string \<Rightarrow> ('z bgp_scheme, unit) task" where
  "peer_reset peer = await (reset_remove peer) (reset_insert peer)"

definition rib_summary_of :: "('at, 'n, 'y) bgp_lib_scheme \<Rightarrow> 'z bgp_scheme \<Rightarrow> rib_summary" where
  "rib_summary_of K w =
     (let values = kx_values K (bg_peers w)
      in \<lparr>ri_peers_total = of_nat (length (bg_peers w)),
          ri_peers_established = of_nat (length (filter (\<lambda>p. pi_state (pr_info p) = Established) values)),
          ri_advertised_prefixes_total = sum_list (map (\<lambda>p. pi_advertised_prefixes (pr_info p)) values)\<rparr>)"

definition rib_out :: "('at, 'n, 'y) bgp_lib_scheme \<Rightarrow> string \<Rightarrow> 'z bgp_scheme \<Rightarrow> string list result" where
  "rib_out K peer w =
     (if map_of (bg_peers w) peer = None then Inl (peer_not_found peer)
      else Inr (map (\<lambda>e. kx_show_net K (pe_network e)) (bg_prefixes w)))"

definition rib_in :: "string \<Rightarrow> 'z bgp_scheme \<Rightarrow> string list result" where
  "rib_in peer w = (if map_of (bg_peers w) peer = None then Inl (peer_not_found peer) else Inr [])"

end
