(* ===== verification/Bgp_Wire.thy ===== *)
theory Bgp_Wire
  imports Bgp
begin

text \<open>
  Messages on a connection: what is written is read back message by message, how many bytes a
  read takes, and what a read that is cut off by a time limit does to the stream.
\<close>

section \<open>Reading\<close>

lemma read_exact_Done:
  "read_exact n w = (Done bs, w') \<longleftrightarrow> n \<le> in_window w \<and> bs = take n (nt_inbox w) \<and> w' = consume n w"
  by (auto simp: read_exact_def)

lemma in_window_le: "in_window w \<le> length (nt_inbox w)"
  by (simp add: in_window_def split: option.splits)

lemma consume_simps [simp]:
  "nt_inbox (consume n w) = drop n (nt_inbox w)"
  "nt_window (consume n w) = map_option (\<lambda>k. k - n) (nt_window w)"
  "nt_closed (consume n w) = nt_closed w" "nt_outbox (consume n w) = nt_outbox w"
  by (simp_all add: consume_def)

lemma in_window_consume: "in_window (consume n w) = in_window w - n"
  by (auto simp: in_window_def min_diff split: option.splits)

lemma consume_consume: "consume m (consume n w) = consume (n + m) w"
  by (simp add: consume_def option.map_comp comp_def add.commute)

definition message_length :: "bytes \<Rightarrow> nat" where
  "message_length bs = be_value [bs ! 16, bs ! 17]"

text \<open>The header of the first message in a sequence of bytes is one the reader accepts.\<close>

definition header_ok :: "bytes \<Rightarrow> bool" where
  "header_ok bs \<longleftrightarrow> 19 \<le> length bs \<and> take 16 bs = marker \<and> 19 \<le> message_length bs \<and> message_length bs \<le> 4096"

lemma nth_take_header: "take 19 bs ! 16 = bs ! 16" "take 19 bs ! 17 = bs ! 17"
  by simp_all

text \<open>The reader as a case distinction on the bytes in the window.\<close>

lemma read_bgp_message_cases:
  "read_bgp_message K w =
     (let bs = nt_inbox w; n = message_length bs
      in if in_window w < 19
         then (if eof_in_window w then Failed early_eof else Waits, consume (in_window w) w)
         else if take 16 bs \<noteq> marker then (Failed invalid_marker, consume 19 w)
         else if \<not> (19 \<le> n \<and> n \<le> 4096) then (Failed (invalid_length n), consume 19 w)
         else if in_window w < n
         then (if eof_in_window (consume 19 w) then Failed early_eof else Waits, consume (in_window w) w)
         else ((case parse_either K (take n bs) of Inl e \<Rightarrow> Failed e | Inr m \<Rightarrow> Done m), consume n w))"
proof -
  define bs where "bs = nt_inbox w"
  define n where "n = message_length bs"
  consider "in_window w < 19" | "19 \<le> in_window w" "\<not> (take 16 bs = marker \<and> 19 \<le> n \<and> n \<le> 4096)"
    | "19 \<le> in_window w" "take 16 bs = marker" "n = 19"
    | "19 \<le> in_window w" "take 16 bs = marker" "19 < n" "n \<le> 4096" by linarith
  then show ?thesis
  proof cases
    case 1
    then show ?thesis by (simp add: read_bgp_message_def await_def read_exact_def Let_def)
  next
    case 2
    then show ?thesis
      by (auto simp: read_bgp_message_def await_def read_exact_def Let_def bs_def n_def message_length_def)
  next
    case 3
    then show ?thesis
      by (simp add: read_bgp_message_def await_def read_exact_def Let_def bs_def n_def message_length_def of_result_def)
  next
    case 4
    have parts: "take n bs = take 19 bs @ take (n - 19) (drop 19 bs)"
      using 4(3) by (metis le_add_diff_inverse less_imp_le take_add)
    have second: "read_exact (n - 19) (consume 19 w) =
        (if in_window w < n
         then (if eof_in_window (consume 19 w) then Failed early_eof else Waits, consume (in_window w) w)
         else (Done (take (n - 19) (drop 19 bs)), consume n w))"
      using 4 by (auto simp: read_exact_def in_window_consume consume_consume bs_def)
    have "be_value [take 19 bs ! 16, take 19 bs ! 17] = n" by (simp add: n_def message_length_def)
    then have "read_bgp_message K w = await (read_exact (n - 19)) (\<lambda>payload. of_result (parse_either K (take 19 bs @ payload))) (consume 19 w)"
      using 4 by (simp add: read_bgp_message_def await_def [of "read_exact 19"] read_exact_def [of 19] Let_def bs_def [symmetric])
    then show ?thesis
      using 4 by (simp add: await_def second bs_def [symmetric] n_def [symmetric] Let_def of_result_def parts)
  qed
qed

text \<open>
  what one read does. It takes at most 4096 bytes off the stream, from its front; a message
  it returns is the parse of exactly the bytes taken, whose marker is all ones and whose length
  field is their number. Outside of a time limit, a read whose bytes are all there ends.
\<close>

theorem read_bgp_message_frames:
  assumes "read_bgp_message K w = (r, w')"
  shows "\<exists>n \<le> 4096. nt_inbox w' = drop n (nt_inbox w) \<and>
    (\<forall>m. r = Done m \<longrightarrow> header_ok (nt_inbox w) \<and> n = message_length (nt_inbox w) \<and> n \<le> length (nt_inbox w) \<and>
       parse_either K (take n (nt_inbox w)) = Inr m) \<and>
    (r = Waits \<longrightarrow> n = in_window w \<and> (n < 19 \<or> n < message_length (nt_inbox w)))"
proof -
  let ?n = "message_length (nt_inbox w)"
  consider "in_window w < 19" "w' = consume (in_window w) w" "r = Failed early_eof \<or> r = Waits"
    | e where "19 \<le> in_window w" "w' = consume 19 w" "r = Failed e"
    | "19 \<le> in_window w" "header_ok (nt_inbox w)" "in_window w < ?n" "w' = consume (in_window w) w"
      "r = Failed early_eof \<or> r = Waits"
    | "header_ok (nt_inbox w)" "?n \<le> in_window w" "w' = consume ?n w"
      "r = (case parse_either K (take ?n (nt_inbox w)) of Inl e \<Rightarrow> Failed e | Inr m \<Rightarrow> Done m)"
    using assms in_window_le [of w]
    by (auto simp: read_bgp_message_cases Let_def header_ok_def split: if_splits)
  then show ?thesis
  proof cases
    case 1
    then show ?thesis by (intro exI [of _ "in_window w"]) auto
  next
    case 2
    then show ?thesis by (intro exI [of _ 19]) auto
  next
    case 3
    then show ?thesis by (intro exI [of _ "in_window w"]) (auto simp: header_ok_def)
  next
    case 4
    then show ?thesis using in_window_le [of w]
      by (intro exI [of _ ?n]) (auto simp: header_ok_def split: sum.splits)
  qed
qed

section \<open>Writing\<close>

definition wire :: "('at, 'n, 'y) bgp_lib_scheme \<Rightarrow> ('at, 'n) bgp_message \<Rightarrow> bytes" where
  "wire K m = marker @ drop 16 (kx_encode K m)"

text \<open>
  What the code relies on for a message it sends: the encoder gives the message its length in
  bytes 16 and 17, within the bounds of the protocol, and the parser reads it back.
\<close>

definition wire_ok :: "('at, 'n, 'y) bgp_lib_scheme \<Rightarrow> ('at, 'n) bgp_message \<Rightarrow> bool" where
  "wire_ok K m \<longleftrightarrow>
     19 \<le> length (kx_encode K m) \<and> length (kx_encode K m) \<le> 4096 \<and>
     message_length (kx_encode K m) = length (kx_encode K m) \<and> kx_parse K Bits32 (wire K m) = Inr m"

definition net_free :: "'z net_scheme \<Rightarrow> bool" where
  "net_free w \<longleftrightarrow> (\<forall>n. \<not> nt_stall w n) \<and> (\<forall>n op. nt_fault w n op = None)"

lemma length_marker [simp]: "length marker = 16"
  by (simp add: marker_def)

lemma pass_simps [simp]:
  "nt_inbox (pass w) = nt_inbox w" "nt_outbox (pass w) = nt_outbox w" "nt_window (pass w) = nt_window w"
  "nt_closed (pass w) = nt_closed w" "net_free (pass w) = net_free w" "nt_time (pass w) = nt_time w + nt_delay w (nt_step w)"
  by (simp_all add: pass_def net_free_def)

lemma net_free_simps [simp]:
  "net_free (w\<lparr>nt_outbox := b\<rparr>) = net_free w" "net_free (w\<lparr>nt_window := v\<rparr>) = net_free w"
  "net_free (consume n w) = net_free w" "net_free (w\<lparr>nt_time := t\<rparr>) = net_free w"
  by (simp_all add: net_free_def consume_def)

lemma wire_ok_facts:
  assumes "wire_ok K m"
  shows "length (wire K m) = length (kx_encode K m)" "19 \<le> length (wire K m)" "length (wire K m) \<le> 4096"
    "parse_either K (wire K m) = Inr m"
  using assms by (simp_all add: wire_ok_def parse_either_def) (simp_all add: wire_def)

lemma wire_ok_stream:
  assumes "wire_ok K m"
  shows "header_ok (wire K m @ rest)" "message_length (wire K m @ rest) = length (wire K m)"
proof -
  let ?b = "kx_encode K m"
  have len: "19 \<le> length ?b" using assms by (simp add: wire_ok_def)
  then have "1 < length ?b - 16" by simp
  with len have "(wire K m @ rest) ! 16 = ?b ! 16" "(wire K m @ rest) ! 17 = ?b ! 17"
    by (simp_all add: wire_def nth_append)
  then show ml: "message_length (wire K m @ rest) = length (wire K m)"
    using assms wire_ok_facts(1) [OF assms] by (simp add: wire_ok_def message_length_def)
  show "header_ok (wire K m @ rest)"
    using wire_ok_facts(2,3) [OF assms] ml by (simp add: header_ok_def) (simp add: wire_def)
qed

lemma write_bgp_message_Done:
  "write_bgp_message K m w = (Done (), w') \<Longrightarrow>
     w' = (pass w)\<lparr>nt_outbox := nt_outbox w @ wire K m\<rparr> \<and> 19 \<le> length (kx_encode K m)"
  by (auto simp: write_bgp_message_def write_all_def net_call_def wire_def Let_def split: if_splits option.splits)

lemma write_bgp_message_runs:
  "net_free w \<Longrightarrow> 19 \<le> length (kx_encode K m) \<Longrightarrow>
     write_bgp_message K m w = (Done (), (pass w)\<lparr>nt_outbox := nt_outbox w @ wire K m\<rparr>)"
  by (simp add: write_bgp_message_def write_all_def net_call_def wire_def net_free_def Let_def)

lemma read_bgp_message_wire:
  assumes "wire_ok K m" "nt_inbox w = wire K m @ rest" "length (wire K m) \<le> in_window w"
  shows "read_bgp_message K w = (Done m, consume (length (wire K m)) w)"
  using wire_ok_facts [OF assms(1)] wire_ok_stream [OF assms(1), of rest] assms
  by (simp add: read_bgp_message_cases header_ok_def Let_def)

fun read_many ::
  "nat \<Rightarrow> ('at, 'n, 'y) bgp_lib_scheme \<Rightarrow> ('z net_scheme, ('at, 'n) bgp_message list) task" where
  "read_many 0 K = done_with []"
| "read_many (Suc n) K = await (read_bgp_message K) (\<lambda>m. await (read_many n K) (\<lambda>ms. done_with (m # ms)))"

lemma write_many_runs:
  assumes "net_free w" "\<forall>m \<in> set ms. 19 \<le> length (kx_encode K m)"
  shows "\<exists>w'. await_each ms (write_bgp_message K) w = (Done (), w') \<and> net_free w' \<and>
    nt_outbox w' = nt_outbox w @ concat (map (wire K) ms)"
  using assms
proof (induction ms arbitrary: w)
  case (Cons m ms)
  let ?w = "(pass w)\<lparr>nt_outbox := nt_outbox w @ wire K m\<rparr>"
  have "net_free ?w" using Cons.prems by simp
  with Cons.IH [of ?w] Cons.prems obtain w' where "await_each ms (write_bgp_message K) ?w = (Done (), w')" "net_free w'"
    "nt_outbox w' = nt_outbox w @ concat (map (wire K) (m # ms))" by auto
  with write_bgp_message_runs [of w K m] Cons.prems show ?case by (auto simp: await_def)
qed simp

lemma read_many_wire:
  assumes "\<forall>m \<in> set ms. wire_ok K m" "nt_inbox v = concat (map (wire K) ms) @ rest" "nt_window v = None"
  shows "\<exists>v'. read_many (length ms) K v = (Done ms, v') \<and> nt_inbox v' = rest \<and> nt_window v' = None"
  using assms
proof (induction ms arbitrary: v)
  case (Cons m ms)
  let ?v = "consume (length (wire K m)) v"
  have "read_bgp_message K v = (Done m, ?v)"
    using Cons.prems by (intro read_bgp_message_wire [of K m v "concat (map (wire K) ms) @ rest"]) (auto simp: in_window_def)
  with Cons.IH [of ?v] Cons.prems show ?case by (auto simp: await_def)
qed simp

text \<open>
  C11: messages survive the wire. When no write fails, writing a list of messages, whose
  encodings have the length of a BGP message, puts bytes on the connection from which a reader
  gets back the same messages in the same order, and what follows these bytes is left for the
  next read.
\<close>

theorem wire_roundtrip:
  assumes "net_free w" "\<forall>m \<in> set ms. wire_ok K m"
  shows "\<exists>w' bs. await_each ms (write_bgp_message K) w = (Done (), w') \<and> nt_outbox w' = nt_outbox w @ bs \<and>
    (\<forall>v rest. nt_inbox v = bs @ rest \<longrightarrow> nt_window v = None \<longrightarrow>
      (\<exists>v'. read_many (length ms) K v = (Done ms, v') \<and> nt_inbox v' = rest))"
proof -
  have "\<forall>m \<in> set ms. 19 \<le> length (kx_encode K m)" using assms(2) by (simp add: wire_ok_def)
  from write_many_runs [OF assms(1) this] obtain w' where
    "await_each ms (write_bgp_message K) w = (Done (), w')" "nt_outbox w' = nt_outbox w @ concat (map (wire K) ms)"
    by blast
  with read_many_wire [OF assms(2)] show ?thesis by metis
qed

section \<open>Reading under a time limit\<close>

text \<open>
  C35: a read cut off by the time limit breaks the framing. When between 1 and 16 bytes of the
  next message have arrived as the limit passes, the session goes on as if nothing had come,
  but these bytes are gone from the stream; the next read finds no marker and ends the session
  with an error, although the peer has sent nothing wrong.
\<close>

theorem cut_read_desynchronises:
  assumes "wire_ok K m" "nt_inbox w = wire K m @ rest" "19 \<le> length (wire K m @ rest) - k"
    and "nt_arrived w (nt_step w) = k" "1 \<le> k" "k \<le> 16"
  shows "\<exists>w'. time_limit dur (read_bgp_message K) w = (Done None, w') \<and>
    (\<exists>v. read_bgp_message K w' = (Failed invalid_marker, v))"
proof -
  let ?w = "w\<lparr>nt_window := Some k\<rparr>" and ?bs = "wire K m @ rest"
  note facts = wire_ok_facts(2,3) [OF assms(1)] wire_ok_stream(2) [OF assms(1), of rest]
  have win: "in_window ?w = k" "\<not> eof_in_window ?w"
    using assms(2,6) facts(1) by (simp_all add: in_window_def eof_in_window_def)
  define w' where "w' = pass ((consume k ?w)\<lparr>nt_window := None, nt_time := nt_time (consume k ?w) + dur\<rparr>)"
  have one: "time_limit dur (read_bgp_message K) w = (Done None, w')"
    using assms(4,6) win by (simp add: time_limit_def read_bgp_message_cases Let_def w'_def)
  have w': "nt_inbox w' = drop k ?bs" "nt_window w' = None" using assms(2) by (simp_all add: w'_def)
  have "take 16 (drop k ?bs) ! (16 - k) = ?bs ! 16"
    using assms(5,6) facts(1) by (subst nth_take) (simp_all add: nth_drop del: drop_append)
  moreover have "?bs ! 16 \<noteq> 0xff"
  proof
    assume "?bs ! 16 = 0xff"
    then have "message_length ?bs = 255 * 256 + unat (?bs ! 17)" by (simp add: message_length_def be_value_def)
    with facts(2,3) show False by simp
  qed
  moreover have "marker ! (16 - k) = 0xff" using assms(5,6) by (simp add: marker_def del: replicate.simps)
  ultimately have "take 16 (drop k ?bs) \<noteq> marker" by metis
  moreover have "19 \<le> in_window w'" using assms(3) w' by (simp add: in_window_def)
  ultimately have "read_bgp_message K w' = (Failed invalid_marker, consume 19 w')"
    using w' by (simp add: read_bgp_message_cases Let_def)
  with one show ?thesis by blast
qed

section \<open>Witnesses\<close>

definition demo_open :: open_msg where
  "demo_open = \<lparr>om_version = 4, om_asn = 65002, om_hold_time = 90, om_sender_ip = Ipv4 192 0 2 2,
     om_extended_length = False, om_opt_params = []\<rparr>"

definition demo_body :: "(attribute_value list, unit) bgp_message \<Rightarrow> bytes" where
  "demo_body m =
     (case m of Open _ \<Rightarrow> [0, 20, 1, 4] | Update _ \<Rightarrow> [0, 20, 2, 0] | Notification _ \<Rightarrow> [0, 20, 3, 6]
      | KeepAlive \<Rightarrow> [0, 19, 4])"

definition demo_bgp_lib :: "(attribute_value list, unit) bgp_lib" where
  "demo_bgp_lib =
     \<lparr>kx_encode = (\<lambda>m. replicate 16 0 @ demo_body m),
      kx_parse = (\<lambda>_ bs. if bs ! 18 = 4 then Inr KeepAlive else if bs ! 18 = 1 then Inr (Open demo_open)
        else Inr (Notification ())),
      kx_attrs_default = [], kx_add_attr = (#),
      kx_net_parse = (\<lambda>s. case parse_ipv4 s of Some a \<Rightarrow> Inr (NetV4 a 32) | None \<Rightarrow> Inl (Msg s)),
      kx_show_net = (\<lambda>_. ''net''), kx_values = map snd, kx_big_endian = False\<rparr>"

definition demo_net :: "bytes \<Rightarrow> nat \<Rightarrow> net" where
  "demo_net inbox arrived =
     \<lparr>nt_inbox = inbox, nt_closed = False, nt_window = None, nt_outbox = [], nt_fault = (\<lambda>_ _. None), nt_stall = (\<lambda>_. False),
      nt_delay = (\<lambda>_. 0), nt_arrived = (\<lambda>_. arrived), nt_part = (\<lambda>_. 0), nt_conns = (\<lambda>_. (inbox, False)),
      nt_caller = (\<lambda>_. SocketV4 (Ipv4 192 0 2 2) 50000), nt_utc = (\<lambda>_. 1700000000), nt_time = 0, nt_step = 0\<rparr>"

lemma demo_net_simps [simp]:
  "nt_inbox (demo_net bs k) = bs" "nt_window (demo_net bs k) = None" "nt_outbox (demo_net bs k) = []"
  "nt_arrived (demo_net bs k) n = k" "nt_closed (demo_net bs k) = False" "net_free (demo_net bs k)"
  "nt_time (demo_net bs k) = 0" "nt_delay (demo_net bs k) n = 0"
  by (simp_all add: demo_net_def net_free_def)

lemma demo_encode_length: "19 \<le> length (kx_encode demo_bgp_lib m)"
  by (cases m) (simp_all add: demo_bgp_lib_def demo_body_def)

lemma demo_wire_ok: "wire_ok demo_bgp_lib KeepAlive" "wire_ok demo_bgp_lib (Open demo_open)"
  by (simp_all add: wire_ok_def demo_bgp_lib_def demo_body_def message_length_def be_value_def wire_def nth_append marker_def
      del: replicate.simps)

theorem read_bgp_message_frames_witness:
  "\<exists>w'. read_bgp_message demo_bgp_lib (demo_net (wire demo_bgp_lib KeepAlive @ [7]) 0) = (Done KeepAlive, w') \<and>
     nt_inbox w' = [7] \<and> header_ok (wire demo_bgp_lib KeepAlive @ [7])"
proof -
  let ?w = "demo_net (wire demo_bgp_lib KeepAlive @ [7]) 0"
  obtain w' where run: "read_bgp_message demo_bgp_lib ?w = (Done KeepAlive, w')"
    using read_bgp_message_wire [OF demo_wire_ok(1), of ?w "[7]"] by (simp add: in_window_def)
  from read_bgp_message_frames [OF run] wire_ok_stream(2) [OF demo_wire_ok(1), of "[7]"] run show ?thesis by auto
qed

theorem wire_roundtrip_witness:
  "\<exists>w' bs. await_each [Open demo_open, KeepAlive] (write_bgp_message demo_bgp_lib) (demo_net [] 0) = (Done (), w') \<and>
     nt_outbox w' = bs \<and>
     (\<exists>v'. read_many 2 demo_bgp_lib (demo_net (bs @ [1, 2]) 0) = (Done [Open demo_open, KeepAlive], v') \<and> nt_inbox v' = [1, 2])"
proof -
  from wire_roundtrip [of "demo_net [] 0" "[Open demo_open, KeepAlive]" demo_bgp_lib] demo_wire_ok
  obtain w' bs where "await_each [Open demo_open, KeepAlive] (write_bgp_message demo_bgp_lib) (demo_net [] 0) = (Done (), w')"
    "nt_outbox w' = bs" and again: "\<And>v rest. nt_inbox (v :: net) = bs @ rest \<Longrightarrow> nt_window v = None \<Longrightarrow>
      \<exists>v'. read_many 2 demo_bgp_lib v = (Done [Open demo_open, KeepAlive], v') \<and> nt_inbox v' = rest"
    by (auto simp: numeral_2_eq_2 simp del: await_each.simps read_many.simps)
  with again [of "demo_net (bs @ [1, 2]) 0" "[1, 2]"] show ?thesis by auto
qed

theorem cut_read_desynchronises_witness:
  "\<exists>w' v. time_limit 5 (read_bgp_message demo_bgp_lib)
      (demo_net (wire demo_bgp_lib KeepAlive @ wire demo_bgp_lib KeepAlive) 10) = (Done None, w') \<and>
    read_bgp_message demo_bgp_lib w' = (Failed invalid_marker, v)"
proof -
  have "19 \<le> length (wire demo_bgp_lib KeepAlive)" by (rule wire_ok_facts [OF demo_wire_ok(1)])
  then show ?thesis
    using cut_read_desynchronises [OF demo_wire_ok(1), of "demo_net (wire demo_bgp_lib KeepAlive @ wire demo_bgp_lib KeepAlive) 10"
        "wire demo_bgp_lib KeepAlive" 10 5] by auto
qed

end
