(* ===== verification/Bgp_Session.thy ===== *)
theory Bgp_Session
  imports Bgp_Wire
begin

text \<open>
  The session of a peer and the loop around it: the states it reports, what has been exchanged
  when it is established, its timers.
\<close>

section \<open>What the network calls leave alone\<close>

text \<open>A computation on the network keeps the shared part of the state and only appends to what was sent.\<close>

definition net_only :: "('z net_scheme, 'a) task \<Rightarrow> bool" where
  "net_only m \<longleftrightarrow> (\<forall>w. net.more (snd (m w)) = net.more w)"

definition sends :: "('z net_scheme, 'a) task \<Rightarrow> bool" where
  "sends m \<longleftrightarrow> (\<forall>w. prefix (nt_outbox w) (nt_outbox (snd (m w))))"

interpretation shared: step_frame "\<lambda>w w' :: 'z net_scheme. net.more w' = net.more w"
  by unfold_locales simp_all

interpretation sent: step_frame "\<lambda>w w' :: 'z net_scheme. prefix (nt_outbox w) (nt_outbox w')"
  by unfold_locales auto

named_theorems net_intros "computations that act on the network only"

lemma net_frames [net_intros]:
  "net_only m \<Longrightarrow> (\<And>a. net_only (f a)) \<Longrightarrow> net_only (await m f)"
  "net_only m \<Longrightarrow> net_only n \<Longrightarrow> net_only (if b then m else n)"
  "net_only m \<Longrightarrow> net_only (task_context c m)"
  "(\<And>x. net_only (g x)) \<Longrightarrow> net_only (await_each xs g)"
  "net_only (done_with v)" "net_only (bail e)" "net_only (of_result r)" "net_only (asks h)"
  unfolding net_only_def
  by (fact shared.frame_await shared.frame_if shared.frame_context shared.frame_each shared.frame_basic)+

lemma sent_frames [net_intros]:
  "sends m \<Longrightarrow> (\<And>a. sends (f a)) \<Longrightarrow> sends (await m f)"
  "sends m \<Longrightarrow> sends n \<Longrightarrow> sends (if b then m else n)"
  "sends m \<Longrightarrow> sends (task_context c m)"
  "(\<And>x. sends (g x)) \<Longrightarrow> sends (await_each xs g)"
  "sends (done_with v)" "sends (bail e)" "sends (of_result r)" "sends (asks h)"
  unfolding sends_def
  by (fact sent.frame_await sent.frame_if sent.frame_context sent.frame_each sent.frame_basic)+

lemma pass_more [simp]: "net.more (pass w) = net.more w"
  by (simp add: pass_def)

lemma net_calls [net_intros]:
  "net_only (net_call op)" "net_only (write_all bs)" "net_only (read_exact n)" "net_only instant_now" "net_only net_utc_now"
  "sends (net_call op)" "sends (write_all bs)" "sends (read_exact n)" "sends instant_now" "sends net_utc_now"
  by (auto simp: net_only_def sends_def net_call_def write_all_def read_exact_def consume_def instant_now_def net_utc_now_def
      split: option.splits)

lemma net_time_limit [net_intros]:
  "net_only m \<Longrightarrow> net_only (time_limit d m)" "sends m \<Longrightarrow> sends (time_limit d m)"
  by (auto simp: net_only_def sends_def time_limit_def split: prod.splits outcome.splits) (metis net.ext_inject net.surjective net.update_convs(3) snd_conv)+

lemma net_messages [net_intros]:
  "net_only (read_bgp_message K)" "net_only (write_bgp_message K m)"
  "sends (read_bgp_message K)" "sends (write_bgp_message K m)"
  unfolding read_bgp_message_def write_bgp_message_def Let_def by (intro net_intros)+

lemma net_session_loop [net_intros]:
  "net_only (session_loop n K peer nk dl)" "sends (session_loop n K peer nk dl)"
proof (induction n arbitrary: nk dl)
  case (Suc n)
  {
    case 1
    show ?case unfolding session_loop.simps
      by (intro net_intros) (auto split: option.splits sum.splits bgp_message.splits intro!: net_intros Suc.IH)
  next
    case 2
    show ?case unfolding session_loop.simps
      by (intro net_intros) (auto split: option.splits sum.splits bgp_message.splits intro!: net_intros Suc.IH)
  }
qed (simp_all add: net_only_def sends_def)

lemma net_handshake [net_intros]: "net_only (handshake K peer)" "sends (handshake K peer)"
  unfolding handshake_def by (intro net_intros)+

lemma net_md5 [net_intros]: "net_only (set_md5 K what peer a)"
proof -
  have "net_only (set_tcp_md5_signature big a pw)" for big pw
    unfolding set_tcp_md5_signature_def
    by (intro net_intros) (auto simp: net_only_def net_call_def split: option.splits prod.splits outcome.splits error.splits)
  then show ?thesis by (auto simp: set_md5_def split: option.splits intro: net_intros)
qed

lemma net_connections [net_intros]:
  "net_only (tcp_connect a)" "net_only tcp_accept" "net_only (connect_with_optional_bind K peer a)"
proof -
  have fresh: "net_only (change (fresh_stream k))" for k by (simp add: net_only_def fresh_stream_def)
  show connect: "net_only (tcp_connect a)" "net_only tcp_accept"
    unfolding tcp_connect_def tcp_accept_def by (intro net_intros fresh)+
  show "net_only (connect_with_optional_bind K peer a)"
    unfolding connect_with_optional_bind_def
    by (intro net_intros) (auto split: option.splits socket_addr.splits intro!: net_intros connect)
qed

section \<open>The states a peer reports\<close>

definition state_of :: "string \<Rightarrow> 'z bgp_scheme \<Rightarrow> peer_state option" where
  "state_of a w = map_option pi_state (peer_show a w)"

definition state_events :: "string \<Rightarrow> peer_state list \<Rightarrow> event_envelope list" where
  "state_events a ss = map (\<lambda>s. envelope_new (PeerStateEvent a s)) ss"

text \<open>Between two states the peer has reported these states, and is in the last one.\<close>

definition reported :: "string \<Rightarrow> peer_state list \<Rightarrow> 'z bgp_scheme \<Rightarrow> 'z bgp_scheme \<Rightarrow> bool" where
  "reported a ss w w' \<longleftrightarrow>
     bg_events w' = bg_events w @ state_events a ss \<and>
     state_of a w' = (if ss = [] then state_of a w else Some (last ss))"

lemma bgp_more:
  assumes "net.more w' = net.more w"
  shows "bg_peers w' = bg_peers w" "bg_events w' = bg_events w" "bg_prefixes w' = bg_prefixes w"
    "bg_global_asn w' = bg_global_asn w" "bg_router_id w' = bg_router_id w"
  using assms by (cases w; cases w'; simp)+

lemma net_only_reported: "net_only m \<Longrightarrow> m w = (r, w') \<Longrightarrow> reported a [] w w'"
  using bgp_more [of w' w] unfolding net_only_def reported_def state_of_def peer_show_def state_events_def
  by (metis append_Nil2 list.simps(8) snd_conv)

lemma reported_trans:
  "reported a ss w w1 \<Longrightarrow> reported a ts w1 w2 \<Longrightarrow> reported a (ss @ ts) w w2"
  by (auto simp: reported_def state_events_def)

lemma set_peer_state_reported:
  assumes "state_of a w \<noteq> None"
  shows "set_peer_state a s e t w = (Done (), snd (set_peer_state a s e t w)) \<and>
    reported a [s] w (snd (set_peer_state a s e t w))"
  using assms
  by (auto simp: set_peer_state_def reported_def state_events_def state_of_def peer_show_def map_of_map_entry
      state_info_def)

lemma announcements_reported:
  assumes "send_prefix_announcements K peer w = (r, w')"
  shows "reported a [] w w'"
proof -
  let ?m = "await_each (bg_prefixes w) (\<lambda>e. write_bgp_message K (build_announce_update K e (bg_router_id w) (local_as_of w peer)))"
  obtain r1 w1 where m: "?m w = (r1, w1)" by force
  have one: "reported a [] w w1" 
    using net_only_reported [of ?m w r1 w1 a] m by (simp add: net_intros)
  have "r1 = Done () \<or> w' = w1"
    using assms m by (cases r1) (auto simp: send_prefix_announcements_def await_def)
  moreover have "reported a [] w1 w'" if "r1 = Done ()"
    using assms m that
    by (auto simp: send_prefix_announcements_def await_def reported_def state_events_def state_of_def peer_show_def
        map_of_map_entry split: option.splits)
  ultimately show ?thesis using one reported_trans [of a "[]" w w1 "[]"] by auto
qed

lemma sends_announcements: "sends (send_prefix_announcements K peer)"
proof -
  have "sends (change (\<lambda>w. w\<lparr>bg_peers := f w\<rparr>))" for f :: "'a bgp_scheme \<Rightarrow> _" by (simp add: sends_def)
  then show ?thesis unfolding send_prefix_announcements_def by (intro net_intros)
qed

text \<open>The sessions never return successfully: the loop has no such exit.\<close>

lemma session_loop_not_done: "session_loop n K peer nk dl w \<noteq> (Done (), w')"
proof (induction n arbitrary: nk dl w)
  case (Suc n)
  show ?case
    by (auto simp: task_simps instant_now_def split: option.splits sum.splits bgp_message.splits if_splits
        dest!: Suc.IH [THEN notE])
qed simp

lemma await_not_done: "(\<And>a v. f a v \<noteq> (Done (), w')) \<Longrightarrow> await m f w \<noteq> (Done (), w')"
  by (auto simp: task_simps)

lemma run_session_not_done: "run_session n K peer w \<noteq> (Done (), w')"
  unfolding run_session_def by (intro await_not_done session_loop_not_done)

lemma sessions_not_done:
  "run_active_session n K peer w \<noteq> (Done (), w')" "run_passive_session n K peer w \<noteq> (Done (), w')"
  unfolding run_active_session_def run_passive_session_def by (intro await_not_done run_session_not_done)+

section \<open>The handshake\<close>

text \<open>The message at the front of a sequence of bytes, and what follows it.\<close>

definition front_message ::
  "('at, 'n, 'y) bgp_lib_scheme \<Rightarrow> bytes \<Rightarrow> (('at, 'n) bgp_message \<times> bytes) option" where
  "front_message K bs =
     (if header_ok bs \<and> message_length bs \<le> length bs
      then case parse_either K (take (message_length bs) bs) of
             Inr m \<Rightarrow> Some (m, drop (message_length bs) bs) | Inl _ \<Rightarrow> None
      else None)"

lemma read_bgp_message_front:
  "read_bgp_message K w = (Done m, w') \<Longrightarrow>
     front_message K (nt_inbox w) = Some (m, nt_inbox w') \<and> nt_outbox w' = nt_outbox w"
  using in_window_le [of w]
  by (auto simp: read_bgp_message_cases front_message_def header_ok_def Let_def split: if_splits sum.splits)

lemma handshake_Done:
  assumes "handshake K peer w = (Done (), w')"
  shows "\<exists>om bs. front_message K (nt_inbox w) = Some (Open om, bs) \<and> front_message K bs = Some (KeepAlive, nt_inbox w') \<and>
    nt_outbox w' = nt_outbox w @ wire K (open_of w peer) @ wire K KeepAlive"
proof -
  from assms obtain w1 m1 w2 w3 m2 where
    1: "write_bgp_message K (open_of w peer) w = (Done (), w1)" and 2: "read_bgp_message K w1 = (Done m1, w2)" "is_open m1"
    and 3: "write_bgp_message K KeepAlive w2 = (Done (), w3)" and 4: "read_bgp_message K w3 = (Done m2, w')" "is_keepalive m2"
    unfolding handshake_def by (auto simp: task_simps split: if_splits)
  obtain om where "m1 = Open om" using 2(2) by (auto simp: is_open_def split: bgp_message.splits)
  moreover have "m2 = KeepAlive" using 4(2) by (auto simp: is_keepalive_def split: bgp_message.splits)
  ultimately show ?thesis
    using write_bgp_message_Done [OF 1] read_bgp_message_front [OF 2(1)] write_bgp_message_Done [OF 3]
      read_bgp_message_front [OF 4(1)] by auto
qed

text \<open>The stages of a session.\<close>

definition announce_and_follow ::
  "nat \<Rightarrow> ('at, 'n, 'y) bgp_lib_scheme \<Rightarrow> peer_config \<Rightarrow> ('z bgp_scheme, unit) task" where
  "announce_and_follow n K peer =
     await (send_prefix_announcements K peer) (\<lambda>_.
     await instant_now (\<lambda>t1.
     await instant_now (\<lambda>t2.
       session_loop n K peer (t1 + keepalive_interval peer) (t2 + negotiated_hold peer))))"

lemma run_session_stages:
  assumes "run_session n K peer w = (r, w')"
  obtains (refused) w1 r2 where "set_peer_state (pc_address peer) OpenSent None None w = (Done (), w1)"
      "handshake K peer w1 = (r2, w')" "r2 \<noteq> Done ()"
  | (agreed) w1 w2 w3 where "set_peer_state (pc_address peer) OpenSent None None w = (Done (), w1)"
      "handshake K peer w1 = (Done (), w2)"
      "set_peer_state (pc_address peer) Established None (Some (nt_utc w2 (nt_step w2))) (pass w2) = (Done (), w3)"
      "announce_and_follow n K peer w3 = (r, w')"
proof -
  obtain w1 where 1: "set_peer_state (pc_address peer) OpenSent None None w = (Done (), w1)"
    by (simp add: set_peer_state_def)
  obtain r2 w2 where h: "handshake K peer w1 = (r2, w2)" by force
  show thesis
  proof (cases "r2 = Done ()")
    case False
    with assms 1 h have "w' = w2" by (cases r2) (auto simp: run_session_def await_def)
    with refused 1 h False show thesis by blast
  next
    case True
    obtain w3 where 3: "set_peer_state (pc_address peer) Established None (Some (nt_utc w2 (nt_step w2))) (pass w2) = (Done (), w3)"
      by (simp add: set_peer_state_def)
    moreover have "announce_and_follow n K peer w3 = (r, w')"
      using assms 1 h True 3 by (simp add: run_session_def announce_and_follow_def await_def net_utc_now_def)
    ultimately show thesis using agreed 1 h True by blast
  qed
qed

lemma announce_and_follow_reported:
  assumes "announce_and_follow n K peer w = (r, w')"
  shows "reported a [] w w'"
proof -
  obtain r1 w1 where an: "send_prefix_announcements K peer w = (r1, w1)" by force
  have 1: "reported a [] w w1" by (rule announcements_reported [OF an])
  have "w' = w1 \<or> (\<exists>nk dl. session_loop n K peer nk dl w1 = (r, w'))"
    using assms an by (cases r1) (auto simp: announce_and_follow_def await_def instant_now_def)
  then show ?thesis using 1 reported_trans [OF 1 net_only_reported [OF net_session_loop(1)]] by fastforce
qed

lemma run_session_reported:
  assumes "state_of (pc_address peer) w \<noteq> None" "run_session n K peer w = (r, w')"
  shows "\<exists>ss \<in> {[OpenSent], [OpenSent, Established]}. reported (pc_address peer) ss w w'"
  using assms(2)
proof (cases rule: run_session_stages)
  case (refused w1 r2)
  with set_peer_state_reported [OF assms(1), of OpenSent None None] have "reported (pc_address peer) [OpenSent] w w1" by simp
  from reported_trans [OF this net_only_reported [OF net_handshake(1) refused(2)]] show ?thesis by auto
next
  case (agreed w1 w2 w3)
  with set_peer_state_reported [OF assms(1), of OpenSent None None] have "reported (pc_address peer) [OpenSent] w w1" by simp
  from reported_trans [OF this net_only_reported [OF net_handshake(1) agreed(2)]]
  have 2: "reported (pc_address peer) [OpenSent] w (pass w2)"
    using net_only_reported [OF net_calls(5), of w2] by (auto simp: net_utc_now_def reported_def state_events_def)
  then have "state_of (pc_address peer) (pass w2) \<noteq> None" by (simp add: reported_def)
  from set_peer_state_reported [OF this, of Established None "Some (nt_utc w2 (nt_step w2))"] agreed(3)
  have "reported (pc_address peer) [Established] (pass w2) w3" by simp
  from reported_trans [OF 2 reported_trans [OF this announce_and_follow_reported [OF agreed(4)]]] show ?thesis by auto
qed

text \<open>Setting up a connection reports nothing; a session that follows reports its states.\<close>

lemma session_after_setup:
  assumes "net_only pre" "state_of (pc_address peer) w \<noteq> None" "await pre (\<lambda>_. run_session n K peer) w = (r, w')"
  shows "\<exists>ss \<in> {[], [OpenSent], [OpenSent, Established]}. reported (pc_address peer) ss w w'"
proof -
  obtain r1 w1 where pre: "pre w = (r1, w1)" by force
  have 1: "reported (pc_address peer) [] w w1" by (rule net_only_reported [of pre, OF assms(1) pre])
  then have some: "state_of (pc_address peer) w1 \<noteq> None" using assms(2) by (simp add: reported_def)
  show ?thesis
  proof (cases "\<exists>u. r1 = Done u")
    case True
    then have "run_session n K peer w1 = (r, w')" using assms(3) pre by (auto simp: await_def)
    from run_session_reported [OF some this] reported_trans [OF 1] show ?thesis by fastforce
  next
    case False
    then have "w' = w1" using assms(3) pre by (cases r1) (auto simp: await_def)
    with 1 show ?thesis by blast
  qed
qed

lemma active_reported:
  fixes w :: "'z bgp_scheme"
  assumes "state_of (pc_address peer) w \<noteq> None" "run_active_session n K peer w = (r, w')"
  shows "\<exists>ss \<in> {[], [OpenSent], [OpenSent, Established]}. reported (pc_address peer) ss w w'"
proof -
  let ?a = "pc_address peer"
  define pre :: "('z bgp_scheme, unit) task" where "pre = await (of_result (with_context (''invalid peer socket '' @ peer_socket_text peer)
       (ok_or (Msg ''invalid socket address syntax'') (parse_socket (peer_socket_text peer)))))
       (connect_with_optional_bind K peer)"
  have run: "run_active_session n K peer = await pre (\<lambda>_. run_session n K peer)"
    unfolding run_active_session_def pre_def await_assoc ..
  have "net_only pre" unfolding pre_def by (intro net_intros)
  then show ?thesis using session_after_setup [OF _ assms(1)] assms(2) unfolding run by blast
qed

lemma passive_reported:
  fixes w :: "'z bgp_scheme"
  assumes "state_of (pc_address peer) w \<noteq> None" "run_passive_session n K peer w = (r, w')"
  shows "\<exists>ss \<in> {[], [OpenSent], [OpenSent, Established]}. reported (pc_address peer) ss w w'"
proof -
  define pre :: "('z bgp_scheme, unit) task" where "pre =
     await (of_result (with_context (''invalid passive local_address '' @ passive_listen_addr peer)
       (normalize_socket_addr (passive_listen_addr peer) (pc_remote_port peer)))) (\<lambda>listen.
     await (task_context (''failed binding passive listener '' @ show_socket listen)
       (net_call (SockListen listen))) (\<lambda>_.
     await tcp_accept (set_md5 K ''failed to set TCP-MD5 signature on accepted connection'' peer)))"
  have run: "run_passive_session n K peer = await pre (\<lambda>_. run_session n K peer)"
    unfolding run_passive_session_def pre_def await_assoc ..
  have "net_only pre" unfolding pre_def by (intro net_intros)
  then show ?thesis using session_after_setup [OF _ assms(1)] assms(2) unfolding run by blast
qed

section \<open>The state machine of a peer\<close>

inductive fsm :: "peer_state \<Rightarrow> peer_state \<Rightarrow> bool" where
  dialled: "fsm Connect OpenSent"
| not_dialled: "fsm Connect Active"
| agreed: "fsm OpenSent Established"
| not_agreed: "fsm OpenSent Active"
| lost: "fsm Established Active"
| again: "fsm Active Connect"

inductive_simps fsm_simps [simp]:
  "fsm Connect s" "fsm OpenSent s" "fsm Established s" "fsm Active s" "fsm Idle s" "fsm OpenConfirm s"

text \<open>A turn of the loop reports a path from \<open>Connect\<close>, to \<open>Active\<close> when it comes to an end.\<close>

lemma peer_turn_reported:
  assumes "state_of (pc_address peer) w \<noteq> None" "peer_turn n K peer w = (r, w')"
  shows "\<exists>ss. reported (pc_address peer) (Connect # ss) w w' \<and> successively fsm (Connect # ss) \<and>
    set ss \<subseteq> {OpenSent, Established, Active} \<and> (r = Waits \<or> r = Done () \<and> last (Connect # ss) = Active)"
proof -
  let ?a = "pc_address peer"
  let ?s = "if pc_passive peer then run_passive_session n K peer else run_active_session n K peer"
  obtain w1 where 1: "set_peer_state ?a Connect None None w = (Done (), w1)" "reported ?a [Connect] w w1"
    using set_peer_state_reported [OF assms(1), of Connect None None] by (metis surj_pair)
  then have some1: "state_of ?a w1 \<noteq> None" by (simp add: reported_def)
  obtain r2 w2 where s: "?s w1 = (r2, w2)" by force
  then obtain ss where ss: "ss \<in> {[], [OpenSent], [OpenSent, Established]}" "reported ?a ss w1 w2"
    using active_reported [OF some1] passive_reported [OF some1] by (metis (full_types))
  have 2: "reported ?a (Connect # ss) w w2" using reported_trans [OF 1(2) ss(2)] by simp
  then have some2: "state_of ?a w2 \<noteq> None" by (simp add: reported_def)
  have never: "r2 \<noteq> Done ()" using s sessions_not_done by (metis (full_types))
  show ?thesis
  proof (cases r2)
    case Waits
    with assms(2) 1(1) s have "r = Waits" "w' = w2" by (simp_all add: peer_turn_def await_def)
    with 2 ss(1) show ?thesis by (intro exI [of _ ss]) auto
  next
    case (Failed e)
    with assms(2) 1(1) s have "set_peer_state ?a Active (Some (err_to_string e)) None w2 = (r, w')"
      by (simp add: peer_turn_def await_def)
    with set_peer_state_reported [OF some2, of Active "Some (err_to_string e)" None]
    have "r = Done ()" "reported ?a [Active] w2 w'" by auto
    with reported_trans [OF 2 this(2)] ss(1) show ?thesis by (intro exI [of _ "ss @ [Active]"]) auto
  qed (use never in auto)
qed

lemma peer_loop_reported:
  assumes "state_of (pc_address peer) w \<noteq> None" "peer_loop k n K peer w = (r, w')"
  shows "r = Waits \<and> (\<exists>ss. reported (pc_address peer) ss w w' \<and> successively fsm ss \<and>
    set ss \<subseteq> {Connect, OpenSent, Established, Active} \<and> (if k = 0 then ss = [] else ss \<noteq> [] \<and> hd ss = Connect))"
  using assms
proof (induction k arbitrary: w)
  case 0
  then show ?case by (simp add: reported_def state_events_def)
next
  case (Suc k)
  let ?a = "pc_address peer"
  obtain r1 w1 where t: "peer_turn n K peer w = (r1, w1)" by force
  from peer_turn_reported [OF Suc.prems(1) t] obtain ss where
    ss: "reported ?a (Connect # ss) w w1" "successively fsm (Connect # ss)" "set ss \<subseteq> {OpenSent, Established, Active}"
    and r1: "r1 = Waits \<or> r1 = Done () \<and> last (Connect # ss) = Active" by blast
  from r1 show ?case
  proof
    assume "r1 = Waits"
    with t Suc.prems(2) have "r = Waits" "w' = w1" by (simp_all add: await_def)
    with ss show ?thesis by (intro conjI exI [of _ "Connect # ss"]) auto
  next
    assume d: "r1 = Done () \<and> last (Connect # ss) = Active"
    define w2 where "w2 = w1\<lparr>nt_time := nt_time w1 + unat (pc_connect_retry_secs peer) * second\<rparr>"
    have w2: "reported ?a (Connect # ss) w w2" using ss(1) by (simp add: w2_def reported_def state_of_def peer_show_def)
    then have "state_of ?a w2 \<noteq> None" by (simp add: reported_def)
    moreover have "peer_loop k n K peer w2 = (r, w')"
      using Suc.prems(2) t d by (simp add: await_def retry_sleep_def w2_def)
    ultimately obtain ts where ts: "r = Waits" "reported ?a ts w2 w'" "successively fsm ts"
      "set ts \<subseteq> {Connect, OpenSent, Established, Active}" "if k = 0 then ts = [] else ts \<noteq> [] \<and> hd ts = Connect"
      using Suc.IH by blast
    have "successively fsm ((Connect # ss) @ ts)"
      unfolding successively_append_iff using ss(2) ts(3,5) d by (auto split: if_splits)
    with reported_trans [OF w2 ts(2)] ss(3) ts(1,4) show ?thesis
      by (intro conjI exI [of _ "(Connect # ss) @ ts"]) auto
  qed
qed

text \<open>
  C5: the states a peer reports. Over any number of turns of its loop, whatever the network
  does, the reported states are a path of the state machine that starts with \<open>Connect\<close>; the
  state the table shows is the last one reported; \<open>Idle\<close> and \<open>OpenConfirm\<close> are never reported,
  and the loop does not return.
\<close>

theorem peer_loop_states:
  assumes "state_of (pc_address peer) w \<noteq> None" "peer_loop (Suc turns) n K peer w = (r, w')"
  shows "r = Waits \<and> (\<exists>ss. bg_events w' = bg_events w @ state_events (pc_address peer) (Connect # ss) \<and>
    successively fsm (Connect # ss) \<and> state_of (pc_address peer) w' = Some (last (Connect # ss)) \<and>
    Idle \<notin> set ss \<and> OpenConfirm \<notin> set ss)"
proof -
  from peer_loop_reported [OF assms] obtain ss where "r = Waits" "reported (pc_address peer) ss w w'" "successively fsm ss"
    "set ss \<subseteq> {Connect, OpenSent, Established, Active}" "ss \<noteq> []" "hd ss = Connect" by auto
  moreover from this(5,6) obtain ts where "ss = Connect # ts" by (cases ss) auto
  ultimately show ?thesis by (intro conjI exI [of _ ts]) (auto simp: reported_def)
qed

text \<open>
  C6: a peer is established only after the handshake. When a session leaves its peer in
  \<open>Established\<close>, the first two messages of the peer were an OPEN and a KEEPALIVE, and what has
  been sent starts with the OPEN of this speaker, with its AS number, hold time and router id,
  and a KEEPALIVE.
\<close>

theorem established_after_handshake:
  assumes "state_of (pc_address peer) w \<noteq> None" "run_session n K peer w = (r, w')"
    and "state_of (pc_address peer) w' = Some Established"
  shows "\<exists>om bs rest. front_message K (nt_inbox w) = Some (Open om, bs) \<and> front_message K bs = Some (KeepAlive, rest) \<and>
    prefix (nt_outbox w @ wire K (open_of w peer) @ wire K KeepAlive) (nt_outbox w')"
  using assms(2)
proof (cases rule: run_session_stages)
  case (refused w1 r2)
  with set_peer_state_reported [OF assms(1), of OpenSent None None] have "reported (pc_address peer) [OpenSent] w w1" by simp
  from reported_trans [OF this net_only_reported [OF net_handshake(1) refused(2)]] assms(3) show ?thesis
    by (simp add: reported_def)
next
  case (agreed w1 w2 w3)
  have w1: "nt_inbox w1 = nt_inbox w" "nt_outbox w1 = nt_outbox w" "open_of w1 peer = open_of w peer"
    using agreed(1) by (auto simp: set_peer_state_def open_of_def local_as_of_def split: if_splits option.splits)
  have w3: "nt_outbox w3 = nt_outbox w2" using agreed(3) by (auto simp: set_peer_state_def split: if_splits)
  have "sends (announce_and_follow n K peer)" 
    unfolding announce_and_follow_def by (intro net_intros sends_announcements)
  with agreed(4) w3 have "prefix (nt_outbox w2) (nt_outbox w')" unfolding sends_def by (metis snd_conv)
  with handshake_Done [OF agreed(2)] w1 show ?thesis by metis
qed

section \<open>Announcements\<close>

lemma write_each_Done:
  "await_each es (\<lambda>e. write_bgp_message K (f e)) w = (Done (), w') \<Longrightarrow>
     nt_outbox w' = nt_outbox w @ concat (map (wire K \<circ> f) es)"
proof (induction es arbitrary: w)
  case (Cons e es)
  then obtain w1 where "write_bgp_message K (f e) w = (Done (), w1)"
    "await_each es (\<lambda>e. write_bgp_message K (f e)) w1 = (Done (), w')" by (auto simp: task_simps)
  with Cons.IH [of w1] write_bgp_message_Done [of K "f e" w w1] show ?case by simp
qed simp

text \<open>
  what is announced. When the announcements have gone out, exactly one update per configured
  prefix has been sent, in the order of the configuration, and both the count in the table and the
  list that \<^verbatim>\<open>rib_out\<close> gives agree with them.
\<close>

theorem announcements_complete:
  assumes "peer_show (pc_address peer) w = Some info" "send_prefix_announcements K peer w = (Done (), w')"
  shows "nt_outbox w' = nt_outbox w @
      concat (map (\<lambda>e. wire K (build_announce_update K e (bg_router_id w) (local_as_of w peer))) (bg_prefixes w)) \<and>
    peer_show (pc_address peer) w' = Some (info\<lparr>pi_advertised_prefixes := of_nat (length (bg_prefixes w))\<rparr>) \<and>
    rib_out K (pc_address peer) w' = Inr (map (\<lambda>e. kx_show_net K (pe_network e)) (bg_prefixes w))"
proof -
  let ?f = "\<lambda>e. build_announce_update K e (bg_router_id w) (local_as_of w peer)"
  from assms(2) obtain w1 where each: "await_each (bg_prefixes w) (\<lambda>e. write_bgp_message K (?f e)) w = (Done (), w1)"
    and w': "w' = w1\<lparr>bg_peers := AList.map_entry (pc_address peer)
         (\<lambda>r. r\<lparr>pr_info := (pr_info r)\<lparr>pi_advertised_prefixes := of_nat (length (bg_prefixes w))\<rparr>\<rparr>) (bg_peers w1)\<rparr>"
    unfolding send_prefix_announcements_def by (auto simp: task_simps)
  have "net_only (await_each (bg_prefixes w) (\<lambda>e. write_bgp_message K (?f e)))" by (intro net_intros)
  with each have "net.more w1 = net.more w" unfolding net_only_def by (metis snd_conv)
  from bgp_more [OF this] write_each_Done [OF each] assms(1) w' show ?thesis
    by (auto simp: peer_show_def rib_out_def map_of_map_entry comp_def)
qed

section \<open>Timers\<close>

definition silent :: "'z net_scheme \<Rightarrow> bool" where
  "silent w \<longleftrightarrow> net_free w \<and> nt_inbox w = [] \<and> \<not> nt_closed w"

lemma silent_simps [simp]:
  "silent (pass w) = silent w" "silent (w\<lparr>nt_outbox := b\<rparr>) = silent w" "silent (w\<lparr>nt_window := v\<rparr>) = silent w"
  "silent (w\<lparr>nt_time := t\<rparr>) = silent w"
  by (simp_all add: silent_def)

lemma silent_consume [simp]: "silent w \<Longrightarrow> silent (consume n w)"
  by (simp add: silent_def)

lemma consume_zero [simp]: "consume 0 w = w"
  by (cases w) (simp add: consume_def option.map_ident)

lemma silent_read:
  "silent w \<Longrightarrow> time_limit d (read_bgp_message K) w =
     (Done None, pass (w\<lparr>nt_window := None, nt_time := nt_time w + d\<rparr>))"
  by (simp add: time_limit_def read_bgp_message_cases in_window_def eof_in_window_def silent_def Let_def)

lemma interval_pos: "0 < keepalive_interval peer"
  by (simp add: keepalive_interval_def second_def)

lemma delay_simps [simp]: "nt_delay (pass w) = nt_delay w"
  by (simp add: pass_def)

text \<open>One round with a silent peer: time goes on, and nothing else changes but what is sent.\<close>

lemma silent_round:
  assumes "silent w" "19 \<le> length (kx_encode K KeepAlive)" "nt_time w < dl"
  obtains w1 nk1 where "\<And>n. session_loop (Suc n) K peer nk dl w = session_loop n K peer nk1 dl w1" "silent w1"
    "nt_time w < nt_time w1" "nt_delay w1 = nt_delay w" "(\<forall>k. nt_delay w k = 0) \<longrightarrow> nt_time w1 \<le> nt_time w + second"
proof -
  let ?due = "nt_time w \<ge> nk"
  define v where "v = (if ?due then (pass w)\<lparr>nt_outbox := nt_outbox w @ wire K KeepAlive\<rparr> else w)"
  define nk1 where "nk1 = (if ?due then nt_time w + keepalive_interval peer else nk)"
  define d where "d = min (nk1 - nt_time w) second"
  have "write_bgp_message K KeepAlive w = (Done (), (pass w)\<lparr>nt_outbox := nt_outbox w @ wire K KeepAlive\<rparr>)"
    using assms by (intro write_bgp_message_runs) (simp_all add: silent_def)
  moreover have v: "silent v" "nt_time w \<le> nt_time v" "nt_delay v = nt_delay w"
    "(\<forall>k. nt_delay w k = 0) \<Longrightarrow> nt_time v = nt_time w" using assms(1) by (simp_all add: v_def)
  ultimately have round: "session_loop (Suc n) K peer nk dl w =
      session_loop n K peer nk1 dl (pass (v\<lparr>nt_window := None, nt_time := nt_time v + d\<rparr>))" for n
    using assms(3) silent_read [OF v(1), of d K]
    by (cases ?due) (simp_all add: await_def instant_now_def v_def nk1_def d_def)
  have "0 < d" "d \<le> second" using interval_pos [of peer] by (auto simp: d_def nk1_def second_def)
  with round v show thesis
    by (intro that [of nk1 "pass (v\<lparr>nt_window := None, nt_time := nt_time v + d\<rparr>)"]) auto
qed

lemma silent_expires:
  assumes "silent w" "19 \<le> length (kx_encode K KeepAlive)"
  shows "\<exists>n w'. session_loop n K peer nk dl w = (Failed hold_expired, w') \<and> dl \<le> nt_time w' \<and>
    ((\<forall>k. nt_delay w k = 0) \<longrightarrow> nt_time w < dl + second \<longrightarrow> nt_time w' < dl + second)"
  using assms
proof (induction "dl - nt_time w" arbitrary: w nk rule: less_induct)
  case less
  show ?case
  proof (cases "nt_time w < dl")
    case True
    obtain w1 nk1 where step: "\<And>n. session_loop (Suc n) K peer nk dl w = session_loop n K peer nk1 dl w1" "silent w1"
      "nt_time w < nt_time w1" "nt_delay w1 = nt_delay w" "(\<forall>k. nt_delay w k = 0) \<longrightarrow> nt_time w1 \<le> nt_time w + second"
      using silent_round [OF less.prems True, of peer nk] by metis
    have "dl - nt_time w1 < dl - nt_time w" using step(3) True by linarith
    from less.hyps [OF this step(2) less.prems(2), of nk1] obtain n w' where
      "session_loop n K peer nk1 dl w1 = (Failed hold_expired, w')" "dl \<le> nt_time w'"
      "(\<forall>k. nt_delay w1 k = 0) \<longrightarrow> nt_time w1 < dl + second \<longrightarrow> nt_time w' < dl + second" by blast
    moreover from this(3) step(4,5) True have "(\<forall>k. nt_delay w k = 0) \<longrightarrow> nt_time w' < dl + second" by fastforce
    ultimately show ?thesis using step(1) by (intro exI [of _ "Suc n"] exI [of _ w']) (simp del: session_loop.simps)
  next
    case False
    have "session_loop 1 K peer nk dl w =
        (Failed hold_expired, if nt_time w \<ge> nk then (pass w)\<lparr>nt_outbox := nt_outbox w @ wire K KeepAlive\<rparr> else w)"
      using less.prems False write_bgp_message_runs [of w K KeepAlive]
      by (simp add: silent_def await_def instant_now_def numeral_eq_Suc One_nat_def)
    with False show ?thesis by (intro exI [of _ 1]) auto
  qed
qed

text \<open>
  C18: the hold timer. When the peer falls silent after the session is established, the loop
  comes to an end with the hold timer's error, not before the deadline; and when calls take no
  time, less than a second after it. The interval of the keepalives is a third of the hold time,
  and the hold time is never below three seconds, whatever is configured.
\<close>

theorem silent_peer_expires:
  assumes "silent w" "19 \<le> length (kx_encode K KeepAlive)"
  shows "(\<exists>n w'. session_loop n K peer (nt_time w + keepalive_interval peer) (nt_time w + negotiated_hold peer) w =
      (Failed hold_expired, w') \<and> nt_time w + negotiated_hold peer \<le> nt_time w' \<and>
      ((\<forall>k. nt_delay w k = 0) \<longrightarrow> nt_time w' < nt_time w + negotiated_hold peer + second)) \<and>
    3 * keepalive_interval peer \<le> negotiated_hold peer \<and> 3 * second \<le> negotiated_hold peer"
proof -
  have "3 \<le> unat (session_hold peer)"
    using word_le_nat_alt [of 3 "session_hold peer"] by (simp add: session_hold_def)
  then have "3 * keepalive_interval peer \<le> negotiated_hold peer" "3 * second \<le> negotiated_hold peer"
    by (auto simp: keepalive_interval_def negotiated_hold_def second_def)
  moreover have "nt_time w < nt_time w + negotiated_hold peer + second" by (simp add: second_def)
  ultimately show ?thesis
    using silent_expires [OF assms, of peer "nt_time w + keepalive_interval peer" "nt_time w + negotiated_hold peer"]
    by metis
qed

section \<open>Establishing a session\<close>

lemma handshake_runs:
  assumes "net_free w" "wire_ok K (Open om)" "wire_ok K KeepAlive" "19 \<le> length (kx_encode K (open_of w peer))"
    and "nt_inbox w = wire K (Open om) @ wire K KeepAlive @ rest" "nt_window w = None"
  shows "\<exists>w'. handshake K peer w = (Done (), w') \<and> net_free w' \<and> nt_inbox w' = rest \<and> nt_window w' = None"
proof -
  define w1 where "w1 = (pass w)\<lparr>nt_outbox := nt_outbox w @ wire K (open_of w peer)\<rparr>"
  define w2 where "w2 = consume (length (wire K (Open om))) w1"
  define w3 where "w3 = (pass w2)\<lparr>nt_outbox := nt_outbox w2 @ wire K KeepAlive\<rparr>"
  define w4 where "w4 = consume (length (wire K KeepAlive)) w3"
  have 1: "write_bgp_message K (open_of w peer) w = (Done (), w1)" unfolding w1_def using assms(1,4) by (rule write_bgp_message_runs)
  have 2: "read_bgp_message K w1 = (Done (Open om), w2)"
    unfolding w2_def
    by (rule read_bgp_message_wire [OF assms(2), of _ "wire K KeepAlive @ rest"]) (simp_all add: assms w1_def in_window_def)
  have 3: "write_bgp_message K KeepAlive w2 = (Done (), w3)"
    unfolding w3_def using assms(1,3) by (intro write_bgp_message_runs) (simp_all add: wire_ok_def w1_def w2_def)
  have 4: "read_bgp_message K w3 = (Done KeepAlive, w4)"
    unfolding w4_def
    by (rule read_bgp_message_wire [OF assms(3), of _ rest]) (simp_all add: assms w1_def w2_def w3_def in_window_def)
  have "handshake K peer w = (Done (), w4)"
    by (simp add: handshake_def await_def 1 2 3 4 is_open_def is_keepalive_def)
  then show ?thesis using assms(1,5,6) by (simp add: w1_def w2_def w3_def w4_def)
qed

lemma set_peer_state_net:
  assumes "set_peer_state a s e t w = (Done (), w')"
  shows "net_free w' = net_free w" "nt_inbox w' = nt_inbox w" "nt_window w' = nt_window w" "nt_outbox w' = nt_outbox w"
    "bg_prefixes w' = bg_prefixes w" "bg_router_id w' = bg_router_id w" "local_as_of w' p = local_as_of w p"
  using assms by (auto simp: set_peer_state_def net_free_def local_as_of_def split: if_splits option.splits)

lemma local_as_more: "net.more w' = net.more w \<Longrightarrow> local_as_of w' p = local_as_of w p"
  using bgp_more(4) [of w' w] by (simp add: local_as_of_def split: option.splits)

lemma set_peer_state_open: "set_peer_state a s e t w = (Done (), w') \<Longrightarrow> open_of w' p = open_of w p"
  using set_peer_state_net(6,7) [of a s e t w w'] by (simp add: open_of_def)

lemma session_reaches_established:
  assumes "net_free w" "wire_ok K (Open om)" "wire_ok K KeepAlive" "19 \<le> length (kx_encode K (open_of w peer))"
    and "\<forall>e \<in> set (bg_prefixes w). 19 \<le> length (kx_encode K (build_announce_update K e (bg_router_id w) (local_as_of w peer)))"
    and "nt_inbox w = wire K (Open om) @ wire K KeepAlive @ rest" "nt_window w = None"
    and "state_of (pc_address peer) w \<noteq> None"
  shows "\<exists>w'. run_session 0 K peer w = (Waits, w') \<and> state_of (pc_address peer) w' = Some Established \<and>
    bg_events w' = bg_events w @ state_events (pc_address peer) [OpenSent, Established] \<and>
    nt_outbox w' = nt_outbox w @ wire K (open_of w peer) @ wire K KeepAlive @
      concat (map (\<lambda>e. wire K (build_announce_update K e (bg_router_id w) (local_as_of w peer))) (bg_prefixes w))"
proof -
  let ?a = "pc_address peer"
  obtain w1 where 1: "set_peer_state ?a OpenSent None None w = (Done (), w1)" by (simp add: set_peer_state_def)
  note net1 = set_peer_state_net [OF 1]
  note om = set_peer_state_open [OF 1, of peer]
  obtain w2 where h: "handshake K peer w1 = (Done (), w2)" "net_free w2" "nt_inbox w2 = rest" "nt_window w2 = None"
    using handshake_runs [of w1 K om peer rest] assms(1-4,6,7) unfolding net1 om by blast
  from handshake_Done [OF h(1)] have out: "nt_outbox w2 = nt_outbox w1 @ wire K (open_of w peer) @ wire K KeepAlive"
    unfolding om by blast
  have more: "net.more w2 = net.more w1" using net_handshake(1) [of K peer] h(1) unfolding net_only_def by (metis snd_conv)
  obtain w3 where 3: "set_peer_state ?a Established None (Some (nt_utc w2 (nt_step w2))) (pass w2) = (Done (), w3)"
    by (simp add: set_peer_state_def)
  note net3 = set_peer_state_net [OF 3]
  have same: "bg_prefixes w3 = bg_prefixes w" "bg_router_id w3 = bg_router_id w" "local_as_of w3 peer = local_as_of w peer"
    using net1(5-7) net3(5-7) bgp_more(3,5) [of "pass w2" w1] local_as_more [of "pass w2" w1] more by simp_all
  let ?f = "\<lambda>e. build_announce_update K e (bg_router_id w) (local_as_of w peer)"
  obtain w4 where each: "await_each (bg_prefixes w) (\<lambda>e. write_bgp_message K (?f e)) w3 = (Done (), w4)"
    using write_many_runs [of w3 "map ?f (bg_prefixes w)" K] net3 h(2) assms(5) by (auto simp: await_each_map)
  obtain w5 where ann: "send_prefix_announcements K peer w3 = (Done (), w5)" "nt_outbox w5 = nt_outbox w4"
    using each same by (simp add: send_prefix_announcements_def await_def)
  have run: "run_session 0 K peer w = (Waits, w5)"
    using 1 h(1) 3 ann(1) by (simp add: run_session_def await_def net_utc_now_def instant_now_def)
  have "reported ?a [OpenSent] w w1" using set_peer_state_reported [OF assms(8), of OpenSent None None] 1 by simp
  then have r2: "reported ?a [OpenSent] w (pass w2)"
    using bgp_more [of "pass w2" w1] more by (simp add: reported_def state_of_def peer_show_def)
  then have some: "state_of ?a (pass w2) \<noteq> None" by (simp add: reported_def)
  have "reported ?a [Established] (pass w2) w3"
    using set_peer_state_reported [OF some, of Established None "Some (nt_utc w2 (nt_step w2))"] 3 by simp
  from reported_trans [OF r2 reported_trans [OF this announcements_reported [OF ann(1)]]]
  have "reported ?a [OpenSent, Established] w w5" by simp
  then show ?thesis
    using run out write_each_Done [OF each] ann(2) net1(4) net3(4) by (simp add: reported_def comp_def)
qed

text \<open>
  C19: a session with a correct peer is established. When no call fails and the peer answers the
  OPEN with its own OPEN and a KEEPALIVE, the session reports \<open>OpenSent\<close> and \<open>Established\<close>, sends
  every announcement after its OPEN and KEEPALIVE, and goes on to its loop.
\<close>

theorem session_establishes:
  assumes "net_free w" "wire_ok K (Open om)" "wire_ok K KeepAlive" "19 \<le> length (kx_encode K (open_of w peer))"
    and "\<forall>e \<in> set (bg_prefixes w). 19 \<le> length (kx_encode K (build_announce_update K e (bg_router_id w) (local_as_of w peer)))"
    and "nt_inbox w = wire K (Open om) @ wire K KeepAlive @ rest" "nt_window w = None"
    and "state_of (pc_address peer) w \<noteq> None"
  shows "\<exists>w'. run_session 0 K peer w = (Waits, w') \<and> state_of (pc_address peer) w' = Some Established \<and>
    bg_events w' = bg_events w @ state_events (pc_address peer) [OpenSent, Established] \<and>
    nt_outbox w' = nt_outbox w @ wire K (open_of w peer) @ wire K KeepAlive @
      concat (map (\<lambda>e. wire K (build_announce_update K e (bg_router_id w) (local_as_of w peer))) (bg_prefixes w))"
  using assms by (rule session_reaches_established)

section \<open>Witnesses\<close>

definition demo_entry :: prefix_entry where
  "demo_entry = \<lparr>pe_network = NetV4 (Ipv4 203 0 113 0) 24, pe_next_hop = None\<rparr>"

definition demo_runtime :: peer_runtime where
  "demo_runtime = \<lparr>pr_info = fresh_info demo_peer 65001, pr_cfg = demo_peer, pr_task = 0\<rparr>"

definition demo_bgp :: "bytes \<Rightarrow> bgp" where
  "demo_bgp inbox = net.extend (demo_net inbox 0)
     \<lparr>bg_global_asn = 65001, bg_router_id = Ipv4 192 0 2 1, bg_prefixes = [demo_entry],
      bg_peers = [(pc_address demo_peer, demo_runtime)], bg_events = [], bg_next_task = 1, bg_aborted = []\<rparr>"

lemma demo_bgp_simps [simp]:
  "nt_inbox (demo_bgp bs) = bs" "nt_window (demo_bgp bs) = None" "nt_outbox (demo_bgp bs) = []" "net_free (demo_bgp bs)"
  "bg_prefixes (demo_bgp bs) = [demo_entry]" "bg_events (demo_bgp bs) = []"
  "bg_peers (demo_bgp bs) = [(pc_address demo_peer, demo_runtime)]" "bg_aborted (demo_bgp bs) = []"
  "bg_next_task (demo_bgp bs) = 1" "bg_global_asn (demo_bgp bs) = 65001"
  by (simp_all add: demo_bgp_def net.extend_def demo_net_def net_free_def)

lemma demo_state: "state_of (pc_address demo_peer) (demo_bgp bs) = Some Idle"
  by (simp add: state_of_def peer_show_def demo_runtime_def fresh_info_def)

definition demo_answer :: bytes where
  "demo_answer = wire demo_bgp_lib (Open demo_open) @ wire demo_bgp_lib KeepAlive"

lemma demo_established:
  obtains w' where "run_session 0 demo_bgp_lib demo_peer (demo_bgp demo_answer) = (Waits, w')"
    "state_of (pc_address demo_peer) w' = Some Established"
proof -
  have "nt_inbox (demo_bgp demo_answer) = wire demo_bgp_lib (Open demo_open) @ wire demo_bgp_lib KeepAlive @ []"
    by (simp add: demo_answer_def)
  with session_reaches_established [OF _ demo_wire_ok(2,1) _ _ this] demo_state demo_encode_length that show thesis
    by fastforce
qed

theorem session_establishes_witness:
  "\<exists>w'. run_session 0 demo_bgp_lib demo_peer (demo_bgp demo_answer) = (Waits, w') \<and>
     state_of (pc_address demo_peer) w' = Some Established \<and>
     bg_events w' = state_events (pc_address demo_peer) [OpenSent, Established]"
proof -
  have "nt_inbox (demo_bgp demo_answer) = wire demo_bgp_lib (Open demo_open) @ wire demo_bgp_lib KeepAlive @ []"
    by (simp add: demo_answer_def)
  with session_establishes [OF _ demo_wire_ok(2,1) _ _ this] demo_state demo_encode_length show ?thesis by fastforce
qed

theorem established_after_handshake_witness:
  "\<exists>w' om bs rest. run_session 0 demo_bgp_lib demo_peer (demo_bgp demo_answer) = (Waits, w') \<and>
     front_message demo_bgp_lib demo_answer = Some (Open om, bs) \<and> front_message demo_bgp_lib bs = Some (KeepAlive, rest)"
proof -
  obtain w' where run: "run_session 0 demo_bgp_lib demo_peer (demo_bgp demo_answer) = (Waits, w')"
    "state_of (pc_address demo_peer) w' = Some Established" by (rule demo_established)
  from established_after_handshake [OF _ run] demo_state run(1) show ?thesis by auto
qed

theorem peer_loop_states_witness:
  "\<exists>w' ss. peer_loop 3 2 demo_bgp_lib demo_peer (demo_bgp demo_answer) = (Waits, w') \<and>
     bg_events w' = state_events (pc_address demo_peer) (Connect # ss) \<and> successively fsm (Connect # ss)"
proof -
  obtain r w' where run: "peer_loop (Suc 2) 2 demo_bgp_lib demo_peer (demo_bgp demo_answer) = (r, w')" by force
  from peer_loop_states [OF _ run] demo_state run show ?thesis by (auto simp: eval_nat_numeral simp del: peer_loop.simps)
qed

theorem announcements_complete_witness:
  "\<exists>w' info. send_prefix_announcements demo_bgp_lib demo_peer (demo_bgp []) = (Done (), w') \<and>
     peer_show (pc_address demo_peer) w' = Some info \<and> pi_advertised_prefixes info = 1 \<and>
     rib_out demo_bgp_lib (pc_address demo_peer) w' = Inr [''net'']"
proof -
  obtain w' where run: "send_prefix_announcements demo_bgp_lib demo_peer (demo_bgp []) = (Done (), w')"
    using write_bgp_message_runs [of "demo_bgp []" demo_bgp_lib] demo_encode_length
    by (simp add: send_prefix_announcements_def await_def)
  have "peer_show (pc_address demo_peer) (demo_bgp []) = Some (pr_info demo_runtime)" by (simp add: peer_show_def)
  from announcements_complete [OF this run] run show ?thesis by (simp add: demo_bgp_lib_def)
qed

theorem silent_peer_expires_witness:
  "\<exists>n w'. session_loop n demo_bgp_lib demo_peer 30000000000 90000000000 (demo_net [] 0) = (Failed hold_expired, w') \<and>
     90000000000 \<le> nt_time w' \<and> nt_time w' < 91000000000"
proof -
  have "silent (demo_net [] 0)" by (simp add: silent_def)
  moreover have "keepalive_interval demo_peer = 30000000000" "negotiated_hold demo_peer = 90000000000"
    by (simp_all add: keepalive_interval_def negotiated_hold_def session_hold_def demo_peer_def second_def max_def)
  ultimately show ?thesis
    using silent_peer_expires [of "demo_net [] 0" demo_bgp_lib demo_peer] demo_encode_length
    by (fastforce simp: second_def)
qed

end
