(* ===== verification/Bgp_Peers.thy ===== *)
theory Bgp_Peers
  imports Bgp_Session
begin

text \<open>
  The table of the peers under concurrency. Its users hold its lock for one locked section at a
  time, so a history is a sequence of these sections: a task of a session sets the state of a
  peer or the number of its announced prefixes, a reset removes a peer and later puts it back.
\<close>

section \<open>Invariant of the table\<close>

definition info_of_config :: "peer_config \<Rightarrow> u32 \<Rightarrow> peer_info \<Rightarrow> bool" where
  "info_of_config cfg global_asn info \<longleftrightarrow>
     pi_address info = pc_address cfg \<and> pi_name info = pc_name cfg \<and> pi_remote_as info = pc_remote_as cfg \<and>
     pi_local_as info = (case pc_local_as cfg of Some a \<Rightarrow> a | None \<Rightarrow> global_asn) \<and>
     pi_remote_port info = pc_remote_port cfg \<and> pi_passive info = pc_passive cfg \<and>
     pi_auth_enabled info = (pc_password cfg \<noteq> None)"

definition runtime_ok :: "'z bgp_scheme \<Rightarrow> string \<Rightarrow> peer_runtime \<Rightarrow> bool" where
  "runtime_ok w a r \<longleftrightarrow>
     pc_address (pr_cfg r) = a \<and> info_of_config (pr_cfg r) (bg_global_asn w) (pr_info r) \<and>
     pr_task r < bg_next_task w \<and> pr_task r \<notin> set (bg_aborted w)"

definition peers_ok :: "'z bgp_scheme \<Rightarrow> bool" where
  "peers_ok w \<longleftrightarrow>
     distinct (map fst (bg_peers w)) \<and> distinct (map (pr_task \<circ> snd) (bg_peers w)) \<and>
     (\<forall>(a, r) \<in> set (bg_peers w). runtime_ok w a r) \<and> (\<forall>t \<in> set (bg_aborted w). t < bg_next_task w)"

lemma map_entry_facts:
  "map fst (AList.map_entry k f xs) = map fst xs"
  "(\<And>r. g (f r) = g r) \<Longrightarrow> map (g \<circ> snd) (AList.map_entry k f xs) = map (g \<circ> snd) xs"
  "(a, r) \<in> set (AList.map_entry k f xs) \<Longrightarrow> (a, r) \<in> set xs \<or> (\<exists>r0. (a, r0) \<in> set xs \<and> r = f r0)"
  by (induction xs) (auto split: if_splits)

text \<open>Changing a field of the info that the configuration does not give.\<close>

lemma peers_ok_map_entry:
  assumes "peers_ok w" "\<And>r. pr_cfg (f r) = pr_cfg r \<and> pr_task (f r) = pr_task r"
    and "\<And>r. info_of_config (pr_cfg r) (bg_global_asn w) (pr_info r) \<Longrightarrow>
      info_of_config (pr_cfg r) (bg_global_asn w) (pr_info (f r))"
  shows "peers_ok (w\<lparr>bg_peers := AList.map_entry a f (bg_peers w)\<rparr>)"
    and "map (\<lambda>(a, r). (a, pr_cfg r)) (AList.map_entry a f (bg_peers w)) = map (\<lambda>(a, r). (a, pr_cfg r)) (bg_peers w)"
proof -
  have "map (pr_task \<circ> snd) (AList.map_entry a f (bg_peers w)) = map (pr_task \<circ> snd) (bg_peers w)"
    by (rule map_entry_facts) (simp add: assms(2))
  then show "peers_ok (w\<lparr>bg_peers := AList.map_entry a f (bg_peers w)\<rparr>)"
    using assms by (fastforce simp: peers_ok_def map_entry_facts(1) runtime_ok_def dest!: map_entry_facts(3))
  have "map (\<lambda>(a, r). (a, pr_cfg r)) (AList.map_entry a f xs) = map (\<lambda>(a, r). (a, pr_cfg r)) xs" for xs
    by (induction xs) (auto simp: assms(2))
  then show "map (\<lambda>(a, r). (a, pr_cfg r)) (AList.map_entry a f (bg_peers w)) = map (\<lambda>(a, r). (a, pr_cfg r)) (bg_peers w)" .
qed

section \<open>Interleavings\<close>

text \<open>
  A history is over the table and the resets in progress: the peers that have been removed and
  are still to be put back.
\<close>

type_synonym 'z history_state = "'z bgp_scheme \<times> (string \<times> peer_config) list"

inductive peers_step :: "'z history_state \<Rightarrow> 'z history_state \<Rightarrow> bool" where
  state_set: "set_peer_state a s e t w = (Done (), w') \<Longrightarrow> peers_step (w, ps) (w', ps)"
| advertised: "peers_step (w, ps)
    (w\<lparr>bg_peers := AList.map_entry a (\<lambda>r. r\<lparr>pr_info := (pr_info r)\<lparr>pi_advertised_prefixes := n\<rparr>\<rparr>) (bg_peers w)\<rparr>, ps)"
| removed: "reset_remove a w = (Done cfg, w') \<Longrightarrow> peers_step (w, ps) (w', (a, cfg) # ps)"
| not_found: "reset_remove a w = (Failed e, w') \<Longrightarrow> peers_step (w, ps) (w', ps)"
| put_back: "(a, cfg) \<in> set ps \<Longrightarrow> reset_insert a cfg w = (Done (), w') \<Longrightarrow>
    peers_step (w, ps) (w', remove1 (a, cfg) ps)"

definition configs :: "'z bgp_scheme \<Rightarrow> (string \<times> peer_config) set" where
  "configs w = (\<lambda>(a, r). (a, pr_cfg r)) ` set (bg_peers w)"

definition history_ok :: "'z history_state \<Rightarrow> bool" where
  "history_ok st \<longleftrightarrow>
     peers_ok (fst st) \<and> distinct (map fst (snd st)) \<and>
     (\<forall>a cfg. (a, cfg) \<in> set (snd st) \<longrightarrow> pc_address cfg = a \<and> (\<forall>r. (a, r) \<notin> set (bg_peers (fst st))))"

definition known :: "'z history_state \<Rightarrow> (string \<times> peer_config) set" where
  "known st = configs (fst st) \<union> set (snd st)"

lemma history_okD:
  "history_ok (w, ps) \<Longrightarrow> peers_ok w" "history_ok (w, ps) \<Longrightarrow> distinct (map fst ps)"
  "history_ok (w, ps) \<Longrightarrow> (a, cfg) \<in> set ps \<Longrightarrow> pc_address cfg = a"
  "history_ok (w, ps) \<Longrightarrow> (a, cfg) \<in> set ps \<Longrightarrow> (a, r) \<notin> set (bg_peers w)"
  by (simp_all add: history_ok_def)

lemma delete_set: "p \<in> set (AList.delete a xs) \<longleftrightarrow> p \<in> set xs \<and> fst p \<noteq> a"
  by (auto simp: AList.delete_eq)

lemma reset_remove_ok:
  assumes "peers_ok w" "reset_remove a w = (Done cfg, w')"
  shows "peers_ok w'" "pc_address cfg = a" "(a, s) \<notin> set (bg_peers w')" "set (bg_peers w') \<subseteq> set (bg_peers w)"
    "insert (a, cfg) (configs w') = configs w" "\<exists>r. (a, r) \<in> set (bg_peers w)"
proof -
  from assms(2) obtain r where r: "map_of (bg_peers w) a = Some r" "cfg = pr_cfg r"
    and w': "w' = w\<lparr>bg_peers := AList.delete a (bg_peers w), bg_aborted := pr_task r # bg_aborted w\<rparr>"
    by (auto simp: reset_remove_def split: option.splits)
  have in_w: "(a, r) \<in> set (bg_peers w)" using r(1) by (rule map_of_SomeD)
  then show "\<exists>r. (a, r) \<in> set (bg_peers w)" ..
  have inj: "inj_on (pr_task \<circ> snd) (set (bg_peers w))" using assms(1) by (simp add: peers_ok_def distinct_map)
  have others: "pr_task s \<noteq> pr_task r" if "(b, s) \<in> set (bg_peers w)" "b \<noteq> a" for b s
    using inj_onD [OF inj, of "(b, s)" "(a, r)"] that in_w by auto
  show sub: "set (bg_peers w') \<subseteq> set (bg_peers w)" by (auto simp: w' delete_set)
  have "distinct (map fst (AList.delete a (bg_peers w)))" "distinct (map (pr_task \<circ> snd) (AList.delete a (bg_peers w)))"
    using assms(1) by (auto simp: peers_ok_def AList.delete_eq distinct_map intro: inj_on_subset)
  moreover have "runtime_ok w' b s" if "(b, s) \<in> set (AList.delete a (bg_peers w))" for b s
    using that assms(1) others [of b s] by (auto simp: peers_ok_def runtime_ok_def w' delete_set)
  ultimately show "peers_ok w'"
    using assms(1) in_w by (auto simp: peers_ok_def w' runtime_ok_def)
  show "pc_address cfg = a" using assms(1) in_w r(2) by (auto simp: peers_ok_def runtime_ok_def)
  show "(a, s) \<notin> set (bg_peers w')" by (simp add: w' delete_set)
  show "insert (a, cfg) (configs w') = configs w"
  proof (intro equalityI subsetI)
    fix p assume "p \<in> insert (a, cfg) (configs w')"
    then show "p \<in> configs w" using in_w r(2) sub unfolding configs_def by force
  next
    fix p assume "p \<in> configs w"
    then obtain b s where p: "p = (b, pr_cfg s)" "(b, s) \<in> set (bg_peers w)" by (auto simp: configs_def)
    show "p \<in> insert (a, cfg) (configs w')"
    proof (cases "b = a")
      case True
      then have "s = r" using p(2) r(1) assms(1) by (simp add: peers_ok_def)
      with True p(1) r(2) show ?thesis by simp
    next
      case False
      then have "(b, s) \<in> set (bg_peers w')" using p(2) by (simp add: w' delete_set)
      then show ?thesis using p(1) by (force simp: configs_def)
    qed
  qed
qed

lemma reset_insert_ok:
  assumes "peers_ok w" "reset_insert a cfg w = (Done (), w')" "pc_address cfg = a" "\<And>r. (a, r) \<notin> set (bg_peers w)"
  shows "peers_ok w'" "bg_peers w' = bg_peers w @ [(a, fst (spawn_peer_task cfg w))]"
proof -
  have new: "a \<notin> fst ` set (bg_peers w)" using assms(4) by auto
  have upd: "AList.update a r xs = xs @ [(a, r)]" if "a \<notin> fst ` set xs" for r and xs :: "(string \<times> peer_runtime) list"
    using that by (induction xs) auto
  from assms(2) have w': "w' = w\<lparr>bg_next_task := Suc (bg_next_task w), bg_peers := bg_peers w @ [(a, fst (spawn_peer_task cfg w))]\<rparr>"
    using upd [OF new] by (simp add: reset_insert_def spawn_peer_task_def)
  then show "bg_peers w' = bg_peers w @ [(a, fst (spawn_peer_task cfg w))]" by simp
  have old: "pr_task s < bg_next_task w" if "(b, s) \<in> set (bg_peers w)" for b s
    using assms(1) that by (auto simp: peers_ok_def runtime_ok_def)
  then have fresh: "bg_next_task w \<notin> (pr_task \<circ> snd) ` set (bg_peers w)" "bg_next_task w \<notin> set (bg_aborted w)"
    using assms(1) by (auto simp: peers_ok_def) fastforce
  have "runtime_ok w' a (fst (spawn_peer_task cfg w))"
    using assms(3) fresh(2)
    by (simp add: w' runtime_ok_def spawn_peer_task_def fresh_info_def info_of_config_def local_as_of_def)
  moreover have "runtime_ok w' b s" if "(b, s) \<in> set (bg_peers w)" for b s
    using assms(1) that by (auto simp: w' peers_ok_def runtime_ok_def)
  ultimately show "peers_ok w'"
    using assms(1) new fresh(1) by (auto simp: w' peers_ok_def spawn_peer_task_def)
qed

inductive_cases peers_stepE: "peers_step st st'"

lemma peers_ok_events [simp]: "peers_ok (w\<lparr>bg_events := es\<rparr>) = peers_ok w"
  by (simp add: peers_ok_def runtime_ok_def)

lemma history_events [simp]:
  "known (w\<lparr>bg_events := es\<rparr>, ps) = known (w, ps)" "history_ok (w\<lparr>bg_events := es\<rparr>, ps) = history_ok (w, ps)"
  by (simp_all add: known_def history_ok_def configs_def)

text \<open>Entries that are rewritten in place keep the history and the configurations.\<close>

lemma history_map_entry:
  assumes "history_ok (w, ps)" "\<And>r. pr_cfg (f r) = pr_cfg r \<and> pr_task (f r) = pr_task r"
    and "\<And>r. info_of_config (pr_cfg r) (bg_global_asn w) (pr_info r) \<Longrightarrow>
      info_of_config (pr_cfg r) (bg_global_asn w) (pr_info (f r))"
  shows "history_ok (w\<lparr>bg_peers := AList.map_entry a f (bg_peers w)\<rparr>, ps) \<and>
    known (w\<lparr>bg_peers := AList.map_entry a f (bg_peers w)\<rparr>, ps) = known (w, ps)"
proof -
  note ok = peers_ok_map_entry [of w f a, OF history_okD(1) [OF assms(1)] assms(2,3)]
  have "(b, r) \<notin> set (AList.map_entry a f (bg_peers w))" if "(b, c) \<in> set ps" for b c r
    using history_okD(4) [OF assms(1) that] map_entry_facts(3) by metis
  moreover have "known (w\<lparr>bg_peers := AList.map_entry a f (bg_peers w)\<rparr>, ps) = known (w, ps)"
    using arg_cong [OF ok(2), of set] by (simp add: known_def configs_def)
  ultimately show ?thesis using assms(1) ok(1) by (simp add: history_ok_def)
qed

lemma set_peer_state_history:
  assumes "history_ok (w, ps)" "set_peer_state a s e t w = (Done (), w')"
  shows "history_ok (w', ps) \<and> known (w', ps) = known (w, ps)"
proof (cases "map_of (bg_peers w) a")
  case None
  with assms show ?thesis by (simp add: set_peer_state_def)
next
  case (Some r)
  let ?f = "\<lambda>r. r\<lparr>pr_info := state_info s e t (pr_info r)\<rparr>"
  have "w' = (w\<lparr>bg_peers := AList.map_entry a ?f (bg_peers w)\<rparr>)\<lparr>bg_events := bg_events w @ [envelope_new (PeerStateEvent a s)]\<rparr>"
    using assms(2) Some by (simp add: set_peer_state_def)
  moreover have "history_ok (w\<lparr>bg_peers := AList.map_entry a ?f (bg_peers w)\<rparr>, ps) \<and>
      known (w\<lparr>bg_peers := AList.map_entry a ?f (bg_peers w)\<rparr>, ps) = known (w, ps)"
    by (rule history_map_entry [OF assms(1)]) (simp_all add: info_of_config_def state_info_def)
  ultimately show ?thesis by (simp only: history_events)
qed

lemma removed_history:
  assumes "history_ok (w, ps)" "reset_remove a w = (Done cfg, w')"
  shows "history_ok (w', (a, cfg) # ps) \<and> known (w', (a, cfg) # ps) = known (w, ps)"
proof -
  note r = reset_remove_ok [OF history_okD(1) [OF assms(1)] assms(2)]
  have "(a, c) \<notin> set ps" for c using r(6) history_okD(4) [OF assms(1)] by blast
  then have "a \<notin> fst ` set ps" by auto
  moreover have "known (w', (a, cfg) # ps) = known (w, ps)" using r(5) by (auto simp: known_def)
  moreover have "pc_address c = b \<and> (\<forall>r. (b, r) \<notin> set (bg_peers w'))" if "(b, c) \<in> set ((a, cfg) # ps)" for b c
  proof (cases "(b, c) \<in> set ps")
    case True
    with history_okD(3,4) [OF assms(1) True] r(4) show ?thesis by blast
  next
    case False
    with that have "b = a" "c = cfg" by simp_all
    with r(2,3) show ?thesis by simp
  qed
  moreover have "distinct (map fst ((a, cfg) # ps))" using calculation(1) history_okD(2) [OF assms(1)] by simp
  ultimately show ?thesis using r(1) unfolding history_ok_def fst_conv snd_conv by blast
qed

lemma put_back_history:
  assumes "history_ok (w, ps)" "(a, cfg) \<in> set ps" "reset_insert a cfg w = (Done (), w')"
  shows "history_ok (w', remove1 (a, cfg) ps) \<and> known (w', remove1 (a, cfg) ps) = known (w, ps)"
proof -
  note ok = history_okD [OF assms(1)]
  note r = reset_insert_ok [OF ok(1) assms(3) ok(3,4) [OF assms(2)]]
  have set_ps: "set (remove1 (a, cfg) ps) = set ps - {(a, cfg)}" using ok(2) by (simp add: distinct_map)
  have dist: "distinct (map fst (remove1 (a, cfg) ps))"
    using ok(2) by (metis distinct_map distinct_remove1 inj_on_subset set_remove1_subset)
  have only: "b \<noteq> a" if "(b, c) \<in> set (remove1 (a, cfg) ps)" for b c
    using that assms(2) ok(2) unfolding set_ps by (metis DiffE map_of_is_SomeI option.inject singletonI)
  have "configs w' = insert (a, cfg) (configs w)" using r(2) by (simp add: configs_def spawn_peer_task_def)
  then have "known (w', remove1 (a, cfg) ps) = known (w, ps)" using assms(2) by (auto simp: known_def set_ps)
  moreover have "pc_address c = b \<and> (\<forall>r. (b, r) \<notin> set (bg_peers w'))" if "(b, c) \<in> set (remove1 (a, cfg) ps)" for b c
    using that only [OF that] ok(3,4) [of b c] r(2) by (simp add: set_ps)
  ultimately show ?thesis using r(1) dist unfolding history_ok_def fst_conv snd_conv by blast
qed

lemma peers_step_history:
  assumes "peers_step st st'" "history_ok st"
  shows "history_ok st' \<and> known st' = known st"
  using assms
proof (induction rule: peers_step.induct)
  case (state_set a s e t w w' ps)
  then show ?case by (intro set_peer_state_history)
next
  case (advertised w ps a n)
  then show ?case by (intro history_map_entry) (simp_all add: info_of_config_def)
next
  case (removed a w cfg w' ps)
  then show ?case by (intro removed_history)
next
  case (not_found a w e w' ps)
  then have "w' = w" by (auto simp: reset_remove_def split: option.splits)
  with not_found show ?case by simp
next
  case (put_back a cfg ps w w')
  then show ?case by (intro put_back_history)
qed

lemma peers_steps_history:
  assumes "peers_step\<^sup>*\<^sup>* st st'" "history_ok st"
  shows "history_ok st' \<and> known st' = known st"
  using assms by (induction rule: rtranclp_induct) (auto dest: peers_step_history)

text \<open>
  C12: no interleaving of sessions and resets harms the table. In every state that is reached by
  locked sections of sessions and of any number of concurrent resets, the table has one entry
  per address, the entry's fixed fields are those of its configuration, its task is its own and
  has not been aborted; and every peer is in the table or is being put back by a reset, but not
  both, with the configuration it had at the start.
\<close>

theorem resets_keep_peers:
  assumes "peers_step\<^sup>*\<^sup>* (w, []) (w', ps)" "peers_ok w"
  shows "peers_ok w' \<and> configs w' \<union> set ps = configs w \<and>
    (\<forall>a cfg c. (a, cfg) \<in> configs w' \<longrightarrow> (a, c) \<notin> set ps)"
proof -
  have "history_ok (w, [])" using assms(2) by (simp add: history_ok_def)
  from peers_steps_history [OF assms(1) this] have h: "history_ok (w', ps)" "known (w', ps) = known (w, [])" by simp_all
  have "(a, c) \<notin> set ps" if "(a, cfg) \<in> configs w'" for a cfg c
    using that history_okD(4) [OF h(1), of a c] by (auto simp: configs_def)
  with h history_okD(1) [OF h(1)] show ?thesis by (simp add: known_def)
qed

section \<open>Starting the peers\<close>

lemma update_set:
  "set (AList.update k v xs) \<subseteq> insert (k, v) (set xs)" "fst ` set (AList.update k v xs) = insert k (fst ` set xs)"
  by (induction xs) auto

lemma update_tasks:
  assumes "distinct (map fst xs)" "distinct (map (pr_task \<circ> snd) xs)" "pr_task v \<notin> (pr_task \<circ> snd) ` set xs"
  shows "distinct (map (pr_task \<circ> snd) (AList.update k v xs))"
  using assms
proof (induction xs)
  case (Cons x xs)
  have "pr_task (snd x) \<notin> (pr_task \<circ> snd) ` set (AList.update k v xs)"
    using Cons.prems update_set(1) [of k v xs] by auto
  with Cons show ?case by (cases x) auto
qed simp

lemma collect_res_total: "(\<exists>ys. collect_res f xs = Inr ys) \<longleftrightarrow> (\<forall>x \<in> set xs. \<exists>y. f x = Inr y)"
  by (induction xs) (auto simp: bind_res_Inr)

lemma start_peer_ok:
  assumes "peers_ok w" "spawn_peer_task peer w = (r, w1)"
  shows "peers_ok (w1\<lparr>bg_peers := AList.update (pc_address peer) r (bg_peers w1)\<rparr>)"
proof -
  let ?xs = "AList.update (pc_address peer) r (bg_peers w)"
  have w1: "w1 = w\<lparr>bg_next_task := Suc (bg_next_task w)\<rparr>" and r: "pr_task r = bg_next_task w" "pr_cfg r = peer"
    "pr_info r = fresh_info peer (local_as_of w peer)" using assms(2) by (auto simp: spawn_peer_task_def)
  have old: "pr_task s < bg_next_task w" if "(b, s) \<in> set (bg_peers w)" for b s
    using assms(1) that by (auto simp: peers_ok_def runtime_ok_def)
  then have fresh: "pr_task r \<notin> (pr_task \<circ> snd) ` set (bg_peers w)" using r(1) by fastforce
  have aborted: "bg_next_task w \<notin> set (bg_aborted w)" using assms(1) by (auto simp: peers_ok_def)
  have "runtime_ok (w1\<lparr>bg_peers := ?xs\<rparr>) b s" if in_xs: "(b, s) \<in> set ?xs" for b s
  proof -
    consider "b = pc_address peer" "s = r" | "(b, s) \<in> set (bg_peers w)"
      using in_xs update_set(1) [of "pc_address peer" r "bg_peers w"] by auto
    then show ?thesis
    proof cases
      case 1
      with r aborted show ?thesis by (simp add: w1 runtime_ok_def info_of_config_def fresh_info_def local_as_of_def)
    next
      case 2
      with assms(1) show ?thesis by (auto simp: w1 peers_ok_def runtime_ok_def)
    qed
  qed
  moreover have "distinct (map fst ?xs)" using assms(1) by (simp add: peers_ok_def distinct_update)
  moreover have "distinct (map (pr_task \<circ> snd) ?xs)" using assms(1) fresh by (intro update_tasks) (simp_all add: peers_ok_def)
  ultimately show ?thesis using assms(1) by (auto simp: w1 peers_ok_def)
qed

lemma start_peers_ok:
  assumes "peers_ok w"
  shows "peers_ok (start_peers ps w) \<and>
    fst ` set (bg_peers (start_peers ps w)) = fst ` set (bg_peers w) \<union> pc_address ` {p \<in> set ps. pc_enabled p} \<and>
    bg_next_task (start_peers ps w) = bg_next_task w + length (filter pc_enabled ps) \<and>
    bg_aborted (start_peers ps w) = bg_aborted w \<and> bg_prefixes (start_peers ps w) = bg_prefixes w"
  using assms
proof (induction ps arbitrary: w)
  case (Cons p ps)
  define w1 where "w1 = w\<lparr>bg_next_task := Suc (bg_next_task w)\<rparr>"
  define w2 where "w2 = w1\<lparr>bg_peers := AList.update (pc_address p) (fst (spawn_peer_task p w)) (bg_peers w)\<rparr>"
  have spawn: "spawn_peer_task p w = (fst (spawn_peer_task p w), w1)" by (simp add: spawn_peer_task_def w1_def)
  have ok2: "peers_ok w2"
    using start_peer_ok [of w p "fst (spawn_peer_task p w)" w1] Cons.prems spawn by (simp add: w2_def w1_def)
  have w2: "fst ` set (bg_peers w2) = insert (pc_address p) (fst ` set (bg_peers w))" "bg_next_task w2 = Suc (bg_next_task w)"
    "bg_aborted w2 = bg_aborted w" "bg_prefixes w2 = bg_prefixes w"
    by (simp_all add: w2_def w1_def update_set(2))
  show ?case
  proof (cases "pc_enabled p")
    case True
    then have "start_peers (p # ps) w = start_peers ps w2" by (simp add: spawn_peer_task_def w1_def w2_def)
    with Cons.IH [OF ok2] w2 True show ?thesis by auto
  next
    case False
    then have "start_peers (p # ps) w = start_peers ps w" by simp
    with Cons.IH [OF Cons.prems] False show ?thesis by auto
  qed
qed simp

text \<open>
  the BGP part starts on a validated configuration exactly when every configured next hop
  is an IP address, which validation does not look at. Then the table has an entry for the
  address of each enabled peer and no other, its invariant holds, and one task per enabled peer
  runs.
\<close>

theorem bgp_new_starts:
  assumes "focl_validate (kx_net_parse K) cfg = Inr ()" "bg_aborted w = []"
  shows "((\<exists>w'. bgp_new K cfg w = Inr w') \<longleftrightarrow>
      (\<forall>p \<in> set (fc_prefixes cfg). \<forall>nh. px_next_hop p = Some nh \<longrightarrow> parse_ip nh \<noteq> None)) \<and>
    (\<forall>w'. bgp_new K cfg w = Inr w' \<longrightarrow>
      peers_ok w' \<and> fst ` set (bg_peers w') = pc_address ` {p \<in> set (fc_peers cfg). pc_enabled p} \<and>
      bg_next_task w' = bg_next_task w + length (filter pc_enabled (fc_peers cfg)) \<and>
      length (bg_prefixes w') = length (fc_prefixes cfg))"
proof -
  obtain rid where rid: "parse_ipv4 (gc_router_id (fc_global cfg)) = Some rid"
    using assms(1) by (auto simp: focl_validate_def)
  have nets: "\<exists>n. kx_net_parse K (px_network p) = Inr n" if "p \<in> set (fc_prefixes cfg)" for p
    using assms(1) that by (auto simp: focl_validate_def bind_res_Inr check_all_Inr)
  have entry: "(\<exists>e. prefix_entry_of K p = Inr e) \<longleftrightarrow> (\<forall>nh. px_next_hop p = Some nh \<longrightarrow> parse_ip nh \<noteq> None)"
    if "p \<in> set (fc_prefixes cfg)" for p
    using nets [OF that] by (auto simp: prefix_entry_of_def bind_res_Inr split: option.splits)
  have all: "(\<exists>es. collect_res (prefix_entry_of K) (fc_prefixes cfg) = Inr es) \<longleftrightarrow>
      (\<forall>p \<in> set (fc_prefixes cfg). \<exists>e. prefix_entry_of K p = Inr e)"
    by (rule collect_res_total)
  let ?w = "\<lambda>es. w\<lparr>bg_global_asn := gc_asn (fc_global cfg), bg_router_id := rid, bg_prefixes := es, bg_peers := []\<rparr>"
  have new: "bgp_new K cfg w = Inr w' \<longleftrightarrow>
      (\<exists>es. collect_res (prefix_entry_of K) (fc_prefixes cfg) = Inr es \<and> w' = start_peers (fc_peers cfg) (?w es))" for w'
    using rid by (auto simp: bgp_new_def bind_res_Inr)
  have empty: "peers_ok (?w es)" for es using assms(2) by (simp add: peers_ok_def)
  have len: "length es = length (fc_prefixes cfg)" if "collect_res (prefix_entry_of K) (fc_prefixes cfg) = Inr es" for es
    using that by (simp add: collect_res_Inr list_all2_lengthD)
  have "(\<exists>w'. bgp_new K cfg w = Inr w') \<longleftrightarrow> (\<forall>p \<in> set (fc_prefixes cfg). \<exists>e. prefix_entry_of K p = Inr e)"
    unfolding new all [symmetric] by blast
  also have "\<dots> \<longleftrightarrow> (\<forall>p \<in> set (fc_prefixes cfg). \<forall>nh. px_next_hop p = Some nh \<longrightarrow> parse_ip nh \<noteq> None)"
    using entry by (rule ball_cong [OF HOL.refl])
  finally have "(\<exists>w'. bgp_new K cfg w = Inr w') \<longleftrightarrow>
      (\<forall>p \<in> set (fc_prefixes cfg). \<forall>nh. px_next_hop p = Some nh \<longrightarrow> parse_ip nh \<noteq> None)" .
  moreover have "peers_ok w' \<and> fst ` set (bg_peers w') = pc_address ` {p \<in> set (fc_peers cfg). pc_enabled p} \<and>
      bg_next_task w' = bg_next_task w + length (filter pc_enabled (fc_peers cfg)) \<and>
      length (bg_prefixes w') = length (fc_prefixes cfg)" if run: "bgp_new K cfg w = Inr w'" for w'
  proof -
    from run obtain es where es: "collect_res (prefix_entry_of K) (fc_prefixes cfg) = Inr es"
      "w' = start_peers (fc_peers cfg) (?w es)" unfolding new by blast
    show ?thesis using start_peers_ok [OF empty [of es], of "fc_peers cfg"] len [OF es(1)] es(2) by simp
  qed
  ultimately show ?thesis by blast
qed

text \<open>
  a repeated address leaves a task that nobody can stop. When two enabled peers have the
  same address, which validation accepts, the later entry replaces the earlier one in the
  table: more tasks are running than the table has entries, and none has been aborted. A reset
  aborts the task of the entry only.
\<close>

theorem duplicate_address_orphans_task:
  assumes "peers_ok w" "bg_peers w = []" "\<not> distinct (map pc_address (filter pc_enabled ps))"
  shows "length (bg_peers (start_peers ps w)) < bg_next_task (start_peers ps w) - bg_next_task w \<and>
    bg_aborted (start_peers ps w) = bg_aborted w"
proof -
  let ?as = "map pc_address (filter pc_enabled ps)" and ?w = "start_peers ps w"
  note ok = start_peers_ok [OF assms(1), of ps]
  then have "distinct (map fst (bg_peers ?w))" by (simp add: peers_ok_def)
  then have "length (bg_peers ?w) = card (fst ` set (bg_peers ?w))" by (metis distinct_card length_map set_map)
  also have "fst ` set (bg_peers ?w) = set ?as" using ok assms(2) by auto
  also have "card (set ?as) < length ?as"
    using assms(3) by (meson card_distinct card_length le_neq_implies_less)
  finally show ?thesis using ok by simp
qed

section \<open>Peers with an IPv6 address\<close>

lemma bare_ipv6_fails:
  assumes "parse_ipv6 (pc_address peer) = Some a"
  shows "\<exists>e. run_active_session n K peer w = (Failed e, w)"
proof -
  have "parse_socket (peer_socket_text peer) = None"
    using parse_socket_bare_ipv6 [OF assms] by (simp add: peer_socket_text_def)
  then show ?thesis by (simp add: run_active_session_def await_def)
qed

text \<open>
  C36: an active peer whose address is an IPv6 address never gets a connection. The text of
  address and port is no socket address without brackets around the address, so every turn of
  the loop fails before any call into the network: the states reported are \<open>Connect\<close> and
  \<open>Active\<close> by turns, for ever, and nothing is sent.
\<close>

theorem bare_ipv6_never_connects:
  assumes "parse_ipv6 (pc_address peer) = Some a" "\<not> pc_passive peer" "state_of (pc_address peer) w \<noteq> None"
  shows "\<exists>w'. peer_loop k n K peer w = (Waits, w') \<and>
    bg_events w' = bg_events w @ state_events (pc_address peer) (concat (replicate k [Connect, Active])) \<and>
    nt_step w' = nt_step w \<and> nt_outbox w' = nt_outbox w"
  using assms(3)
proof (induction k arbitrary: w)
  case 0
  then show ?case by (simp add: state_events_def)
next
  case (Suc k)
  let ?a = "pc_address peer"
  obtain w1 where 1: "set_peer_state ?a Connect None None w = (Done (), w1)" "reported ?a [Connect] w w1"
    using set_peer_state_reported [OF Suc.prems, of Connect None None] by (metis surj_pair)
  then have some1: "state_of ?a w1 \<noteq> None" by (simp add: reported_def)
  obtain e where e: "run_active_session n K peer w1 = (Failed e, w1)" using bare_ipv6_fails [OF assms(1)] by blast
  obtain w2 where 2: "set_peer_state ?a Active (Some (err_to_string e)) None w1 = (Done (), w2)" "reported ?a [Active] w1 w2"
    using set_peer_state_reported [OF some1, of Active "Some (err_to_string e)" None] by (metis surj_pair)
  define w3 where "w3 = w2\<lparr>nt_time := nt_time w2 + unat (pc_connect_retry_secs peer) * second\<rparr>"
  have turn: "peer_loop (Suc k) n K peer w = peer_loop k n K peer w3"
    using 1(1) e 2(1) assms(2) by (simp add: peer_turn_def await_def retry_sleep_def w3_def)
  have "nt_step w1 = nt_step w" "nt_outbox w1 = nt_outbox w" "nt_step w2 = nt_step w1" "nt_outbox w2 = nt_outbox w1"
    using 1(1) 2(1) by (auto simp: set_peer_state_def split: if_splits)
  then have net: "nt_step w3 = nt_step w" "nt_outbox w3 = nt_outbox w" by (simp_all add: w3_def)
  have ev: "bg_events w3 = bg_events w @ state_events ?a [Connect, Active]" "state_of ?a w3 \<noteq> None"
    using reported_trans [OF 1(2) 2(2)] by (auto simp: w3_def reported_def state_of_def peer_show_def)
  obtain w' where "peer_loop k n K peer w3 = (Waits, w')"
    "bg_events w' = bg_events w3 @ state_events ?a (concat (replicate k [Connect, Active]))"
    "nt_step w' = nt_step w3" "nt_outbox w' = nt_outbox w3" using Suc.IH [OF ev(2)] by blast
  with turn net ev(1) show ?case by (simp add: state_events_def)
qed

section \<open>Witnesses\<close>

lemma demo_peers_ok: "peers_ok (demo_bgp bs)"
  by (simp add: peers_ok_def runtime_ok_def demo_runtime_def info_of_config_def fresh_info_def demo_peer_def)

theorem resets_keep_peers_witness:
  "\<exists>w'. peers_step\<^sup>*\<^sup>* (demo_bgp [], []) (w', [(pc_address demo_peer, demo_peer)]) \<and>
     peers_ok w' \<and> configs w' \<union> {(pc_address demo_peer, demo_peer)} = configs (demo_bgp [])"
proof -
  obtain w' where "reset_remove (pc_address demo_peer) (demo_bgp []) = (Done demo_peer, w')"
    by (simp add: reset_remove_def demo_runtime_def)
  then have steps: "peers_step\<^sup>*\<^sup>* (demo_bgp [], []) (w', [(pc_address demo_peer, demo_peer)])"
    by (blast intro: peers_step.removed)
  from resets_keep_peers [OF steps demo_peers_ok] steps show ?thesis by auto
qed

lemma demo_config_valid: "focl_validate (kx_net_parse demo_bgp_lib) demo_config = Inr ()"
proof -
  have ips: "parse_ipv4 ''192.0.2.7'' \<noteq> None" "parse_ip ''192.0.2.9'' \<noteq> None" by code_simp+
  then have "peer_validate demo_peer = Inr ()" by (simp add: peer_validate_iff peer_ok_def demo_peer_def)
  then show ?thesis
    using ips demo_archive_ok archive_validate_ok_iff [of "default_archive\<lparr>ac_enabled := True\<rparr>"]
    by (auto simp: focl_validate_def demo_config_def)
qed

theorem bgp_new_starts_witness:
  "\<exists>w'. bgp_new demo_bgp_lib demo_config (demo_bgp []) = Inr w' \<and> peers_ok w' \<and>
     fst ` set (bg_peers w') = {pc_address demo_peer}"
proof -
  have "(\<exists>w'. bgp_new demo_bgp_lib demo_config (demo_bgp []) = Inr w') \<and>
      (\<forall>w'. bgp_new demo_bgp_lib demo_config (demo_bgp []) = Inr w' \<longrightarrow> peers_ok w' \<and>
        fst ` set (bg_peers w') = pc_address ` {p \<in> set (fc_peers demo_config). pc_enabled p})"
    using bgp_new_starts [OF demo_config_valid, of "demo_bgp []"] by (simp add: demo_config_def)
  moreover have "{p \<in> set (fc_peers demo_config). pc_enabled p} = {demo_peer}" by (auto simp: demo_config_def demo_peer_def)
  ultimately show ?thesis by auto
qed

theorem duplicate_address_orphans_task_witness:
  "length (bg_peers (start_peers [demo_peer, demo_peer] (demo_bgp []\<lparr>bg_peers := []\<rparr>))) <
     bg_next_task (start_peers [demo_peer, demo_peer] (demo_bgp []\<lparr>bg_peers := []\<rparr>)) - 1"
proof -
  have "peers_ok (demo_bgp []\<lparr>bg_peers := []\<rparr>)" by (simp add: peers_ok_def)
  moreover have "\<not> distinct (map pc_address (filter pc_enabled [demo_peer, demo_peer]))" by (simp add: demo_peer_def)
  ultimately show ?thesis
    using duplicate_address_orphans_task [of "demo_bgp []\<lparr>bg_peers := []\<rparr>" "[demo_peer, demo_peer]"] by simp
qed

definition demo_v6_peer :: peer_config where
  "demo_v6_peer = demo_peer\<lparr>pc_address := ''2001:db8::1''\<rparr>"

definition demo_v6_bgp :: bgp where
  "demo_v6_bgp = demo_bgp []\<lparr>bg_peers := [(''2001:db8::1'', demo_runtime\<lparr>pr_cfg := demo_v6_peer\<rparr>)]\<rparr>"

lemmas read_groups_down =
  read_groups.simps(2) [of 7, simplified] read_groups.simps(2) [of 6, simplified]
  read_groups.simps(2) [of 5, simplified] read_groups.simps(2) [of 4, simplified]
  read_groups.simps(2) [of 3, simplified]

lemma demo_v6_address: "parse_ipv6 ''2001:db8::1'' \<noteq> None"
  by (simp add: parse_ipv6_def parse_with_def read_ipv6_addr_def read_groups_down read_separator_def
      read_number_def to_digit_def digits_value_def read_ipv4_addr_def Let_def)

theorem bare_ipv6_never_connects_witness:
  "\<exists>w'. peer_loop 2 5 demo_bgp_lib demo_v6_peer demo_v6_bgp = (Waits, w') \<and>
     bg_events w' = state_events ''2001:db8::1'' [Connect, Active, Connect, Active] \<and> nt_outbox w' = []"
proof -
  obtain a where "parse_ipv6 (pc_address demo_v6_peer) = Some a"
    using demo_v6_address by (auto simp: demo_v6_peer_def)
  moreover have "\<not> pc_passive demo_v6_peer" "state_of (pc_address demo_v6_peer) demo_v6_bgp \<noteq> None"
    by (simp_all add: demo_v6_peer_def demo_peer_def demo_v6_bgp_def state_of_def peer_show_def)
  ultimately have "\<exists>w'. peer_loop 2 5 demo_bgp_lib demo_v6_peer demo_v6_bgp = (Waits, w') \<and>
    bg_events w' = bg_events demo_v6_bgp @ state_events (pc_address demo_v6_peer) (concat (replicate 2 [Connect, Active])) \<and>
    nt_step w' = nt_step demo_v6_bgp \<and> nt_outbox w' = nt_outbox demo_v6_bgp"
    by (rule bare_ipv6_never_connects)
  moreover have "concat (replicate 2 [Connect, Active]) = [Connect, Active, Connect, Active]" by code_simp
  moreover have "bg_events demo_v6_bgp = []" "nt_outbox demo_v6_bgp = []" "pc_address demo_v6_peer = ''2001:db8::1''"
    by (simp_all add: demo_v6_bgp_def demo_v6_peer_def)
  ultimately show ?thesis by (metis append_Nil)
qed

end
