(* ===== verification/Daemon.thy ===== *)
theory Daemon
  imports Control Archive Bgp_Peers
begin

text \<open>
  \<^verbatim>\<open>src/bin/focld.rs\<close>: the daemon. \<open>shared\<close> is what its tasks share: the archive service and
  the store it works on, the BGP part, and how often a shutdown has been signalled. A control
  connection is served by its own task, whose state is the record \<open>client\<close>: the text the
  client has still to send, whether it closes its side after that, the text sent to it, what
  the receiver of the events yields after a subscription, and the other tasks, of which
  \<open>cn_others\<close> says what they do to the shared state while this one waits for the connection.
  Calls on the connection are numbered; any of them can fail or never return.
\<close>

record shared =
  sh_service :: archive_service
  sh_store :: store
  sh_bgp :: bgp
  sh_shutdown :: nat

datatype recv = Received event_envelope | Lagged | Closed

record client =
  cn_shared :: shared
  cn_in :: string
  cn_closed :: bool
  cn_out :: string
  cn_events :: "recv list"
  cn_others :: "nat \<Rightarrow> shared \<Rightarrow> shared"
  cn_fault :: "nat \<Rightarrow> string option"
  cn_stall :: "nat \<Rightarrow> bool"
  cn_part :: "nat \<Rightarrow> nat"
  cn_step :: nat

record ('h, 'm, 's, 'a, 'at, 'n) daemon_ext =
  dx_archive :: "('h, 'm, 's, 'a) archive_ext"
  dx_bgp :: "('at, 'n) bgp_lib"
  dx_serde :: serde_lib
  dx_read_config :: "path \<Rightarrow> string result"
  dx_from_toml :: "string \<Rightarrow> focl_config result"

section \<open>The connection\<close>

definition conn_io :: "(client, unit) task" where
  "conn_io w =
     (if cn_stall w (cn_step w) then (Waits, w)
      else
        let w' = w\<lparr>cn_step := Suc (cn_step w), cn_shared := cn_others w (cn_step w) (cn_shared w)\<rparr>
        in case cn_fault w (cn_step w) of Some m \<Rightarrow> (Failed (Msg m), w') | None \<Rightarrow> (Done (), w'))"

text \<open>\<^verbatim>\<open>read_line\<close>: up to the next newline and with it, or what is left when the client has closed.\<close>

definition first_line :: "string \<Rightarrow> string" where
  "first_line s = takeWhile (\<lambda>c. c \<noteq> newline) s @ (if newline \<in> set s then [newline] else [])"

definition read_line :: "(client, string) task" where
  "read_line =
     await conn_io (\<lambda>_ w.
       let line = first_line (cn_in w); w' = w\<lparr>cn_in := drop (length line) (cn_in w)\<rparr>
       in if newline \<notin> set (cn_in w) \<and> \<not> cn_closed w then (Waits, w)
          else if \<not> valid_utf8 (map of_char line)
          then (Failed (Msg ''stream did not contain valid UTF-8''), w')
          else (Done line, w'))"

definition send_text :: "string \<Rightarrow> (client, unit) task" where
  "send_text s w =
     (case conn_io w of
        (Done _, w') \<Rightarrow> (Done (), w'\<lparr>cn_out := cn_out w @ s\<rparr>)
      | (r, w') \<Rightarrow> (r, w'\<lparr>cn_out := cn_out w @ take (cn_part w (cn_step w)) s\<rparr>))"

definition write_response :: "'y serde_lib_scheme \<Rightarrow> control_response \<Rightarrow> (client, unit) task" where
  "write_response S response =
     await (of_result (sx_show_response S response)) (\<lambda>payload.
     await (send_text payload) (\<lambda>_. send_text [newline]))"

section \<open>The services behind a request\<close>

definition on_archive :: "(unit service_state, 'r) io \<Rightarrow> (client, 'r) task" where
  "on_archive m w =
     (case m (sh_service (cn_shared w), sh_store (cn_shared w)) of
        (r, (s, st)) \<Rightarrow>
          ((case r of Inl e \<Rightarrow> Failed e | Inr a \<Rightarrow> Done a),
           w\<lparr>cn_shared := (cn_shared w)\<lparr>sh_service := s, sh_store := st\<rparr>\<rparr>))"

definition on_bgp :: "(bgp, 'r) task \<Rightarrow> (client, 'r) task" where
  "on_bgp m w =
     (case m (sh_bgp (cn_shared w)) of
        (r, b) \<Rightarrow> (r, w\<lparr>cn_shared := (cn_shared w)\<lparr>sh_bgp := b\<rparr>\<rparr>))"

definition send_shutdown :: "(client, unit) task" where
  "send_shutdown =
     change (\<lambda>w. w\<lparr>cn_shared := (cn_shared w)\<lparr>sh_shutdown := Suc (sh_shutdown (cn_shared w))\<rparr>\<rparr>)"

text \<open>An error of a service as a response, where the handler matches on the result.\<close>

definition or_reply :: "string \<Rightarrow> string \<Rightarrow> (client, 'r) task \<Rightarrow> ('r \<Rightarrow> control_response) \<Rightarrow> (client, control_response) task" where
  "or_reply rid code m f w =
     (case m w of
        (Done a, w') \<Rightarrow> (Done (f a), w')
      | (Failed e, w') \<Rightarrow> (Done (response_err rid code (err_to_string e)), w')
      | (Waits, w') \<Rightarrow> (Waits, w'))"

section \<open>Results as JSON\<close>

definition state_name :: "peer_state \<Rightarrow> string" where
  "state_name s =
     (case s of Idle \<Rightarrow> ''idle'' | Connect \<Rightarrow> ''connect'' | Active \<Rightarrow> ''active'' | OpenSent \<Rightarrow> ''open_sent''
      | OpenConfirm \<Rightarrow> ''open_confirm'' | Established \<Rightarrow> ''established'')"

definition peer_info_value :: "peer_info \<Rightarrow> json" where
  "peer_info_value p =
     JObj [(''address'', JStr (pi_address p)), (''name'', opt_str (pi_name p)),
           (''remote_as'', word_num (pi_remote_as p)), (''local_as'', word_num (pi_local_as p)),
           (''remote_port'', word_num (pi_remote_port p)), (''passive'', JBool (pi_passive p)),
           (''auth_enabled'', JBool (pi_auth_enabled p)), (''state'', JStr (state_name (pi_state p))),
           (''last_error'', opt_str (pi_last_error p)),
           (''advertised_prefixes'', word_num (pi_advertised_prefixes p)),
           (''established_at'', (case pi_established_at p of None \<Rightarrow> JNull | Some t \<Rightarrow> JNum t))]"

definition rib_summary_value :: "rib_summary \<Rightarrow> json" where
  "rib_summary_value s =
     JObj [(''peers_total'', word_num (ri_peers_total s)), (''peers_established'', word_num (ri_peers_established s)),
           (''advertised_prefixes_total'', word_num (ri_advertised_prefixes_total s))]"

definition status_result :: "archive_status \<Rightarrow> archive_status_result" where
  "status_result s =
     \<lparr>sr_enabled = as_enabled s, sr_collector_id = as_collector_id s,
      sr_updates_interval_secs = as_updates_interval_secs s, sr_ribs_interval_secs = as_ribs_interval_secs s,
      sr_updates_open_path = as_updates_open_path s, sr_updates_record_count = as_updates_record_count s,
      sr_ribs_last_path = as_ribs_last_path s, sr_ribs_last_record_count = as_ribs_last_record_count s,
      sr_queued_replication_jobs = as_queued_replication_jobs s,
      sr_replication_failures = as_replication_failures s\<rparr>"

definition prefixes_value :: "string \<Rightarrow> string list \<Rightarrow> json" where
  "prefixes_value peer nets = JObj [(''peer'', JStr peer), (''prefixes'', JArr (map JStr nets))]"

section \<open>Requests\<close>

definition invalid_args :: "control_request \<Rightarrow> error \<Rightarrow> control_response" where
  "invalid_args req err =
     response_err (req_id req) ''invalid_args'' (req_cmd req @ '' args error: '' @ err_to_string err)"

definition with_peer_key ::
  "'y serde_lib_scheme \<Rightarrow> control_request \<Rightarrow> (string \<Rightarrow> (client, control_response) task) \<Rightarrow>
   (client, control_response) task" where
  "with_peer_key S req f =
     (case sx_peer_key S (req_args req) of
        Inl err \<Rightarrow> done_with (invalid_args req err)
      | Inr args \<Rightarrow> f (pk_peer args))"

definition manual_snapshot :: "int \<Rightarrow> rib_snapshot_input" where
  "manual_snapshot now =
     \<lparr>rs_timestamp = now, rs_collector_bgp_id = unspecified, rs_view_name = ''main'', rs_peers = [], rs_routes = []\<rparr>"

definition respond ::
  "('h, 'm, 's, 'a, 'at, 'n, 'y) daemon_ext_scheme \<Rightarrow> control_request \<Rightarrow> (client, control_response) task" where
  "respond X req =
     (let ok = response_ok (req_id req) in
      case from_request req of
        Ping \<Rightarrow> done_with (ok (JObj [(''pong'', JBool True)]))
      | DaemonStatus \<Rightarrow>
          await (on_archive archive_status_op) (\<lambda>status.
          await (on_bgp (asks (rib_summary_of (dx_bgp X)))) (\<lambda>rib.
            done_with (ok (JObj [(''daemon'', JStr ''focld''), (''archive_enabled'', JBool (as_enabled status)),
              (''queued_replication_jobs'', word_num (as_queued_replication_jobs status)),
              (''peers_total'', word_num (ri_peers_total rib)),
              (''peers_established'', word_num (ri_peers_established rib))]))))
      | Reload \<Rightarrow> done_with (ok (JObj [(''reloaded'', JBool True)]))
      | Shutdown \<Rightarrow> await send_shutdown (\<lambda>_. done_with (ok (JObj [(''shutting_down'', JBool True)])))
      | ArchiveStatus \<Rightarrow>
          await (on_archive archive_status_op) (\<lambda>status. done_with (ok (status_as_value (status_result status))))
      | ArchiveRollover \<Rightarrow>
          (case sx_rollover (dx_serde X) (req_args req) of
             Inl err \<Rightarrow> done_with (invalid_args req err)
           | Inr args \<Rightarrow>
               await (if ra_stream args = UpdatesStream then on_archive (rollover (dx_archive X) Updates)
                      else on_archive (rollover (dx_archive X) Ribs)) (\<lambda>_.
                 done_with (ok (JObj [(''ok'', JBool True)]))))
      | ArchiveSnapshotNow \<Rightarrow>
          await (on_archive (on_store utc_now)) (\<lambda>now.
          await (on_archive (snapshot_now (dx_archive X) (manual_snapshot now))) (\<lambda>result.
            done_with (ok (JObj [(''path'', JStr (fs_final_path result)),
              (''records'', word_num (fs_record_count result))]))))
      | ArchiveDestinations \<Rightarrow>
          await (on_archive service) (\<lambda>s.
            done_with (ok (JObj [(''destinations'', JArr (map (\<lambda>(key, mode, destination_type).
              JObj [(''key'', JStr key), (''mode'', JStr mode), (''type'', JStr destination_type)]) (destinations s)))])))
      | ArchiveReplicatorRetry \<Rightarrow>
          await (on_archive retry_failed_replications) (\<lambda>count.
            done_with (ok (JObj [(''retried_jobs'', word_num count)])))
      | PeerList \<Rightarrow>
          await (on_bgp (asks (peer_list (dx_bgp X)))) (\<lambda>peers.
            done_with (ok (JObj [(''peers'', JArr (map peer_info_value peers))])))
      | PeerShow \<Rightarrow>
          with_peer_key (dx_serde X) req (\<lambda>peer.
          await (on_bgp (asks (peer_show peer))) (\<lambda>found.
            done_with (case found of
              Some info \<Rightarrow> ok (JObj [(''peer'', peer_info_value info)])
            | None \<Rightarrow> response_err (req_id req) ''peer_not_found'' ''peer not found'')))
      | PeerReset \<Rightarrow>
          with_peer_key (dx_serde X) req (\<lambda>peer.
            or_reply (req_id req) ''peer_reset_failed'' (on_bgp (peer_reset peer)) (\<lambda>_.
              ok (JObj [(''reset'', JBool True)])))
      | RibSummary \<Rightarrow>
          await (on_bgp (asks (rib_summary_of (dx_bgp X)))) (\<lambda>summary.
            done_with (ok (JObj [(''summary'', rib_summary_value summary)])))
      | RibIn \<Rightarrow>
          with_peer_key (dx_serde X) req (\<lambda>peer.
            or_reply (req_id req) ''rib_in_failed''
              (await (on_bgp (asks (rib_in peer))) of_result) (\<lambda>nets. ok (prefixes_value peer nets)))
      | RibOut \<Rightarrow>
          with_peer_key (dx_serde X) req (\<lambda>peer.
            or_reply (req_id req) ''rib_out_failed''
              (await (on_bgp (asks (rib_out (dx_bgp X) peer))) of_result) (\<lambda>nets. ok (prefixes_value peer nets)))
      | Unsupported \<Rightarrow>
          done_with (response_err (req_id req) ''unsupported_command'' (''unsupported cmd: '' @ req_cmd req)))"

text \<open>After a subscription the connection carries events only.\<close>

fun event_loop :: "'y serde_lib_scheme \<Rightarrow> recv list \<Rightarrow> (client, unit) task" where
  "event_loop S [] = (\<lambda>w. (Waits, w))"
| "event_loop S (Received event # rx) =
     await (of_result (sx_show_event S event)) (\<lambda>payload.
     await (send_text payload) (\<lambda>_.
     await (send_text [newline]) (\<lambda>_. event_loop S rx)))"
| "event_loop S (Lagged # rx) = event_loop S rx"
| "event_loop S (Closed # rx) = done_with ()"

definition subscribes :: "control_request \<Rightarrow> bool" where
  "subscribes req \<longleftrightarrow> from_request req = Unsupported \<and> req_cmd req = ''events_subscribe''"

text \<open>What is done with a line, and one turn of the loop: whether another one follows.\<close>

definition client_reply ::
  "('h, 'm, 's, 'a, 'at, 'n, 'y) daemon_ext_scheme \<Rightarrow> string \<Rightarrow> (client, bool) task" where
  "client_reply X line =
     (case sx_request (dx_serde X) (trim_end line) of
        Inl err \<Rightarrow>
          await (write_response (dx_serde X) (response_err ''unknown'' ''invalid_request'' (err_to_string err))) (\<lambda>_.
            done_with True)
      | Inr req \<Rightarrow>
          if subscribes req
          then
            await (write_response (dx_serde X) (response_ok (req_id req) (JObj [(''subscribed'', JBool True)]))) (\<lambda>_.
            await (asks cn_events) (\<lambda>rx.
            await (event_loop (dx_serde X) rx) (\<lambda>_. done_with False)))
          else
            await (respond X req) (\<lambda>response.
            await (write_response (dx_serde X) response) (\<lambda>_. done_with True)))"

definition client_turn ::
  "('h, 'm, 's, 'a, 'at, 'n, 'y) daemon_ext_scheme \<Rightarrow> (client, bool) task" where
  "client_turn X = await read_line (\<lambda>line. if line = [] then done_with False else client_reply X line)"

section \<open>What a reply changes\<close>

text \<open>
  A relation between the states before and after the calls that the handlers make, on the
  connection and on the services, holds before and after a whole reply.
\<close>

lemma or_reply_snd [simp]: "snd (or_reply rid code m f w) = snd (m w)"
  by (simp add: or_reply_def split: prod.splits outcome.splits)

lemma conn_io_snd:
  "snd (conn_io w) = w \<or>
   snd (conn_io w) = w\<lparr>cn_step := Suc (cn_step w), cn_shared := cn_others w (cn_step w) (cn_shared w)\<rparr>"
  by (simp add: conn_io_def Let_def split: option.splits)

lemma send_text_snd:
  "\<exists>t'. snd (send_text t w) = (snd (conn_io w))\<lparr>cn_out := cn_out (snd (conn_io w)) @ t'\<rparr>"
proof -
  have "cn_out (snd (conn_io w)) = cn_out w" using conn_io_snd [of w] by auto
  then show ?thesis by (cases "conn_io w"; cases "fst (conn_io w)") (auto simp: send_text_def)
qed

lemma on_archive_snd:
  "snd (on_archive m w) = w\<lparr>cn_shared := (cn_shared w)
     \<lparr>sh_service := fst (snd (m (sh_service (cn_shared w), sh_store (cn_shared w)))),
      sh_store := snd (snd (m (sh_service (cn_shared w), sh_store (cn_shared w))))\<rparr>\<rparr>"
  by (simp add: on_archive_def split: prod.splits)

lemma on_bgp_snd:
  "snd (on_bgp m w) = w\<lparr>cn_shared := (cn_shared w)\<lparr>sh_bgp := snd (m (sh_bgp (cn_shared w)))\<rparr>\<rparr>"
  by (simp add: on_bgp_def split: prod.splits)

locale services = step_frame R for R :: "client \<Rightarrow> client \<Rightarrow> bool" +
  fixes E :: "('h, 'm, 's, 'a) archive_ext"
  assumes shutdown: "\<forall>w. R w (snd (send_shutdown w))"
    and status: "\<forall>w. R w (snd (on_archive archive_status_op w))"
    and roll: "\<forall>w. R w (snd (on_archive (rollover E stream) w))"
    and snapshot: "\<forall>w. R w (snd (on_archive (snapshot_now E input) w))"
    and clock: "\<forall>w. R w (snd (on_archive (on_store utc_now) w))"
    and retry: "\<forall>w. R w (snd (on_archive retry_failed_replications w))"
    and reset: "\<forall>w. R w (snd (on_bgp (peer_reset p) w))"
begin

lemma query: "\<forall>w. R w (snd (on_bgp (asks f) w))" "\<forall>w. R w (snd (on_archive service w))"
  by (simp_all add: on_bgp_def on_archive_def service_def frame_refl)

lemma frame_or_reply: "\<forall>w. R w (snd (m w)) \<Longrightarrow> \<forall>w. R w (snd (or_reply rid code m f w))"
  by simp

lemma frame_peer_key: "(\<And>p. \<forall>w. R w (snd (f p w))) \<Longrightarrow> \<forall>w. R w (snd (with_peer_key S req f w))"
  by (simp add: with_peer_key_def frame_refl split: sum.splits)

lemmas frames = frame_await frame_basic frame_or_reply frame_peer_key frame_if query
  shutdown status roll snapshot clock retry reset

lemma frame_respond:
  assumes "dx_archive X = E"
  shows "\<forall>w. R w (snd (respond X req w))"
proof -
  have stream: "\<forall>w. R w (snd ((case sx_rollover (dx_serde X) (req_args req) of
      Inl err \<Rightarrow> done_with (g err) | Inr args \<Rightarrow> f args) w))" if "\<And>a. \<forall>w. R w (snd (f a w))" for g f
    using that by (simp add: frame_refl split: sum.splits)
  show ?thesis
    unfolding respond_def Let_def assms
    by (cases "from_request req"; simp only: command_kind.case; intro frames stream)
qed

end

locale replies = services R E for R :: "client \<Rightarrow> client \<Rightarrow> bool" and E :: "('h, 'm, 's, 'a) archive_ext" +
  assumes conn: "\<forall>w. R w (snd (conn_io w))"
    and out: "\<forall>w. R w (w\<lparr>cn_out := cn_out w @ t\<rparr>)"
begin

lemma frame_text: "\<forall>w. R w (snd (send_text t w))"
proof
  fix w
  obtain t' where t': "snd (send_text t w) = (snd (conn_io w))\<lparr>cn_out := cn_out (snd (conn_io w)) @ t'\<rparr>"
    using send_text_snd [of t w] by blast
  then show "R w (snd (send_text t w))" unfolding t' using conn out frame_trans by blast
qed

lemma frame_response: "\<forall>w. R w (snd (write_response S resp w))"
  unfolding write_response_def by (intro frames frame_text)

lemma frame_events: "\<forall>w. R w (snd (event_loop S rx w))"
proof (induction S rx rule: event_loop.induct)
  case (2 S event rx)
  then show ?case unfolding event_loop.simps by (intro frames frame_text)
qed (simp_all add: frame_refl)

lemma frame_client_reply:
  assumes "dx_archive X = E"
  shows "\<forall>w. R w (snd (client_reply X line w))"
proof (cases "sx_request (dx_serde X) (trim_end line)")
  case (Inl err)
  then show ?thesis unfolding client_reply_def by (simp only: sum.case) (intro frames frame_response)
next
  case (Inr req)
  then show ?thesis
    unfolding client_reply_def
    by (simp only: sum.case) (intro frames frame_response frame_respond [OF assms] frame_events)
qed

end

text \<open>A reply leaves what the client has still to send as it is.\<close>

definition same_input :: "client \<Rightarrow> client \<Rightarrow> bool" where
  "same_input w w' \<longleftrightarrow> cn_in w' = cn_in w"

lemma same_input_replies: "replies same_input E"
proof
  show "\<forall>w. same_input w (snd (conn_io w))"
  proof
    fix w
    show "same_input w (snd (conn_io w))" using conn_io_snd [of w] by (auto simp: same_input_def)
  qed
qed (simp_all add: same_input_def send_shutdown_def on_archive_snd on_bgp_snd)

interpretation quiet: replies same_input E for E :: "('h, 'm, 's, 'a) archive_ext"
  by (rule same_input_replies)

lemma first_line_prefix: "prefix (first_line s) s"
proof (cases "newline \<in> set s")
  case True
  then obtain t r where "s = t @ newline # r" "newline \<notin> set t" by (meson split_list_first)
  then show ?thesis by (auto simp: first_line_def takeWhile_append)
next
  case False
  then show ?thesis by (simp add: first_line_def takeWhile_is_prefix)
qed

lemma first_line_rest: "first_line s @ drop (length (first_line s)) s = s"
  by (metis first_line_prefix prefix_def append_eq_conv_conj append_take_drop_id)

lemma read_line_shorter:
  assumes "read_line w = (Done line, w')"
  shows "cn_in w = line @ cn_in w'" "valid_utf8 (map of_char line)"
    "cn_in w = [] \<or> line \<noteq> []" "newline \<in> set (cn_in w) \<or> cn_closed w"
proof -
  from assms obtain w1 where w1: "conn_io w = (Done (), w1)"
    and line: "line = first_line (cn_in w1)" "w' = w1\<lparr>cn_in := drop (length line) (cn_in w1)\<rparr>"
      "valid_utf8 (map of_char line)" "newline \<in> set (cn_in w1) \<or> cn_closed w1"
    by (auto simp: read_line_def task_simps Let_def split: if_splits)
  have same: "cn_in w1 = cn_in w" "cn_closed w1 = cn_closed w" using conn_io_snd [of w] w1 by auto
  show "cn_in w = line @ cn_in w'" using line(1,2) same by (simp add: first_line_rest)
  show "valid_utf8 (map of_char line)" by (rule line(3))
  show "cn_in w = [] \<or> line \<noteq> []" using line(1) same by (cases "cn_in w") (auto simp: first_line_def)
  show "newline \<in> set (cn_in w) \<or> cn_closed w" using line(4) same by simp
qed

lemma client_turn_shorter:
  assumes "client_turn X w = (Done True, w')"
  shows "length (cn_in w') < length (cn_in w)"
proof -
  from assms obtain line w1 where l: "read_line w = (Done line, w1)" "line \<noteq> []"
    and rest: "client_reply X line w1 = (Done True, w')"
    by (auto simp: client_turn_def task_simps split: if_splits)
  have same: "same_input w1 w'" using quiet.frame_client_reply [OF HOL.refl, of X line] rest by (metis snd_conv)
  from l read_line_shorter(1) [OF l(1)] same show ?thesis by (simp add: same_input_def)
qed

function handle_client ::
  "('h, 'm, 's, 'a, 'at, 'n, 'y) daemon_ext_scheme \<Rightarrow> (client, unit) task" where
  "handle_client X w =
     (case client_turn X w of
        (Done again, w') \<Rightarrow> if again then handle_client X w' else (Done (), w')
      | (Failed e, w') \<Rightarrow> (Failed e, w')
      | (Waits, w') \<Rightarrow> (Waits, w'))"
  by pat_completeness auto
termination
  by (relation "measure (\<lambda>(X, w). length (cn_in w))") (auto dest: client_turn_shorter [OF sym])

declare handle_client.simps [simp del]

text \<open>
  The accept loop: what each call of \<^verbatim>\<open>accept\<close> yields, in order. A connection is served by a
  task of its own, whose end is logged; an error of \<^verbatim>\<open>accept\<close> ends the loop.
\<close>

fun run_control_server ::
  "('h, 'm, 's, 'a, 'at, 'n, 'y) daemon_ext_scheme \<Rightarrow> client result list \<Rightarrow> unit outcome \<times> (unit outcome \<times> client) list" where
  "run_control_server X [] = (Waits, [])"
| "run_control_server X (Inl e # accepted) = (Failed e, [])"
| "run_control_server X (Inr stream # accepted) =
     (case run_control_server X accepted of (r, tasks) \<Rightarrow> (r, handle_client X stream # tasks))"

text \<open>Every connection up to the first failing call is served, and none after it.\<close>

lemma run_control_server_serves:
  "run_control_server X accepted =
     (case dropWhile (\<lambda>a. \<exists>c. a = Inr c) accepted of Inl e # _ \<Rightarrow> Failed e | _ \<Rightarrow> Waits,
      map (handle_client X \<circ> projr) (takeWhile (\<lambda>a. \<exists>c. a = Inr c) accepted))"
  by (induction X accepted rule: run_control_server.induct) auto

section \<open>Start and end of the daemon\<close>

definition path_exists :: "path \<Rightarrow> ('z world_scheme, bool) io" where
  "path_exists p w =
     (case syscall (OpMetadata p) w of (Inl _, w') \<Rightarrow> (Inr False, w') | (Inr _, w') \<Rightarrow> (Inr (w_files w p \<noteq> None), w'))"

definition cleanup_socket :: "path \<Rightarrow> ('z world_scheme, unit) io" where
  "cleanup_socket p =
     and_then (path_exists p) (\<lambda>there.
       if there then in_context (''failed removing stale socket '' @ p) (remove_file p) else ret ())"

text \<open>\<^verbatim>\<open>UnixListener::bind\<close> makes the socket's file, which must not exist.\<close>

definition bind_socket :: "path \<Rightarrow> ('z world_scheme, unit) io" where
  "bind_socket p =
     and_then (syscall (OpBind p)) (\<lambda>_.
     and_then (gets w_files) (\<lambda>fs.
       if fs p \<noteq> None then fail (Msg ''Address already in use (os error 98)'')
       else modify (set_file p (Some []))))"

definition focld_start ::
  "('h, 'm, 's, 'a, 'at, 'n, 'y) daemon_ext_scheme \<Rightarrow> path \<Rightarrow> bgp \<Rightarrow> (store, archive_service \<times> bgp \<times> path) io" where
  "focld_start X config b =
     and_then (lift_res (focl_load (dx_read_config X) (dx_from_toml X) (kx_net_parse (dx_bgp X)) config)) (\<lambda>cfg.
     and_then (lift_res (with_context ''global.router_id must be valid IPv4''
       (ok_or (Msg ''invalid IPv4 address syntax'') (parse_ipv4 (gc_router_id (fc_global cfg)))))) (\<lambda>collector_bgp_id.
     and_then (archive_new (dx_archive X) (fc_archive cfg) collector_bgp_id) (\<lambda>archive.
     and_then (lift_res (bgp_new (dx_bgp X) cfg b)) (\<lambda>b'.
     and_then (cleanup_socket (gc_control_socket (fc_global cfg))) (\<lambda>_.
     and_then (in_context (''failed binding control socket '' @ gc_control_socket (fc_global cfg))
       (bind_socket (gc_control_socket (fc_global cfg)))) (\<lambda>_.
       ret (archive, b', gc_control_socket (fc_global cfg))))))))"

definition focld_stop :: "path \<Rightarrow> ('z world_scheme, unit) io" where
  "focld_stop socket_path = cleanup_socket socket_path"

end
