(* ===== verification/Daemon_Properties.thy ===== *)
theory Daemon_Properties
  imports Json_Text Archive_Properties Daemon
begin

text \<open>
  What the control connections of the daemon guarantee: the shape of the responses, one response
  per request and in order, the end of a connection, what requests do to the services behind
  them, and the start of the daemon.
\<close>

section \<open>A whole connection\<close>

locale handler = replies R E for R :: "client \<Rightarrow> client \<Rightarrow> bool" and E :: "('h, 'm, 's, 'a) archive_ext" +
  assumes input: "\<forall>w. R w (w\<lparr>cn_in := drop n (cn_in w)\<rparr>)"
begin

lemma frame_line: "\<forall>w. R w (snd (read_line w))"
proof -
  have "\<forall>w. R w (snd (let line = first_line (cn_in w); w' = w\<lparr>cn_in := drop (length line) (cn_in w)\<rparr>
       in if newline \<notin> set (cn_in w) \<and> \<not> cn_closed w then (Waits, w)
          else if \<not> valid_utf8 (map of_char line)
          then (Failed (Msg ''stream did not contain valid UTF-8''), w')
          else (Done line, w')))"
    by (simp add: Let_def input frame_refl)
  then show ?thesis unfolding read_line_def by (intro frame_await conn) simp
qed

lemma frame_turn: "dx_archive X = E \<Longrightarrow> \<forall>w. R w (snd (client_turn X w))"
  unfolding client_turn_def by (intro frames frame_line frame_client_reply) assumption

lemma frame_handle_client: "dx_archive X = E \<Longrightarrow> R w (snd (handle_client X w))"
proof (induction X w rule: handle_client.induct)
  case (1 X w)
  have turn: "R w (snd (client_turn X w))" using frame_turn [OF 1(2)] by blast
  show ?case
  proof (cases "client_turn X w")
    case (Pair r w')
    with turn have one: "R w w'" by simp
    show ?thesis
    proof (cases "r = Done True")
      case True
      with 1 Pair have "R w' (snd (handle_client X w'))" by simp
      with one frame_trans True Pair show ?thesis by (subst handle_client.simps) auto
    next
      case False
      with one Pair show ?thesis by (subst handle_client.simps) (cases r; auto)
    qed
  qed
qed

end

section \<open>Requests keep the invariants of the services\<close>

text \<open>
  A property of the shared state that the calls on the services keep holds on, as long as the
  other tasks keep it as well.
\<close>

definition keeping :: "(shared \<Rightarrow> bool) \<Rightarrow> client \<Rightarrow> client \<Rightarrow> bool" where
  "keeping I w w' \<longleftrightarrow>
     cn_others w' = cn_others w \<and>
     ((\<forall>k s. I s \<longrightarrow> I (cn_others w k s)) \<longrightarrow> I (cn_shared w) \<longrightarrow> I (cn_shared w'))"

definition shared_ok ::
  "('h, 'm, 's, 'a) archive_ext \<Rightarrow> archive_config \<Rightarrow> u32 \<Rightarrow> ipv4_addr \<Rightarrow> prefix_entry list \<Rightarrow> shared \<Rightarrow> bool" where
  "shared_ok E cfg asn rid ps s \<longleftrightarrow>
     service_ok E (sh_service s) \<and> av_cfg (sh_service s) = cfg \<and> peers_ok (sh_bgp s) \<and>
     bg_global_asn (sh_bgp s) = asn \<and> bg_router_id (sh_bgp s) = rid \<and> bg_prefixes (sh_bgp s) = ps"

lemma keeping_archive:
  assumes "keeps E m"
  shows "\<forall>w. keeping (shared_ok E cfg asn rid ps) w (snd (on_archive m w))"
proof
  fix w :: client
  obtain r s st where m: "m (sh_service (cn_shared w), sh_store (cn_shared w)) = (r, (s, st))" by (metis surj_pair)
  then have "service_ok E (sh_service (cn_shared w)) \<Longrightarrow> service_ok E s \<and> av_cfg s = av_cfg (sh_service (cn_shared w))"
    using assms unfolding keeps_def by blast
  with m show "keeping (shared_ok E cfg asn rid ps) w (snd (on_archive m w))"
    by (simp add: keeping_def shared_ok_def on_archive_snd)
qed

lemma keeps_status: "keeps E archive_status_op"
  unfolding archive_status_op_def by (intro keeps_intros)

lemma keeps_retry: "keeps E retry_failed_replications"
  unfolding retry_failed_replications_def by (intro keeps_intros)

lemma peer_reset_keeps:
  assumes "peers_ok b"
  shows "peers_ok (snd (peer_reset p b)) \<and> bg_global_asn (snd (peer_reset p b)) = bg_global_asn b \<and>
    bg_router_id (snd (peer_reset p b)) = bg_router_id b \<and> bg_prefixes (snd (peer_reset p b)) = bg_prefixes b"
proof (cases "map_of (bg_peers b) p")
  case None
  with assms show ?thesis by (simp add: peer_reset_def reset_remove_def await_def)
next
  case (Some old)
  let ?b = "b\<lparr>bg_peers := AList.delete p (bg_peers b), bg_aborted := pr_task old # bg_aborted b\<rparr>"
  have rem: "reset_remove p b = (Done (pr_cfg old), ?b)" using Some by (simp add: reset_remove_def)
  note ok = reset_remove_ok [OF assms rem]
  obtain b' where ins: "reset_insert p (pr_cfg old) ?b = (Done (), b')" by (simp add: reset_insert_def)
  from reset_insert_ok(1) [OF ok(1) ins ok(2) ok(3)] have "peers_ok b'" .
  moreover have "peer_reset p b = (Done (), b')" using rem ins by (simp add: peer_reset_def await_def)
  moreover have "bg_global_asn b' = bg_global_asn b" "bg_router_id b' = bg_router_id b" "bg_prefixes b' = bg_prefixes b"
    using ins by (auto simp: reset_insert_def spawn_peer_task_def)
  ultimately show ?thesis by simp
qed

lemma keeping_handler: "handler (keeping (shared_ok E cfg asn rid ps)) E"
proof
  let ?R = "keeping (shared_ok E cfg asn rid ps)"
  show "?R w w" for w by (simp add: keeping_def)
  show "?R a c" if "?R a b" "?R b c" for a b c using that by (simp add: keeping_def)
  show "\<forall>w. ?R w (snd (on_bgp (peer_reset p) w))" for p
    using peer_reset_keeps by (auto simp: keeping_def shared_ok_def on_bgp_snd)
  show "\<forall>w. ?R w (snd (conn_io w))"
  proof
    fix w show "?R w (snd (conn_io w))" using conn_io_snd [of w] by (auto simp: keeping_def)
  qed
qed (simp_all add: keeping_archive keeps_status keeps_retry keeps_rollover keeps_snapshot keeps_basic,
     simp_all add: keeping_def shared_ok_def send_shutdown_def)

interpretation inv: handler "keeping (shared_ok E cfg asn rid ps)" E
  for E :: "('h, 'm, 's, 'a) archive_ext" and cfg asn rid ps
  by (rule keeping_handler)

text \<open>
  whatever a client sends, and whichever call fails or never returns, the connection leaves
  the services in order, if the other tasks do: the invariants of the archive service and of
  the table of the peers hold, and the configuration of the archive, the own AS number, the
  router id and the prefixes are those the daemon started with. No request changes the
  configuration, \<^verbatim>\<open>reload\<close> included.
\<close>

theorem requests_keep_services:
  assumes "shared_ok (dx_archive X) cfg asn rid ps (cn_shared w)"
    and "\<And>k s. shared_ok (dx_archive X) cfg asn rid ps s \<Longrightarrow> shared_ok (dx_archive X) cfg asn rid ps (cn_others w k s)"
  shows "shared_ok (dx_archive X) cfg asn rid ps (cn_shared (snd (handle_client X w)))"
  using inv.frame_handle_client [OF HOL.refl, of X cfg asn rid ps w] assms by (simp add: keeping_def)

section \<open>Responses\<close>

text \<open>
  A response has version 1 and either a result, which is not null, or an error, never both; its
  flag says which.
\<close>

definition well_formed :: "control_response \<Rightarrow> bool" where
  "well_formed p \<longleftrightarrow>
     resp_version p = 1 \<and>
     (if resp_ok p then (\<exists>m. resp_result p = Some (JObj m)) \<and> resp_error p = None
      else resp_result p = None \<and> resp_error p \<noteq> None)"

definition error_codes :: "string set" where
  "error_codes =
     {''invalid_args'', ''peer_not_found'', ''peer_reset_failed'', ''rib_in_failed'', ''rib_out_failed'',
      ''unsupported_command''}"

definition proper :: "string \<Rightarrow> control_response \<Rightarrow> bool" where
  "proper rid p \<longleftrightarrow>
     well_formed p \<and> resp_id p = rid \<and> (\<forall>e. resp_error p = Some e \<longrightarrow> err_code e \<in> error_codes)"

lemma proper_ok: "proper rid (response_ok rid (JObj m))"
  by (simp add: proper_def well_formed_def response_ok_def)

lemma proper_err: "code \<in> error_codes \<Longrightarrow> proper rid (response_err rid code msg)"
  by (simp add: proper_def well_formed_def response_err_def)

definition yields :: "('r \<Rightarrow> bool) \<Rightarrow> (client, 'r) task \<Rightarrow> bool" where
  "yields P m \<longleftrightarrow> (\<forall>w r w'. m w = (r, w') \<longrightarrow> r \<noteq> Waits \<and> (\<forall>a. r = Done a \<longrightarrow> P a))"

named_theorems yields_intros "computations that do not wait and give a value with a property"

lemma yields_done [yields_intros]: "P a \<Longrightarrow> yields P (done_with a)"
  by (simp add: yields_def)

lemma yields_await [yields_intros]:
  assumes "yields (\<lambda>_. True) m" "\<And>a. yields P (f a)"
  shows "yields P (await m f)"
  using assms unfolding yields_def await_def by (fastforce split: prod.splits outcome.splits)

lemma yields_services [yields_intros]:
  "yields (\<lambda>_. True) (on_archive m)" "yields (\<lambda>_. True) send_shutdown" "yields (\<lambda>_. True) (on_bgp (asks f))"
  "yields (\<lambda>_. True) (on_bgp (peer_reset p))" "yields (\<lambda>_. True) (of_result x)"
  by (auto simp: yields_def on_archive_def on_bgp_def send_shutdown_def of_result_def peer_reset_def reset_remove_def
      reset_insert_def await_def split: prod.splits sum.splits option.splits)

lemma yields_if [yields_intros]: "yields P m \<Longrightarrow> yields P n \<Longrightarrow> yields P (if b then m else n)"
  by simp

lemma yields_or_reply [yields_intros]:
  assumes "yields (\<lambda>_. True) m" "code \<in> error_codes" "\<And>a. proper rid (f a)"
  shows "yields (proper rid) (or_reply rid code m f)"
  using assms proper_err [OF assms(2)] unfolding yields_def or_reply_def
  by (fastforce split: prod.splits outcome.splits)

lemma proper_invalid_args: "proper (req_id req) (invalid_args req err)"
  unfolding invalid_args_def by (rule proper_err) (simp add: error_codes_def)

lemma yields_peer_key [yields_intros]:
  "(\<And>p. yields (proper (req_id req)) (f p)) \<Longrightarrow> yields (proper (req_id req)) (with_peer_key S req f)"
  unfolding with_peer_key_def by (cases "sx_peer_key S (req_args req)") (simp_all add: yields_done proper_invalid_args)

lemma respond_yields: "yields (proper (req_id req)) (respond X req)"
proof -
  have stream: "yields (proper (req_id req)) (case sx_rollover (dx_serde X) (req_args req) of
      Inl err \<Rightarrow> done_with (invalid_args req err) | Inr args \<Rightarrow> f args)"
    if "\<And>a. yields (proper (req_id req)) (f a)" for f
    using that by (simp add: yields_done proper_invalid_args split: sum.splits)
  have found: "proper (req_id req) (case x of Some i \<Rightarrow> response_ok (req_id req) (JObj (g i))
      | None \<Rightarrow> response_err (req_id req) ''peer_not_found'' msg)" for x g msg
    by (simp add: proper_ok proper_err error_codes_def split: option.splits)
  have codes: "''peer_reset_failed'' \<in> error_codes" "''rib_in_failed'' \<in> error_codes" "''rib_out_failed'' \<in> error_codes"
    "''unsupported_command'' \<in> error_codes" by (simp_all add: error_codes_def)
  show ?thesis
    unfolding respond_def Let_def prefixes_value_def status_as_value_def
    by (cases "from_request req"; simp only: command_kind.case)
       (intro yields_intros stream found proper_ok proper_err codes)+
qed

text \<open>
  C21: the type of the answers. Handling a request never waits, and when it gives a response, the
  response carries the id of the request and version 1; it has either a result, which is a JSON
  object, or an error with one of six codes, and its flag says which.
\<close>

theorem responses_proper:
  assumes "respond X req w = (r, w')"
  shows "r \<noteq> Waits \<and> (\<forall>p. r = Done p \<longrightarrow> proper (req_id req) p)"
  using respond_yields assms unfolding yields_def by blast

section \<open>A calm connection\<close>

text \<open>The services do not touch the connection.\<close>

definition same_conn :: "client \<Rightarrow> client \<Rightarrow> bool" where
  "same_conn w w' \<longleftrightarrow> (\<exists>s. w' = w\<lparr>cn_shared := s\<rparr>)"

lemma same_conn_services: "services same_conn E"
proof
  show "same_conn w w" for w by (simp add: same_conn_def) (metis client.surjective client.update_convs(1))
  show "same_conn a c" if "same_conn a b" "same_conn b c" for a b c using that by (auto simp: same_conn_def)
qed (auto simp: same_conn_def send_shutdown_def on_archive_snd on_bgp_snd)

interpretation only_shared: services same_conn E for E :: "('h, 'm, 's, 'a) archive_ext"
  by (rule same_conn_services)

definition calm :: "client \<Rightarrow> bool" where
  "calm w \<longleftrightarrow> (\<forall>k. cn_fault w k = None \<and> \<not> cn_stall w k)"

text \<open>What a step of a calm connection changes: output, and what the other tasks do.\<close>

definition progress :: "string \<Rightarrow> client \<Rightarrow> client \<Rightarrow> bool" where
  "progress t w w' \<longleftrightarrow>
     cn_out w' = cn_out w @ t \<and> cn_in w' = cn_in w \<and> cn_closed w' = cn_closed w \<and> cn_events w' = cn_events w \<and>
     (calm w \<longrightarrow> calm w')"

lemma progress_trans: "progress s a b \<Longrightarrow> progress t b c \<Longrightarrow> progress (s @ t) a c"
  by (simp add: progress_def)

lemma same_conn_progress: "same_conn w w' \<Longrightarrow> progress [] w w'"
  by (auto simp: same_conn_def progress_def calm_def)

lemma conn_io_calm: "calm w \<Longrightarrow> \<exists>w'. conn_io w = (Done (), w') \<and> progress [] w w'"
  by (simp add: conn_io_def calm_def progress_def Let_def)

lemma send_text_calm: "calm w \<Longrightarrow> \<exists>w'. send_text t w = (Done (), w') \<and> progress t w w'"
  using conn_io_calm [of w] by (auto simp: send_text_def progress_def calm_def)

lemma write_response_calm:
  assumes "calm w" "sx_show_response S p = Inr t"
  shows "\<exists>w'. write_response S p w = (Done (), w') \<and> progress (t @ [newline]) w w'"
proof -
  obtain w1 where 1: "send_text t w = (Done (), w1)" "progress t w w1" using send_text_calm [OF assms(1)] by blast
  then have "calm w1" using assms(1) by (simp add: progress_def)
  then obtain w2 where 2: "send_text [newline] w1 = (Done (), w2)" "progress [newline] w1 w2"
    using send_text_calm by blast
  with 1 assms(2) progress_trans [OF 1(2) 2(2)] show ?thesis by (simp add: write_response_def await_def)
qed

lemma first_line_append: "newline \<notin> set t \<Longrightarrow> first_line (t @ newline # r) = t @ [newline]"
  by (simp add: first_line_def takeWhile_append)

lemma read_line_calm:
  assumes "calm w" "cn_in w = t @ newline # r" "one_line t"
  shows "\<exists>w'. read_line w = (Done (t @ [newline]), w') \<and> calm w' \<and> cn_in w' = r \<and> cn_out w' = cn_out w \<and>
    cn_closed w' = cn_closed w \<and> cn_events w' = cn_events w"
proof -
  obtain w1 where 1: "conn_io w = (Done (), w1)" "progress [] w w1" using conn_io_calm [OF assms(1)] by blast
  with assms show ?thesis
    by (auto simp: read_line_def await_def Let_def progress_def calm_def one_line_def first_line_append)
qed

lemma read_line_end:
  assumes "calm w" "cn_in w = []" "cn_closed w"
  shows "\<exists>w'. read_line w = (Done [], w') \<and> progress [] w w'"
proof -
  obtain w1 where 1: "conn_io w = (Done (), w1)" "progress [] w w1" using conn_io_calm [OF assms(1)] by blast
  with assms show ?thesis by (auto simp: read_line_def await_def Let_def progress_def calm_def first_line_def)
qed

section \<open>One response per request\<close>

text \<open>A response that handling the request gives in some state of the daemon.\<close>

definition answers :: "('h, 'm, 's, 'a, 'at, 'n, 'y) daemon_ext_scheme \<Rightarrow> control_request \<Rightarrow> control_response \<Rightarrow> bool" where
  "answers X req p \<longleftrightarrow> resp_id p = req_id req \<and> (\<exists>w w'. respond X req w = (Done p, w'))"

definition lines :: "string list \<Rightarrow> string" where
  "lines ts = concat (map (\<lambda>t. t @ [newline]) ts)"

lemma lines_simps [simp]: "lines [] = []" "lines (t # ts) = t @ newline # lines ts"
  by (simp_all add: lines_def)

lemma request_turn:
  assumes "serde_laws (dx_serde X)" "calm w" "sx_show_request (dx_serde X) req = Inr t" "\<not> subscribes req"
    and "cn_in w = t @ newline # r"
  obtains (answered) p u w' where "client_turn X w = (Done True, w')" "answers X req p"
      "sx_show_response (dx_serde X) p = Inr u" "cn_out w' = cn_out w @ u @ [newline]" "cn_in w' = r"
      "calm w'" "cn_closed w' = cn_closed w"
  | (broken) e w' where "client_turn X w = (Failed e, w')" "cn_out w' = cn_out w"
proof -
  have t: "one_line t" "sx_request (dx_serde X) t = Inr req"
    using assms(1,3) unfolding serde_laws_def by (metis sum.inject(2))+
  obtain w1 where rd: "read_line w = (Done (t @ [newline]), w1)" and w1: "calm w1" "cn_in w1 = r" "cn_out w1 = cn_out w"
    "cn_closed w1 = cn_closed w" using read_line_calm [OF assms(2,5) t(1)] by blast
  have trimmed: "trim_end t = t" using t(1) by (simp add: one_line_def)
  obtain res w2 where rs: "respond X req w1 = (res, w2)" by force
  then have mid: "progress [] w1 w2"
    using only_shared.frame_respond [OF HOL.refl, of X req] same_conn_progress by (metis snd_conv)
  have turn: "client_turn X w = client_reply X (t @ [newline]) w1"
    using rd by (simp add: client_turn_def await_def)
  show ?thesis
  proof (cases res)
    case (Done p)
    obtain u where u: "sx_show_response (dx_serde X) p = Inr u" using assms(1) unfolding serde_laws_def by blast
    have "calm w2" using mid w1(1) by (simp add: progress_def)
    then obtain w3 where w3: "write_response (dx_serde X) p w2 = (Done (), w3)" "progress (u @ [newline]) w2 w3"
      using write_response_calm [OF _ u] by blast
    have "resp_id p = req_id req" using respond_yields [of req X] rs Done unfolding yields_def proper_def by blast
    then have "answers X req p" using rs Done by (auto simp: answers_def)
    moreover have "client_turn X w = (Done True, w3)"
      using turn rs Done w3 t(2) assms(4) by (simp add: client_reply_def trimmed await_def)
    ultimately show ?thesis using answered [OF _ _ u] w3(2) mid w1 by (simp add: progress_def)
  next
    case (Failed e)
    then have "client_turn X w = (Failed e, w2)"
      using turn rs t(2) assms(4) by (simp add: client_reply_def trimmed await_def)
    then show ?thesis using broken mid w1 by (simp add: progress_def)
  next
    case Waits
    then show ?thesis using respond_yields [of req X] rs unfolding yields_def by blast
  qed
qed

lemma handle_client_turn:
  "client_turn X w = (Done True, w') \<Longrightarrow> handle_client X w = handle_client X w'"
  "client_turn X w = (Done False, w') \<Longrightarrow> handle_client X w = (Done (), w')"
  "client_turn X w = (Failed e, w') \<Longrightarrow> handle_client X w = (Failed e, w')"
  "client_turn X w = (Waits, w') \<Longrightarrow> handle_client X w = (Waits, w')"
  by (subst handle_client.simps; simp)+

text \<open>
  C7: one response per request, in order. On a connection without faults, a client that sends
  the printed forms of some requests, none of them a subscription, and closes, gets their
  responses, each on a line of its own, in the order of the requests and under their ids, and
  nothing else; each is what handling the request gave. The connection then ends well and all
  requests have been answered, or it is dropped at the first request whose handling fails.
\<close>

theorem requests_answered_in_order:
  assumes "serde_laws (dx_serde X)" "calm w" "cn_closed w" "cn_in w = lines ts"
    and "list_all2 (\<lambda>req t. sx_show_request (dx_serde X) req = Inr t \<and> \<not> subscribes req) reqs ts"
  shows "\<exists>resps us. list_all2 (\<lambda>p u. sx_show_response (dx_serde X) p = Inr u) resps us \<and>
    cn_out (snd (handle_client X w)) = cn_out w @ lines us \<and>
    list_all2 (answers X) (take (length resps) reqs) resps \<and>
    (if fst (handle_client X w) = Done () then length resps = length reqs
     else (\<exists>e. fst (handle_client X w) = Failed e) \<and> length resps < length reqs)"
  using assms(2-5)
proof (induction reqs arbitrary: w ts)
  case Nil
  then obtain w1 where "read_line w = (Done [], w1)" "progress [] w w1" using read_line_end [of w] by auto
  moreover from this have "handle_client X w = (Done (), w1)"
    by (intro handle_client_turn(2)) (simp add: client_turn_def await_def)
  ultimately show ?case by (intro exI [of _ "[]"]) (simp add: progress_def)
next
  case (Cons req reqs)
  then obtain t ts' where ts: "ts = t # ts'" "sx_show_request (dx_serde X) req = Inr t" "\<not> subscribes req"
    and rest: "list_all2 (\<lambda>req t. sx_show_request (dx_serde X) req = Inr t \<and> \<not> subscribes req) reqs ts'"
    by (auto simp: list_all2_Cons1)
  from Cons.prems(3) ts(1) have inp: "cn_in w = t @ newline # lines ts'" by simp
  show ?case
  proof (cases rule: request_turn [OF assms(1) Cons.prems(1) ts(2,3) inp, case_names answered broken])
    case (answered p u w')
    from Cons.IH [OF answered(6) _ answered(5) rest] answered(7) Cons.prems(2) obtain resps us where
      ih: "list_all2 (\<lambda>p u. sx_show_response (dx_serde X) p = Inr u) resps us"
        "cn_out (snd (handle_client X w')) = cn_out w' @ lines us"
        "list_all2 (answers X) (take (length resps) reqs) resps"
        "if fst (handle_client X w') = Done () then length resps = length reqs
         else (\<exists>e. fst (handle_client X w') = Failed e) \<and> length resps < length reqs" by blast
    show ?thesis
      unfolding handle_client_turn(1) [OF answered(1)]
      using ih answered(2-4) by (intro exI [of _ "p # resps"] exI [of _ "u # us"]) (simp split: if_splits)
  next
    case (broken e w')
    then show ?thesis
      unfolding handle_client_turn(3) [OF broken(1)] by (intro exI [of _ "[]"]) simp
  qed
qed

section \<open>Connections end\<close>

lemma write_response_ends: "calm w \<Longrightarrow> \<exists>r w'. write_response S p w = (r, w') \<and> r \<noteq> Waits \<and>
    (\<exists>t. progress t w w')"
proof (cases "sx_show_response S p")
  case (Inl e)
  then show ?thesis by (auto simp: write_response_def await_def progress_def)
next
  case (Inr t)
  assume "calm w"
  from write_response_calm [OF this Inr] show ?thesis by force
qed

lemma event_loop_ends:
  "calm w \<Longrightarrow> Closed \<in> set rx \<Longrightarrow> fst (event_loop S rx w) \<noteq> Waits"
proof (induction S rx arbitrary: w rule: event_loop.induct)
  case (2 S event rx)
  show ?case
  proof (cases "sx_show_event S event")
    case (Inl e)
    then show ?thesis by (simp add: await_def)
  next
    case (Inr t)
    obtain w1 where 1: "send_text t w = (Done (), w1)" "progress t w w1" using send_text_calm [OF 2(2)] by blast
    then have "calm w1" using 2(2) by (simp add: progress_def)
    then obtain w2 where 3: "send_text [newline] w1 = (Done (), w2)" "progress [newline] w1 w2"
      using send_text_calm by blast
    then have "calm w2" using \<open>calm w1\<close> by (simp add: progress_def)
    from 2(1) [OF this] 2(3) show ?thesis using Inr 1 3 by (simp add: await_def)
  qed
qed auto

lemma read_line_ends:
  assumes "calm w" "cn_closed w"
  shows "\<exists>r w'. read_line w = (r, w') \<and> r \<noteq> Waits \<and> calm w' \<and> cn_closed w' \<and> cn_events w' = cn_events w"
proof -
  obtain w1 where "conn_io w = (Done (), w1)" "progress [] w w1" using conn_io_calm [OF assms(1)] by blast
  with assms show ?thesis by (auto simp: read_line_def await_def Let_def progress_def calm_def)
qed

lemma answer_ends:
  assumes "calm w"
  shows "\<exists>r w'. await (respond X req) (\<lambda>p. await (write_response (dx_serde X) p) (\<lambda>_. done_with True)) w = (r, w') \<and>
    r \<noteq> Waits \<and> (r = Done True \<longrightarrow> (\<exists>t. progress t w w'))"
proof -
  obtain res w1 where rs: "respond X req w = (res, w1)" by force
  then have mid: "progress [] w w1"
    using only_shared.frame_respond [OF HOL.refl, of X req] same_conn_progress by (metis snd_conv)
  have nowait: "res \<noteq> Waits" using respond_yields [of req X] rs unfolding yields_def by blast
  show ?thesis
  proof (cases res)
    case (Done p)
    have "calm w1" using mid assms by (simp add: progress_def)
    then obtain r2 w2 t where "write_response (dx_serde X) p w1 = (r2, w2)" "r2 \<noteq> Waits" "progress t w1 w2"
      using write_response_ends by blast
    with rs Done progress_trans [OF mid] show ?thesis by (cases r2) (auto simp: await_def)
  qed (use rs nowait in \<open>auto simp: await_def\<close>)
qed

lemma reply_ends:
  assumes "calm w" "Closed \<in> set (cn_events w)"
  shows "\<exists>r w'. client_reply X line w = (r, w') \<and> r \<noteq> Waits \<and> (r = Done True \<longrightarrow> (\<exists>t. progress t w w'))"
proof (cases "sx_request (dx_serde X) (trim_end line)")
  case (Inl err)
  obtain r w' where "write_response (dx_serde X) (response_err ''unknown'' ''invalid_request'' (err_to_string err)) w = (r, w')"
    "r \<noteq> Waits" "\<exists>t. progress t w w'" using write_response_ends [OF assms(1)] by metis
  with Inl show ?thesis by (cases r) (auto simp: client_reply_def await_def)
next
  case (Inr req)
  let ?p = "response_ok (req_id req) (JObj [(''subscribed'', JBool True)])"
  show ?thesis
  proof (cases "subscribes req")
    case True
    obtain r w1 t where wr: "write_response (dx_serde X) ?p w = (r, w1)" "r \<noteq> Waits" "progress t w w1"
      using write_response_ends [OF assms(1)] by metis
    have ev: "calm w1" "Closed \<in> set (cn_events w1)" using wr(3) assms by (simp_all add: progress_def)
    obtain re we where loop: "event_loop (dx_serde X) (cn_events w1) w1 = (re, we)" by force
    with event_loop_ends [OF ev] have "re \<noteq> Waits" by (metis fst_conv)
    with Inr True wr loop show ?thesis by (cases r; cases re) (auto simp: client_reply_def await_def)
  next
    case False
    with Inr answer_ends [OF assms(1), of X req] show ?thesis by (simp add: client_reply_def)
  qed
qed

lemma turn_ends:
  assumes "calm w" "cn_closed w" "Closed \<in> set (cn_events w)"
  obtains r w' where "client_turn X w = (r, w')" "r \<noteq> Waits"
    "r = Done True \<Longrightarrow> calm w' \<and> cn_closed w' \<and> cn_events w' = cn_events w"
proof -
  obtain rl w1 where rd: "read_line w = (rl, w1)" "rl \<noteq> Waits" and w1: "calm w1" "cn_closed w1" "cn_events w1 = cn_events w"
    using read_line_ends [OF assms(1,2)] by blast
  show thesis
  proof (cases rl)
    case (Done line)
    show ?thesis
    proof (cases "line = []")
      case True
      with rd Done show ?thesis by (intro that [of "Done False" w1]) (simp_all add: client_turn_def await_def)
    next
      case False
      obtain r w' where reply: "client_reply X line w1 = (r, w')" "r \<noteq> Waits" "r = Done True \<Longrightarrow> \<exists>t. progress t w1 w'"
        using reply_ends [of w1 X line] w1 assms(3) by metis
      then have "client_turn X w = (r, w')" using rd Done False by (simp add: client_turn_def await_def)
      with reply w1 show ?thesis by (intro that [of r w']) (auto simp: progress_def)
    qed
  next
    case (Failed e)
    with rd show ?thesis by (intro that [of "Failed e" w1]) (simp_all add: client_turn_def await_def)
  qed (use rd in simp)
qed


section \<open>Queries\<close>

definition is_query :: "control_request \<Rightarrow> bool" where
  "is_query req \<longleftrightarrow>
     from_request req \<in> {Ping, DaemonStatus, Reload, PeerList, PeerShow, RibSummary, RibIn, RibOut, ArchiveStatus,
       ArchiveDestinations, Unsupported}"

definition reads :: "client \<Rightarrow> client \<Rightarrow> bool" where
  "reads w w' \<longleftrightarrow>
     (\<exists>n. w' = w\<lparr>cn_shared := (cn_shared w)\<lparr>sh_store := (sh_store (cn_shared w))\<lparr>w_step := n\<rparr>\<rparr>\<rparr>)"

lemma reads_refl [simp]: "reads w w"
proof -
  have "w = w\<lparr>cn_shared := (cn_shared w)\<lparr>sh_store := (sh_store (cn_shared w))\<lparr>w_step := w_step (sh_store (cn_shared w))\<rparr>\<rparr>\<rparr>"
    by simp
  then show ?thesis unfolding reads_def by blast
qed

interpretation reading: step_frame reads
proof
  show "reads a c" if "reads a b" "reads b c" for a b c using that by (auto simp: reads_def)
qed simp

lemma reading_status: "\<forall>w. reads w (snd (on_archive archive_status_op w))"
proof
  fix w :: client
  let ?s = "sh_service (cn_shared w)" and ?st = "sh_store (cn_shared w)"
  have obs: "observes (pending_count q)" for q
  proof -
    have "observes (table q)" by (rule observes_nothing) (simp add: table_def)
    then show ?thesis
      unfolding pending_count_def queue_open_def sql_def
      by (intro observes_and_then observes_in_context observes_syscall observes_pure)
  qed
  have "\<exists>n. snd (archive_status_op (?s, ?st)) = (?s, ?st\<lparr>w_step := n\<rparr>)"
  proof (cases "av_replicator ?s")
    case None
    have "snd (archive_status_op (?s, ?st)) = (?s, ?st\<lparr>w_step := w_step ?st\<rparr>)"
      using None by (simp add: archive_status_op_def and_then_def service_def)
    then show ?thesis ..
  next
    case (Some rp)
    obtain r st' where pc: "pending_count (rp_queue rp) ?st = (r, st')" by force
    from observesE [OF obs this] obtain n where "st' = ?st\<lparr>w_step := n\<rparr>" .
    with pc Some show ?thesis by (cases r) (auto simp: archive_status_op_def and_then_def service_def on_store_def)
  qed
  then show "reads w (snd (on_archive archive_status_op w))" by (auto simp: reads_def on_archive_snd)
qed

lemma reading_queries:
  "\<forall>w. reads w (snd (on_bgp (asks f) w))" "\<forall>w. reads w (snd (on_archive service w))"
  "(\<And>p. \<forall>w. reads w (snd (g p w))) \<Longrightarrow> \<forall>w. reads w (snd (with_peer_key S req g w))"
  "\<forall>w. reads w (snd (m w)) \<Longrightarrow> \<forall>w. reads w (snd (or_reply rid code m h w))"
  by (simp_all add: on_bgp_def on_archive_def service_def with_peer_key_def split: sum.splits)

text \<open>
  C22: queries change nothing. Handling a status, list or table request, a ping, \<^verbatim>\<open>reload\<close> or an
  unknown command leaves the connection, the archive service, the files, the queue and the
  table of the peers as they were, whether it succeeds or fails; only calls are counted.
\<close>

theorem queries_change_nothing:
  assumes "is_query req" "respond X req w = (r, w')"
  shows "\<exists>n. w' = w\<lparr>cn_shared := (cn_shared w)\<lparr>sh_store := (sh_store (cn_shared w))\<lparr>w_step := n\<rparr>\<rparr>\<rparr>"
proof -
  have "\<forall>w. reads w (snd (respond X req w))"
    using assms(1) unfolding respond_def Let_def is_query_def
    by (cases "from_request req"; simp only: command_kind.case)
       (simp | intro reading.frame_await reading.frame_basic reading_status reading_queries)+
  then show ?thesis using assms(2) unfolding reads_def by (metis snd_conv)
qed

section \<open>A disabled archive\<close>

text \<open>
  C39: a request for a snapshot drops the connection when the archive is disabled. The client
  gets no response, not even an error, and the requests after it are not read.
\<close>

theorem snapshot_when_disabled_drops_client:
  assumes "serde_laws (dx_serde X)" "calm w" "sx_show_request (dx_serde X) req = Inr t"
    and "cn_in w = t @ newline # rest" "req_cmd req = ''archive_snapshot_now''"
    and "\<And>k s. \<not> ac_enabled (av_cfg (sh_service (cn_others w k s)))"
  shows "\<exists>w'. handle_client X w = (Failed (Msg ''archive is disabled''), w') \<and>
    cn_out w' = cn_out w \<and> cn_in w' = rest"
proof -
  have t: "one_line t" "sx_request (dx_serde X) t = Inr req"
    using assms(1,3) unfolding serde_laws_def by (metis sum.inject(2))+
  let ?s = "cn_others w (cn_step w) (cn_shared w)"
  let ?w1 = "w\<lparr>cn_step := Suc (cn_step w), cn_shared := ?s, cn_in := rest\<rparr>"
  have rd: "read_line w = (Done (t @ [newline]), ?w1)"
    using assms(2,4) t(1)
    by (simp add: read_line_def await_def conn_io_def calm_def Let_def one_line_def first_line_append)
  have kind: "from_request req = ArchiveSnapshotNow" "\<not> subscribes req"
    using assms(5) by (simp_all add: from_request_def command_names_def subscribes_def)
  have "\<not> ac_enabled (av_cfg (sh_service ?s))" by (rule assms(6))
  then obtain w2 where rs: "respond X req ?w1 = (Failed (Msg ''archive is disabled''), w2)"
    "cn_out w2 = cn_out w" "cn_in w2 = rest"
    by (simp add: respond_def kind(1) await_def on_archive_def on_store_def utc_now_def snapshot_now_def
        and_then_def service_def)
  have "trim_end t = t" using t(1) by (simp add: one_line_def)
  then have "client_turn X w = (Failed (Msg ''archive is disabled''), w2)"
    using rd rs(1) t(2) kind(2) by (simp add: client_turn_def client_reply_def await_def)
  from handle_client_turn(3) [OF this] rs(2,3) show ?thesis by simp
qed

section \<open>The daemon starts\<close>

lemma cleanup_socket_runs:
  assumes "fault_free w"
  shows "\<exists>w'. cleanup_socket p w = (Inr (), w') \<and> w_files w' p = None \<and> fault_free w'"
  using assms
  by (auto simp: cleanup_socket_def path_exists_def and_then_def syscall_fault_free remove_file_def content_def
      in_context_def ok_or_def split: option.splits)

lemma bind_socket_runs:
  assumes "fault_free w" "w_files w p = None"
  shows "\<exists>w'. bind_socket p w = (Inr (), w') \<and> w_files w' p = Some [] \<and> fault_free w'"
  using assms by (auto simp: bind_socket_def and_then_def syscall_fault_free)

lemma focld_start_runs:
  assumes "fault_free w" "focl_load (dx_read_config X) (dx_from_toml X) (kx_net_parse (dx_bgp X)) config = Inr cfg"
    and "ac_enabled (fc_archive cfg)" "bg_aborted b = []"
    and "\<And>n. \<exists>p. segment_paths (ax_calendar (dx_archive X)) (fc_archive cfg) Updates (w_clock w n) = Inr p"
  shows "if \<forall>p \<in> set (fc_prefixes cfg). \<forall>nh. px_next_hop p = Some nh \<longrightarrow> parse_ip nh \<noteq> None
    then \<exists>s b' sock w' sw. focld_start X config b w = (Inr (s, b', sock), w') \<and>
      sock = gc_control_socket (fc_global cfg) \<and> w_files w' sock = Some [] \<and>
      av_updates_writer s = Some sw \<and> sw_record_count sw = 0 \<and>
      shared_ok (dx_archive X) (fc_archive cfg) (bg_global_asn b') (bg_router_id b') (bg_prefixes b')
        \<lparr>sh_service = s, sh_store = w', sh_bgp = b', sh_shutdown = 0\<rparr> \<and>
      fst ` set (bg_peers b') = pc_address ` {p \<in> set (fc_peers cfg). pc_enabled p} \<and>
      (\<exists>w''. focld_stop sock w' = (Inr (), w'') \<and> w_files w'' sock = None)
    else \<exists>e w'. focld_start X config b w = (Inl e, w')"
proof -
  have valid: "focl_validate (kx_net_parse (dx_bgp X)) cfg = Inr ()"
    using assms(2) by (auto simp: focl_load_def bind_res_Inr)
  obtain rid where rid: "parse_ipv4 (gc_router_id (fc_global cfg)) = Some rid"
    using valid by (auto simp: focl_validate_def)
  obtain s w1 sw where an: "archive_new (dx_archive X) (fc_archive cfg) rid w = (Inr s, w1)" "av_updates_writer s = Some sw"
    "sw_record_count sw = 0" "fault_free w1" using archive_new_runs [OF assms(1,3,5), of rid] by blast
  have load: "focld_start X config b w =
      and_then (lift_res (bgp_new (dx_bgp X) cfg b)) (\<lambda>b'.
      and_then (cleanup_socket (gc_control_socket (fc_global cfg))) (\<lambda>_.
      and_then (in_context (''failed binding control socket '' @ gc_control_socket (fc_global cfg))
        (bind_socket (gc_control_socket (fc_global cfg)))) (\<lambda>_.
        ret (s, b', gc_control_socket (fc_global cfg))))) w1"
    using assms(2) rid an(1) by (simp add: focld_start_def and_then_def)
  note new = bgp_new_starts [OF valid assms(4)]
  show ?thesis
  proof (cases "\<forall>p \<in> set (fc_prefixes cfg). \<forall>nh. px_next_hop p = Some nh \<longrightarrow> parse_ip nh \<noteq> None")
    case True
    obtain b' where run: "bgp_new (dx_bgp X) cfg b = Inr b'"
      using iffD2 [OF conjunct1 [OF new] True] ..
    note b' = run conjunct2 [OF new, rule_format, OF run]
    let ?p = "gc_control_socket (fc_global cfg)"
    obtain w2 where w2: "cleanup_socket ?p w1 = (Inr (), w2)" "w_files w2 ?p = None" "fault_free w2"
      using cleanup_socket_runs [OF an(4)] by blast
    obtain w3 where w3: "bind_socket ?p w2 = (Inr (), w3)" "w_files w3 ?p = Some []" "fault_free w3"
      using bind_socket_runs [OF w2(3,2)] by blast
    have "focld_start X config b w = (Inr (s, b', ?p), w3)"
      unfolding load using b'(1) w2(1) w3(1) by (simp add: and_then_def in_context_def)
    moreover have "\<exists>w''. focld_stop ?p w3 = (Inr (), w'') \<and> w_files w'' ?p = None"
      using cleanup_socket_runs [OF w3(3)] by (auto simp: focld_stop_def)
    moreover have "shared_ok (dx_archive X) (fc_archive cfg) (bg_global_asn b') (bg_router_id b') (bg_prefixes b')
        \<lparr>sh_service = s, sh_store = w3, sh_bgp = b', sh_shutdown = 0\<rparr>"
      using archive_new_service [OF an(1)] b'(2) by (simp add: shared_ok_def)
    ultimately show ?thesis unfolding if_P [OF True] using an(2,3) w3(2) conjunct1 [OF conjunct2 [OF b'(2)]] by blast
  next
    case False
    then have "\<nexists>b'. bgp_new (dx_bgp X) cfg b = Inr b'" using conjunct1 [OF new] by (simp only: not_False_eq_True)
    then obtain e where "bgp_new (dx_bgp X) cfg b = Inl e" by (cases "bgp_new (dx_bgp X) cfg b") blast+
    then have "focld_start X config b w = (Inl e, w1)" unfolding load by (simp add: and_then_def)
    then show ?thesis unfolding if_not_P [OF False] by blast
  qed
qed


section \<open>Witnesses\<close>

definition demo_daemon :: "(bytes, bytes, u16, bytes, attribute_value list, unit) daemon_ext" where
  "demo_daemon =
     \<lparr>dx_archive = demo_archive_ext, dx_bgp = demo_bgp_lib, dx_serde = demo_serde,
      dx_read_config = (\<lambda>p. Inr p), dx_from_toml = (\<lambda>_. Inr demo_config)\<rparr>"

lemma demo_daemon_simps [simp]:
  "dx_archive demo_daemon = demo_archive_ext" "dx_bgp demo_daemon = demo_bgp_lib" "dx_serde demo_daemon = demo_serde"
  "dx_read_config demo_daemon p = Inr p" "dx_from_toml demo_daemon t = Inr demo_config"
  by (simp_all add: demo_daemon_def)

definition demo_shared :: "archive_config \<Rightarrow> shared" where
  "demo_shared cfg =
     \<lparr>sh_service = fresh_service cfg (Ipv4 192 0 2 1) None, sh_store = demo_env Map.empty, sh_bgp = demo_bgp [],
      sh_shutdown = 0\<rparr>"

definition demo_client :: "archive_config \<Rightarrow> string \<Rightarrow> client" where
  "demo_client cfg text =
     \<lparr>cn_shared = demo_shared cfg, cn_in = text, cn_closed = True, cn_out = [], cn_events = [Lagged, Closed],
      cn_others = (\<lambda>_ s. s\<lparr>sh_service := fresh_service cfg (Ipv4 192 0 2 1) None\<rparr>), cn_fault = (\<lambda>_. None),
      cn_stall = (\<lambda>_. False), cn_part = (\<lambda>_. 0), cn_step = 0\<rparr>"

lemma demo_client_simps [simp]:
  "calm (demo_client cfg t)" "cn_in (demo_client cfg t) = t" "cn_closed (demo_client cfg t)" "cn_out (demo_client cfg t) = []"
  "cn_events (demo_client cfg t) = [Lagged, Closed]" "cn_shared (demo_client cfg t) = demo_shared cfg"
  "cn_others (demo_client cfg t) k s = s\<lparr>sh_service := fresh_service cfg (Ipv4 192 0 2 1) None\<rparr>"
  by (simp_all add: demo_client_def calm_def)

definition demo_request :: "string \<Rightarrow> control_request" where
  "demo_request cmd = \<lparr>req_version = 1, req_id = ''r'', req_cmd = cmd, req_args = JObj []\<rparr>"

abbreviation demo_line :: "string \<Rightarrow> string" where
  "demo_line cmd \<equiv> put_json (request_json (demo_request cmd))"

lemma demo_show [simp]: "sx_show_request demo_serde r = Inr (put_json (request_json r))"
  by (simp add: demo_serde_def)

lemma demo_shared_ok: "shared_ok demo_archive_ext cfg 65001 (bg_router_id (demo_bgp [])) [demo_entry] (demo_shared cfg)"
  using demo_peers_ok by (simp add: shared_ok_def demo_shared_def service_ok_def fresh_service_def)

theorem requests_keep_services_witness:
  "shared_ok demo_archive_ext default_archive 65001 (bg_router_id (demo_bgp [])) [demo_entry]
     (cn_shared (snd (handle_client demo_daemon (demo_client default_archive (demo_line ''peer_reset'' @ [newline])))))"
proof -
  have "shared_ok demo_archive_ext default_archive 65001 (bg_router_id (demo_bgp [])) [demo_entry] s \<Longrightarrow>
      shared_ok demo_archive_ext default_archive 65001 (bg_router_id (demo_bgp [])) [demo_entry]
        (s\<lparr>sh_service := fresh_service default_archive (Ipv4 192 0 2 1) None\<rparr>)" for s
    by (simp add: shared_ok_def service_ok_def fresh_service_def)
  then show ?thesis
    using requests_keep_services [of demo_daemon default_archive 65001 "bg_router_id (demo_bgp [])" "[demo_entry]"
      "demo_client default_archive (demo_line ''peer_reset'' @ [newline])"] demo_shared_ok by simp
qed

theorem responses_proper_witness:
  "\<exists>p w'. respond demo_daemon (demo_request ''ping'') (demo_client default_archive []) = (Done p, w') \<and> proper ''r'' p"
proof -
  obtain p w' where "respond demo_daemon (demo_request ''ping'') (demo_client default_archive []) = (Done p, w')"
    by (simp add: respond_def from_request_def command_names_def demo_request_def)
  with responses_proper [OF this] show ?thesis by (auto simp: demo_request_def)
qed

theorem requests_answered_in_order_witness:
  "\<exists>us. cn_out (snd (handle_client demo_daemon (demo_client default_archive (lines [demo_line ''ping'', demo_line ''reload''])))) =
     lines us \<and> length us \<le> 2"
proof -
  let ?ts = "[demo_line ''ping'', demo_line ''reload'']" and ?rs = "[demo_request ''ping'', demo_request ''reload'']"
  have "list_all2 (\<lambda>req t. sx_show_request (dx_serde demo_daemon) req = Inr t \<and> \<not> subscribes req) ?rs ?ts"
    by (simp add: subscribes_def demo_request_def)
  from requests_answered_in_order [OF _ _ _ _ this, of "demo_client default_archive (lines ?ts)"] obtain resps us where
    "list_all2 (\<lambda>p u. sx_show_response (dx_serde demo_daemon) p = Inr u) resps us"
    "cn_out (snd (handle_client demo_daemon (demo_client default_archive (lines ?ts)))) = lines us"
    "length resps \<le> length ?rs"
    using demo_serde_laws by (auto split: if_splits)
  moreover from this(1) have "length us = length resps" by (rule list_all2_lengthD [symmetric])
  ultimately show ?thesis by (intro exI [of _ us]) simp
qed


theorem queries_change_nothing_witness:
  "\<exists>n. snd (respond demo_daemon (demo_request ''archive_status'') (demo_client default_archive [])) =
     (demo_client default_archive [])\<lparr>cn_shared := (demo_shared default_archive)\<lparr>sh_store := (demo_env Map.empty)\<lparr>w_step := n\<rparr>\<rparr>\<rparr>"
proof -
  have "is_query (demo_request ''archive_status'')"
    by (simp add: is_query_def from_request_def command_names_def demo_request_def)
  from queries_change_nothing [OF this, of demo_daemon "demo_client default_archive []"] show ?thesis
    by (metis demo_client_simps(6) demo_shared_def prod.collapse shared.select_convs(2))
qed

theorem snapshot_when_disabled_drops_client_witness:
  "\<exists>w'. handle_client demo_daemon (demo_client default_archive (demo_line ''archive_snapshot_now'' @ newline # ''more'')) =
     (Failed (Msg ''archive is disabled''), w') \<and> cn_out w' = [] \<and> cn_in w' = ''more''"
proof -
  have "\<not> ac_enabled default_archive" by (simp add: default_archive_def)
  then show ?thesis
    using snapshot_when_disabled_drops_client [of demo_daemon
        "demo_client default_archive (demo_line ''archive_snapshot_now'' @ newline # ''more'')"
        "demo_request ''archive_snapshot_now''" "demo_line ''archive_snapshot_now''" "''more''"] demo_serde_laws
    by (simp add: fresh_service_def demo_request_def)
qed


end
