(* ===== verification/Cli.thy ===== *)
theory Cli
  imports Daemon_Properties
begin

text \<open>
  \<^verbatim>\<open>src/bin/focl.rs\<close>: the command line client. Its environment is the record \<open>cli\<close>: the process
  it runs in, the files it sees, the child processes it starts, the text it has sent to the
  daemon and the text the daemon sends, and what it prints. Arguments are parsed by the crate
  \<^verbatim>\<open>clap\<close>, which lets only the two names of the streams through (\<open>clap_accepts\<close>).
\<close>

datatype peer_commands = ListPeers | ShowPeer string | ResetPeer string

datatype rib_commands = SummaryOfRib | InRib string | OutRib string

datatype archive_commands = StatusOfArchive | RolloverArchive string | SnapshotArchive | ListDestinations | RetryArchive

datatype commands =
    StartDaemon path
  | StopDaemon
  | ReloadDaemon
  | PeerCommand peer_commands
  | RibCommand rib_commands
  | ArchiveCommand archive_commands

definition default_socket :: path where
  "default_socket = ''/tmp/focld.sock''"

definition default_config :: path where
  "default_config = ''focl.toml''"

record cli =
  cl_pid :: nat
  cl_nanos :: "int option"
  cl_current_exe :: "path result"
  cl_exists :: "path \<Rightarrow> bool"
  cl_spawn :: "path \<Rightarrow> path \<Rightarrow> nat result"
  cl_connect :: "path \<Rightarrow> unit result"
  cl_fault :: "nat \<Rightarrow> string option"
  cl_step :: nat
  cl_sent :: string
  cl_incoming :: string
  cl_ended :: bool
  cl_stdout :: string

section \<open>Commands as requests\<close>

definition peer_arg :: "string \<Rightarrow> json" where
  "peer_arg peer = JObj [(''peer'', JStr peer)]"

fun cli_request :: "commands \<Rightarrow> (string \<times> json) option" where
  "cli_request (StartDaemon config) = None"
| "cli_request StopDaemon = Some (''shutdown'', JObj [])"
| "cli_request ReloadDaemon = Some (''reload'', JObj [])"
| "cli_request (PeerCommand ListPeers) = Some (''peer_list'', JObj [])"
| "cli_request (PeerCommand (ShowPeer peer)) = Some (''peer_show'', peer_arg peer)"
| "cli_request (PeerCommand (ResetPeer peer)) = Some (''peer_reset'', peer_arg peer)"
| "cli_request (RibCommand SummaryOfRib) = Some (''rib_summary'', JObj [])"
| "cli_request (RibCommand (InRib peer)) = Some (''rib_in'', peer_arg peer)"
| "cli_request (RibCommand (OutRib peer)) = Some (''rib_out'', peer_arg peer)"
| "cli_request (ArchiveCommand StatusOfArchive) = Some (''archive_status'', JObj [])"
| "cli_request (ArchiveCommand (RolloverArchive stream)) =
     Some (''archive_rollover'', JObj [(''stream'', JStr stream)])"
| "cli_request (ArchiveCommand SnapshotArchive) = Some (''archive_snapshot_now'', JObj [])"
| "cli_request (ArchiveCommand ListDestinations) = Some (''archive_destinations'', JObj [])"
| "cli_request (ArchiveCommand RetryArchive) = Some (''archive_replicator_retry'', JObj [])"

fun clap_accepts :: "commands \<Rightarrow> bool" where
  "clap_accepts (ArchiveCommand (RolloverArchive stream)) \<longleftrightarrow> stream \<in> {''updates'', ''ribs''}"
| "clap_accepts _ \<longleftrightarrow> True"

section \<open>Talking to the daemon\<close>

definition uuid_like_id :: "cli \<Rightarrow> string" where
  "uuid_like_id w =
     ''req-'' @ show_nat (cl_pid w) @ ''-'' @ show_int (case cl_nanos w of Some n \<Rightarrow> n | None \<Rightarrow> 0)"

definition cli_io :: "(cli, unit) task" where
  "cli_io w =
     (let w' = w\<lparr>cl_step := Suc (cl_step w)\<rparr>
      in case cl_fault w (cl_step w) of Some m \<Rightarrow> (Failed (Msg m), w') | None \<Rightarrow> (Done (), w'))"

definition cli_write :: "string \<Rightarrow> (cli, unit) task" where
  "cli_write s = await cli_io (\<lambda>_. change (\<lambda>w. w\<lparr>cl_sent := cl_sent w @ s\<rparr>))"

definition cli_read_line :: "(cli, string) task" where
  "cli_read_line =
     await cli_io (\<lambda>_ w.
       let line = first_line (cl_incoming w); w' = w\<lparr>cl_incoming := drop (length line) (cl_incoming w)\<rparr>
       in if newline \<notin> set (cl_incoming w) \<and> \<not> cl_ended w then (Waits, w)
          else if \<not> valid_utf8 (map of_char line) then (Failed (Msg ''stream did not contain valid UTF-8''), w')
          else (Done line, w'))"

definition request_of :: "cli \<Rightarrow> string \<Rightarrow> json \<Rightarrow> control_request" where
  "request_of w cmd args = \<lparr>req_version = 1, req_id = uuid_like_id w, req_cmd = cmd, req_args = args\<rparr>"

definition send_control_request ::
  "'y serde_lib_scheme \<Rightarrow> path \<Rightarrow> string \<Rightarrow> json \<Rightarrow> (cli, control_response) task" where
  "send_control_request S socket cmd args =
     await (asks (\<lambda>w. cl_connect w socket)) (\<lambda>connected.
     await (of_result (with_context (''failed connecting to '' @ socket) connected)) (\<lambda>_.
     await (asks (\<lambda>w. request_of w cmd args)) (\<lambda>req.
     await (of_result (sx_show_request S req)) (\<lambda>payload.
     await (cli_write payload) (\<lambda>_.
     await (cli_write [newline]) (\<lambda>_.
     await cli_read_line (\<lambda>line.
       of_result (sx_response S (trim_end line)))))))))"

definition println :: "string \<Rightarrow> (cli, unit) task" where
  "println s = change (\<lambda>w. w\<lparr>cl_stdout := cl_stdout w @ s @ [newline]\<rparr>)"

definition print_response :: "'y serde_lib_scheme \<Rightarrow> control_response \<Rightarrow> (cli, unit) task" where
  "print_response S response =
     println (case sx_pretty_response S response of Inr s \<Rightarrow> s | Inl _ \<Rightarrow> ''{}'')"

definition locate_focld_binary :: "(cli, path) task" where
  "locate_focld_binary =
     await (asks cl_current_exe) (\<lambda>exe.
     await (of_result (with_context ''failed resolving current executable'' exe)) (\<lambda>current.
     await (asks cl_exists) (\<lambda>exists.
       done_with (if exists (set_file_name current ''focld'') then set_file_name current ''focld'' else ''focld''))))"

definition started :: "nat \<Rightarrow> string" where
  "started pid = [CHR 0x7B, CHR 0x22] @ ''started'' @ [CHR 0x22] @ '':true,'' @ [CHR 0x22] @ ''pid'' @ [CHR 0x22] @ '':'' @
     show_nat pid @ [CHR 0x7D]"

text \<open>Only the start of the daemon is not a request.\<close>

fun cli_main :: "'y serde_lib_scheme \<Rightarrow> path \<Rightarrow> commands \<Rightarrow> (cli, unit) task" where
  "cli_main S socket (StartDaemon config) =
     await locate_focld_binary (\<lambda>focld_bin.
     await (asks (\<lambda>w. cl_spawn w focld_bin config)) (\<lambda>child.
     await (of_result (with_context ''failed spawning focld'' child)) (\<lambda>pid.
       println (started pid))))"
| "cli_main S socket command =
     (case cli_request command of
        None \<Rightarrow> done_with ()
      | Some (cmd, args) \<Rightarrow>
          await (send_control_request S socket cmd args) (\<lambda>response. print_response S response))"

section \<open>Client and daemon together\<close>

definition misunderstood :: "control_response \<Rightarrow> bool" where
  "misunderstood p \<longleftrightarrow>
     (\<exists>e. resp_error p = Some e \<and> err_code e \<in> {''invalid_request'', ''invalid_args'', ''unsupported_command''})"

lemma understood_basic [simp]:
  "\<not> misunderstood (response_ok rid j)"
  "misunderstood (response_err rid code msg) \<longleftrightarrow> code \<in> {''invalid_request'', ''invalid_args'', ''unsupported_command''}"
  by (simp_all add: misunderstood_def response_ok_def response_err_def)

lemma yields_weaken: "yields (\<lambda>_. True) m \<Longrightarrow> (\<And>a. P a) \<Longrightarrow> yields P m"
  by (simp add: yields_def)

lemma understood_or_reply:
  assumes "yields (\<lambda>_. True) m" "code \<notin> {''invalid_request'', ''invalid_args'', ''unsupported_command''}"
    and "\<And>a. \<not> misunderstood (f a)"
  shows "yields (\<lambda>p. \<not> misunderstood p) (or_reply rid code m f)"
  using assms unfolding yields_def or_reply_def by (fastforce split: prod.splits outcome.splits)

lemma respond_understood:
  assumes "from_request req \<noteq> Unsupported"
    and "from_request req \<in> {PeerShow, PeerReset, RibIn, RibOut} \<Longrightarrow> \<exists>a. sx_peer_key (dx_serde X) (req_args req) = Inr a"
    and "from_request req = ArchiveRollover \<Longrightarrow> \<exists>a. sx_rollover (dx_serde X) (req_args req) = Inr a"
  shows "yields (\<lambda>p. \<not> misunderstood p) (respond X req)"
proof -
  have key: "yields P (with_peer_key (dx_serde X) req f)"
    if "from_request req \<in> {PeerShow, PeerReset, RibIn, RibOut}" "\<And>p. yields P (f p)" for f P
    using assms(2) that by (auto simp: with_peer_key_def)
  have stream: "yields P (case sx_rollover (dx_serde X) (req_args req) of Inl err \<Rightarrow> g err | Inr args \<Rightarrow> f args)"
    if "from_request req = ArchiveRollover" "\<And>a. yields P (f a)" for f g P
    using assms(3) that by auto
  have found: "\<not> misunderstood (case x of Some i \<Rightarrow> response_ok rid (g i) | None \<Rightarrow> response_err rid ''peer_not_found'' m)"
    for x g m rid by (simp split: option.splits)
  note rules = yields_await yields_services yields_if yields_done key stream understood_or_reply found understood_basic(1)
  show ?thesis
    using assms(1) unfolding respond_def Let_def
    by (cases "from_request req"; simp only: command_kind.case) (intro rules; simp)+
qed

lemma cli_request_kind:
  assumes "cli_request c = Some (cmd, args)"
  shows "from_request (request_of w cmd args) \<noteq> Unsupported"
    and "from_request (request_of w cmd args) \<in> {PeerShow, PeerReset, RibIn, RibOut} \<Longrightarrow> \<exists>p. args = peer_arg p"
    and "from_request (request_of w cmd args) = ArchiveRollover \<Longrightarrow>
      \<exists>s. c = ArchiveCommand (RolloverArchive s) \<and> args = JObj [(''stream'', JStr s)]"
  using assms
  by (cases c rule: cli_request.cases; auto simp: from_request_def command_names_def request_of_def)+

lemma cli_request_understood:
  assumes "serde_laws (dx_serde X)" "cli_request c = Some (cmd, args)" "clap_accepts c"
  shows "yields (\<lambda>p. \<not> misunderstood p) (respond X (request_of w cmd args))"
    and "\<not> subscribes (request_of w cmd args)"
proof -
  let ?r = "request_of w cmd args"
  have args: "req_args ?r = args" by (simp add: request_of_def)
  show "yields (\<lambda>p. \<not> misunderstood p) (respond X ?r)"
  proof (rule respond_understood)
    show "from_request ?r \<noteq> Unsupported" by (rule cli_request_kind(1) [OF assms(2)])
  next
    assume "from_request ?r \<in> {PeerShow, PeerReset, RibIn, RibOut}"
    from cli_request_kind(2) [OF assms(2) this] obtain p where "args = peer_arg p" by blast
    then show "\<exists>a. sx_peer_key (dx_serde X) (req_args ?r) = Inr a"
      using assms(1) unfolding args serde_laws_def peer_arg_def by blast
  next
    assume "from_request ?r = ArchiveRollover"
    from cli_request_kind(3) [OF assms(2) this] assms(3) obtain s where
      "args = JObj [(''stream'', JStr s)]" "s \<in> {''updates'', ''ribs''}" by auto
    then show "\<exists>a. sx_rollover (dx_serde X) (req_args ?r) = Inr a"
      using assms(1) unfolding args serde_laws_def by blast
  qed
  show "\<not> subscribes ?r" using cli_request_kind(1) [OF assms(2)] by (simp add: subscribes_def)
qed

text \<open>After its only request has been answered, the daemon sends nothing more.\<close>

lemma idle_connection:
  assumes "calm w" "cn_in w = []"
  shows "cn_out (snd (handle_client X w)) = cn_out w"
proof -
  obtain w1 where conn: "conn_io w = (Done (), w1)" "progress [] w w1" using conn_io_calm [OF assms(1)] by blast
  show ?thesis
  proof (cases "cn_closed w")
    case True
    then obtain w2 where "read_line w = (Done [], w2)" "progress [] w w2" using read_line_end [OF assms] by blast
    then have "client_turn X w = (Done False, w2)" "cn_out w2 = cn_out w"
      by (simp_all add: client_turn_def await_def progress_def)
    then show ?thesis by (simp add: handle_client_turn(2))
  next
    case False
    then have "client_turn X w = (Waits, w1)" "cn_out w1 = cn_out w"
      using conn assms(2) by (simp_all add: client_turn_def read_line_def await_def Let_def progress_def)
    then show ?thesis by (simp add: handle_client_turn(4))
  qed
qed

definition cli_calm :: "cli \<Rightarrow> bool" where
  "cli_calm v \<longleftrightarrow> (\<forall>k. cl_fault v k = None)"

lemma cli_io_calm: "cli_calm v \<Longrightarrow> cli_io v = (Done (), v\<lparr>cl_step := Suc (cl_step v)\<rparr>)"
  by (simp add: cli_io_def cli_calm_def)

lemma cli_calm_step [simp]:
  "cli_calm (v\<lparr>cl_step := n\<rparr>) = cli_calm v" "cli_calm (v\<lparr>cl_sent := s\<rparr>) = cli_calm v"
  by (simp_all add: cli_calm_def)

lemma cli_write_calm: "cli_calm v \<Longrightarrow> cli_write s v = (Done (), v\<lparr>cl_step := Suc (cl_step v), cl_sent := cl_sent v @ s\<rparr>)"
  by (simp add: cli_write_def await_run(1) [OF cli_io_calm])

lemma cli_read_line_calm:
  assumes "cli_calm v" "cl_incoming v = u @ newline # r" "one_line u"
  shows "cli_read_line v = (Done (u @ [newline]), v\<lparr>cl_step := Suc (cl_step v), cl_incoming := r\<rparr>)"
  using assms by (simp add: cli_read_line_def await_run(1) [OF cli_io_calm] one_line_def first_line_append Let_def)

lemma cli_read_line_dropped:
  assumes "cli_calm v" "cl_incoming v = []" "cl_ended v"
  shows "cli_read_line v = (Done [], v\<lparr>cl_step := Suc (cl_step v), cl_incoming := []\<rparr>)"
  using assms by (simp add: cli_read_line_def await_run(1) [OF cli_io_calm] first_line_def Let_def)

lemma send_control_request_run:
  assumes "cli_calm v" "cl_connect v sock = Inr ()" "sx_show_request S (request_of v cmd args) = Inr t"
  shows "\<exists>v1. send_control_request S sock cmd args v =
      await cli_read_line (\<lambda>line. of_result (sx_response S (trim_end line))) v1 \<and> cli_calm v1 \<and>
      cl_sent v1 = cl_sent v @ t @ [newline] \<and> cl_incoming v1 = cl_incoming v \<and> cl_ended v1 = cl_ended v"
proof -
  let ?v1 = "v\<lparr>cl_step := Suc (cl_step v), cl_sent := cl_sent v @ t\<rparr>"
  have "cli_write t v = (Done (), ?v1)" by (rule cli_write_calm [OF assms(1)])
  moreover have "cli_write [newline] ?v1 =
      (Done (), ?v1\<lparr>cl_step := Suc (cl_step ?v1), cl_sent := cl_sent ?v1 @ [newline]\<rparr>)"
    using assms(1) by (intro cli_write_calm) simp
  ultimately show ?thesis
    using assms
    by (intro exI [of _ "?v1\<lparr>cl_step := Suc (cl_step ?v1), cl_sent := cl_sent ?v1 @ [newline]\<rparr>"])
       (simp add: send_control_request_def await_run(1) with_context_def)
qed

text \<open>
  C13: client and daemon understand each other. A command of the client that is a request is sent
  as one line; the daemon, connected over a socket without faults, and the client reading what
  the daemon sends, the client returns with the response that handling the request gave, under
  the id of its request, and never with one that says that the request was not understood. Or
  the daemon has dropped the connection because handling failed, and the client reports an
  error. It is never left waiting.
\<close>

theorem cli_command_answered:
  assumes "serde_laws (dx_serde X)" "cli_request c = Some (cmd, args)" "clap_accepts c"
    and "cli_calm v" "cl_connect v sock = Inr ()" "sx_show_request (dx_serde X) (request_of v cmd args) = Inr t"
    and "calm w" "cn_out w = []" "cn_in w = t @ [newline]"
    and "cl_incoming v = cn_out (snd (handle_client X w))" "cl_ended v \<longleftrightarrow> fst (handle_client X w) \<noteq> Waits"
  shows "\<exists>r v'. send_control_request (dx_serde X) sock cmd args v = (r, v') \<and> cl_sent v' = cl_sent v @ cn_in w \<and>
    (case r of
       Done p \<Rightarrow> answers X (request_of v cmd args) p \<and> \<not> misunderstood p
     | Failed _ \<Rightarrow> \<exists>e. fst (handle_client X w) = Failed e
     | Waits \<Rightarrow> False)"
proof -
  let ?r = "request_of v cmd args" and ?S = "dx_serde X"
  note und = cli_request_understood [OF assms(1,2,3), of v]
  obtain v1 where v1: "send_control_request ?S sock cmd args v =
      await cli_read_line (\<lambda>line. of_result (sx_response ?S (trim_end line))) v1" "cli_calm v1"
      "cl_sent v1 = cl_sent v @ cn_in w" "cl_incoming v1 = cl_incoming v" "cl_ended v1 = cl_ended v"
    using send_control_request_run [OF assms(4,5,6)] assms(9) by auto
  have inp: "cn_in w = t @ newline # []" using assms(9) by simp
  show ?thesis
  proof (cases rule: request_turn [OF assms(1,7,6) und(2) inp, case_names answered broken])
    case (answered p u w')
    have p: "\<not> misunderstood p" "resp_result p \<noteq> Some JNull"
    proof -
      from answered(2) obtain a b where run: "respond X ?r a = (Done p, b)" by (auto simp: answers_def)
      with und(1) show "\<not> misunderstood p" unfolding yields_def by blast
      from run respond_yields [of ?r X] have "proper (req_id ?r) p" unfolding yields_def by blast
      then show "resp_result p \<noteq> Some JNull" by (auto simp: proper_def well_formed_def split: if_splits)
    qed
    have u: "one_line u" "sx_response ?S u = Inr p"
      using assms(1) answered(3) p(2) unfolding serde_laws_def by (metis sum.inject(2))+
    have "cn_out (snd (handle_client X w)) = u @ [newline]"
      unfolding handle_client_turn(1) [OF answered(1)]
      using idle_connection [OF answered(6,5), of X] answered(4) assms(8) by simp
    then have "cl_incoming v1 = u @ newline # []" using v1(4) assms(10) by simp
    from cli_read_line_calm [OF v1(2) this u(1)] u have
      "send_control_request ?S sock cmd args v = (Done p, v1\<lparr>cl_step := Suc (cl_step v1), cl_incoming := []\<rparr>)"
      unfolding v1(1) by (simp add: await_def one_line_def)
    with v1(3) answered(2) p(1) show ?thesis by auto
  next
    case (broken e w')
    note drop = handle_client_turn(3) [OF broken(1)]
    have "cl_incoming v1 = []" "cl_ended v1" using v1(4,5) assms(8,10,11) broken(2) drop by simp_all
    note rd = cli_read_line_dropped [OF v1(2) this]
    obtain e' where "sx_response ?S [] = Inl e'" using assms(1) unfolding serde_laws_def by blast
    with rd have "send_control_request ?S sock cmd args v = (Failed e', v1\<lparr>cl_step := Suc (cl_step v1), cl_incoming := []\<rparr>)"
      unfolding v1(1) by (simp add: await_def trim_end_def)
    with v1(3) drop show ?thesis by auto
  qed
qed

section \<open>Witness\<close>

definition demo_cli :: cli where
  "demo_cli =
     \<lparr>cl_pid = 7, cl_nanos = None, cl_current_exe = Inr ''/usr/bin/focl'', cl_exists = (\<lambda>_. True),
      cl_spawn = (\<lambda>_ _. Inr 8), cl_connect = (\<lambda>_. Inr ()), cl_fault = (\<lambda>_. None), cl_step = 0, cl_sent = [],
      cl_incoming = [], cl_ended = False, cl_stdout = []\<rparr>"

text \<open>The daemon's side of the demonstration, and the client that reads what it sends.\<close>

definition demo_served :: client where
  "demo_served = demo_client default_archive (put_json (request_json (request_of demo_cli ''rib_summary'' (JObj []))) @ [newline])"

definition demo_reader :: cli where
  "demo_reader = demo_cli\<lparr>cl_incoming := cn_out (snd (handle_client demo_daemon demo_served)),
     cl_ended := fst (handle_client demo_daemon demo_served) \<noteq> Waits\<rparr>"

theorem cli_command_answered_witness:
  "\<exists>r v'. send_control_request demo_serde default_socket ''rib_summary'' (JObj []) demo_reader = (r, v') \<and> r \<noteq> Waits \<and>
     (\<forall>p. r = Done p \<longrightarrow> \<not> misunderstood p)"
proof -
  have same: "request_of demo_reader ''rib_summary'' (JObj []) = request_of demo_cli ''rib_summary'' (JObj [])"
    by (simp add: request_of_def uuid_like_id_def demo_reader_def)
  have served: "calm demo_served" "cn_out demo_served = []"
    "cn_in demo_served = put_json (request_json (request_of demo_cli ''rib_summary'' (JObj []))) @ [newline]"
    by (simp_all add: demo_served_def)
  have reader: "cli_calm demo_reader" "cl_connect demo_reader default_socket = Inr ()"
    "cl_incoming demo_reader = cn_out (snd (handle_client demo_daemon demo_served))"
    "cl_ended demo_reader \<longleftrightarrow> fst (handle_client demo_daemon demo_served) \<noteq> Waits"
    by (simp_all add: demo_reader_def demo_cli_def cli_calm_def)
  have "serde_laws (dx_serde demo_daemon)" "cli_request (RibCommand SummaryOfRib) = Some (''rib_summary'', JObj [])"
    "clap_accepts (RibCommand SummaryOfRib)"
    "sx_show_request (dx_serde demo_daemon) (request_of demo_reader ''rib_summary'' (JObj [])) =
       Inr (put_json (request_json (request_of demo_cli ''rib_summary'' (JObj []))))"
    using demo_serde_laws by (simp_all add: same)
  from cli_command_answered [OF this(1-3) reader(1,2) this(4) served reader(3,4)] obtain r v' where
    "send_control_request demo_serde default_socket ''rib_summary'' (JObj []) demo_reader = (r, v')"
    "case r of Done p \<Rightarrow> answers demo_daemon (request_of demo_reader ''rib_summary'' (JObj [])) p \<and> \<not> misunderstood p
     | Failed _ \<Rightarrow> \<exists>e. fst (handle_client demo_daemon demo_served) = Failed e | Waits \<Rightarrow> False"
    by auto
  then show ?thesis by (cases r) auto
qed

end
