(* ===== verification/Spec2Isabelle.thy ===== *)
theory Spec2Isabelle
  imports Cli
begin

text \<open>
  A verification development of focl, a BGP daemon that announces prefixes, keeps an archive of
  MRT files and replicates it, with a control socket and a command line client
  (\<^verbatim>\<open>src/src/\<close>).

  \<^bold>\<open>The program.\<close> \<^verbatim>\<open>bin/focld.rs\<close> loads and validates a configuration (\<^verbatim>\<open>config/mod.rs\<close>), starts the
  archive service (\<^verbatim>\<open>archive/mod.rs\<close>) and the BGP service (\<^verbatim>\<open>bgp/mod.rs\<close>), binds a Unix socket and
  serves requests on it (\<^verbatim>\<open>control/mod.rs\<close>, \<^verbatim>\<open>types.rs\<close>). The archive cuts time into buckets, writes the
  records of a bucket to a temporary segment and publishes it with a manifest when the bucket
  is over (\<^verbatim>\<open>archive/layout.rs\<close>, \<^verbatim>\<open>writer.rs\<close>, \<^verbatim>\<open>manifest.rs\<close>, \<^verbatim>\<open>snapshot.rs\<close>); published segments are
  queued in a database and copied to further destinations (\<^verbatim>\<open>queue.rs\<close>, \<^verbatim>\<open>replicator.rs\<close>). The BGP
  service runs a task per peer that connects or accepts, exchanges OPEN and KEEPALIVE, announces
  the prefixes and keeps the session (\<^verbatim>\<open>bgp/auth.rs\<close> for TCP MD5). \<^verbatim>\<open>bin/focl.rs\<close> turns commands into
  requests.

  \<^bold>\<open>Conventions.\<close> A Rust \<^verbatim>\<open>Result\<close> is a sum with the error on the left, and a panic is an error of its
  own. Strings are lists of bytes; integers have their width as words, where signed ones are
  integers with the wrap-around written out. Code that acts on the outside is a function on a
  state: files, clock, database, object store and events are the records \<open>world\<close> and \<open>store\<close>,
  a peer's network is the record \<open>net\<close>, a control connection the record \<open>client\<close>, the process
  of the command line client the record \<open>cli\<close>. Their calls are numbered, and from the number the
  environment decides whether a call fails, how long it takes and how much it transfers: no
  theorem assumes anything about these, unless it says so (\<open>fault_free\<close>, \<open>calm\<close>, \<open>net_free\<close>).
  Third-party code is a parameter: compression and digest, \<^verbatim>\<open>serde_json\<close>, the MRT and BGP encoders
  of \<^verbatim>\<open>bgpkit-parser\<close>, \<^verbatim>\<open>ipnet\<close>, \<^verbatim>\<open>chrono\<close>, the order of hash maps. What is assumed of it is named
  (\<open>digest_laws\<close>, \<open>json_laws\<close>, \<open>compress_laws\<close>, \<open>serde_laws\<close> and others), and a concrete instance in
  the witnesses shows that the laws can hold.

  \<^bold>\<open>Theories.\<close>
  \<^item> \<open>Prelude\<close>, \<open>Rust_Strings\<close>, \<open>Rust_Path\<close>, \<open>Rust_Net\<close>, \<open>Calendar\<close>: results and the state monad with their
    inversion rules, big-endian numbers, and what the code uses of the standard library: text,
    numbers as text, paths, addresses and their parsers, civil dates.
  \<^item> \<open>Types\<close>, \<open>Config\<close>, \<open>Archive_Types\<close>: the data of the program, and validation, which is shown
    equivalent to a declarative predicate.
  \<^item> \<open>World\<close>, \<open>Codec\<close>: the environment of the archive; a format for witnesses.
  \<^item> \<open>Layout\<close>: buckets and the paths of segments: bucket boundaries, injectivity of the names.
  \<^item> \<open>Manifest\<close>, \<open>Writer\<close>: a segment from its creation to its publication: whatever fails, it
    appears under its final name only complete; without faults it is published.
  \<^item> \<open>Queue\<close>: the table of jobs refines an abstract queue (\<open>implements\<close>); the locale \<open>queue_service\<close> is
    what its users rely on, interpreted on the table's operations; claims are exclusive.
  \<^item> \<open>Replicator\<close>: rounds of replication over that interface (locale \<open>settlement\<close>): no job is lost, all
    are settled, without faults all are delivered.
  \<^item> \<open>Snapshot\<close>: MRT records and routing table dumps, and a reader that takes them apart.
  \<^item> \<open>Archive\<close>, \<open>Archive_Properties\<close>: the service: its invariant under every operation, and that what is
    ingested is in the published segment.
  \<^item> \<open>Async\<close>: asynchronous computations that are done, have failed or wait, and the locale
    \<open>step_frame\<close> for relations that pass from the parts of a computation to the whole.
  \<^item> \<open>Auth\<close>, \<open>Bgp\<close>, \<open>Bgp_Wire\<close>, \<open>Bgp_Session\<close>, \<open>Bgp_Peers\<close>: TCP MD5, the BGP service, framing of messages,
    sessions and the states they report (the step relation \<open>fsm\<close>), the table of the peers under
    interleaved updates (the step relation \<open>peers_step\<close>).
  \<^item> \<open>Control\<close>, \<open>Json_Text\<close>: requests, arguments and results; a text format for witnesses.
  \<^item> \<open>Daemon\<close>, \<open>Daemon_Properties\<close>: a control connection, start and end of the daemon. The locales
    \<open>services\<close>, \<open>replies\<close> and \<open>handler\<close> say what a relation on states must satisfy at the calls on the
    services and on the connection to hold over a request, a reply, a whole connection; they are
    interpreted for termination, for the invariants and for what a request leaves alone.
  \<^item> \<open>Cli\<close>: the client, and client and daemon together.
  \<^item> This theory: the life of the daemon as a step relation over all its tasks.

  \<^bold>\<open>Bounds and loops.\<close> The loop over a connection is a total function: each turn takes text off the
  input. The loops of a peer's task need not end; they are followed for a number of rounds, and
  a computation whose rounds are used up waits. Properties about them hold for every number of
  rounds; where a session ends by its hold timer, the rounds that suffice are stated.
  Partial reads while hashing are bounded by the length of the file.

  \<^bold>\<open>Interleaving.\<close> Tasks share the archive service, the store and the table of the peers. A
  connection's handler is interleaved with the other tasks at its calls on the connection; the
  operations of the services are one step each, except that a reset of a peer is split into its two
  locked sections in \<open>peers_step\<close>.

  \<^bold>\<open>Not modelled.\<close> The log, the signal handler, the parsing of TOML and of command line arguments,
  directories as entries of the file system, raw descriptors, the stub for systems without TCP
  MD5, the tests.
\<close>

section \<open>The daemon in the course of time\<close>

text \<open>
  What the tasks of a running daemon do to the shared state, one step after the other: a tick of
  the archive's scheduler, a round of the replicator, a locked section of a peer's task on the
  table of the peers, and a request of some client. Every call of them may fail.
\<close>

inductive daemon_step ::
  "('h, 'm, 's, 'a, 'at, 'n) daemon_ext \<Rightarrow> shared \<Rightarrow> shared \<Rightarrow> bool" for X where
  scheduled: "archive_tick (dx_archive X) (sh_service s, sh_store s) = (r, (a, st)) \<Longrightarrow>
    daemon_step X s (s\<lparr>sh_service := a, sh_store := st\<rparr>)"
| replicated: "av_replicator (sh_service s) = Some rp \<Longrightarrow> run_once (ax_writer (dx_archive X)) rp (sh_store s) = (r, st) \<Longrightarrow>
    daemon_step X s (s\<lparr>sh_store := st\<rparr>)"
| peer_task: "peers_step (sh_bgp s, []) (b, []) \<Longrightarrow> daemon_step X s (s\<lparr>sh_bgp := b\<rparr>)"
| requested: "cn_shared w = s \<Longrightarrow> respond X req w = (r, w') \<Longrightarrow> daemon_step X s (cn_shared w')"

text \<open>Nothing has been written to the open segment.\<close>

definition unwritten :: "archive_service \<Rightarrow> bool" where
  "unwritten s \<longleftrightarrow> (\<forall>sw. av_updates_writer s = Some sw \<longrightarrow> sw_record_count sw = 0 \<and> enc_written (sw_encoder sw) = [])"

definition leaves_unwritten :: "('z service_state, 'b) io \<Rightarrow> bool" where
  "leaves_unwritten m \<longleftrightarrow> (\<forall>s w. unwritten s \<longrightarrow> unwritten (fst (snd (m (s, w)))))"

named_theorems unwritten_intros "operations that write no record to the open segment"

lemma unwritten_and_then [unwritten_intros]:
  assumes "leaves_unwritten m" "\<And>a. leaves_unwritten (f a)"
  shows "leaves_unwritten (and_then m f)"
  unfolding leaves_unwritten_def
proof (intro allI impI)
  fix s w assume "unwritten s"
  obtain r s1 w1 where m: "m (s, w) = (r, (s1, w1))" by (metis surj_pair)
  with assms(1) \<open>unwritten s\<close> have "unwritten s1" unfolding leaves_unwritten_def by (metis fst_conv snd_conv)
  with assms(2) m show "unwritten (fst (snd (and_then m f (s, w))))"
    unfolding leaves_unwritten_def by (cases r) (auto simp: and_then_def)
qed

lemma unwritten_basic [unwritten_intros]:
  "leaves_unwritten (ret a)" "leaves_unwritten (fail e)" "leaves_unwritten (lift_res x)" "leaves_unwritten service"
  "leaves_unwritten (on_store n)" "leaves_unwritten (service_emit ev)" "leaves_unwritten (emit_finalized stream f)"
  by (auto simp: leaves_unwritten_def lift_res_def service_def on_store_def service_emit_def emit_finalized_def
      split: prod.splits)

lemma unwritten_enqueue [unwritten_intros]: "leaves_unwritten (enqueue_finalized f)"
  unfolding leaves_unwritten_def using enqueue_finalized_service by (metis prod.collapse)

lemma unwritten_update [unwritten_intros]:
  "(\<And>s. av_updates_writer (f s) = av_updates_writer s) \<Longrightarrow> leaves_unwritten (update_service f)"
  by (simp add: leaves_unwritten_def update_service_def unwritten_def)

lemma unwritten_branch [unwritten_intros]:
  "leaves_unwritten m \<Longrightarrow> leaves_unwritten n \<Longrightarrow> leaves_unwritten (if b then m else n)"
  "leaves_unwritten m \<Longrightarrow> (\<And>x. leaves_unwritten (g x)) \<Longrightarrow> leaves_unwritten (case o1 of None \<Rightarrow> m | Some x \<Rightarrow> g x)"
  "leaves_unwritten m \<Longrightarrow> leaves_unwritten n \<Longrightarrow> leaves_unwritten (case stream of Updates \<Rightarrow> m | Ribs \<Rightarrow> n)"
  by (simp_all split: option.splits archive_stream.splits)

lemma unwritten_close [unwritten_intros]: "leaves_unwritten (close_updates E now)"
  unfolding leaves_unwritten_def
proof (intro allI impI)
  fix s w
  obtain r s' w' where "close_updates E now (s, w) = (r, (s', w'))" by (metis surj_pair)
  then show "unwritten (fst (snd (close_updates E now (s, w))))" using close_updates_service by (fastforce simp: unwritten_def)
qed

lemma unwritten_open [unwritten_intros]: "leaves_unwritten (open_updates E now b)"
  unfolding leaves_unwritten_def
proof (intro allI impI)
  fix s w assume s: "unwritten s"
  obtain r s' w' where run: "open_updates E now b (s, w) = (r, (s', w'))" by (metis surj_pair)
  show "unwritten (fst (snd (open_updates E now b (s, w))))"
  proof (cases r)
    case (Inl e)
    with run s open_updates_Inl [of E now b s w e s' w'] show ?thesis by simp
  next
    case (Inr u)
    with run obtain paths w1 sw where "segment_writer_new (av_cfg s) Updates b paths w1 = (Inr sw, w')"
      "s' = s\<lparr>av_updates_writer := Some sw\<rparr>" by (auto simp: open_updates_def io_simps)
    with run segment_writer_new_Inr [OF this(1)] show ?thesis by (simp add: unwritten_def)
  qed
qed

lemma unwritten_ensure [unwritten_intros]: "leaves_unwritten (ensure_updates_writer E now)"
  unfolding ensure_updates_writer_def by (intro unwritten_intros)

lemma unwritten_operations:
  "leaves_unwritten (snapshot_now E input)" "leaves_unwritten (rollover E stream)" "leaves_unwritten (archive_tick E)"
  "leaves_unwritten archive_status_op" "leaves_unwritten retry_failed_replications"
  unfolding snapshot_now_def write_snapshot_def rollover_def rotate_updates_def archive_tick_def archive_status_op_def
    retry_failed_replications_def
  by (intro unwritten_intros; simp)+

text \<open>The invariant of the whole daemon.\<close>

definition daemon_ok ::
  "('h, 'm, 's, 'a) archive_ext \<Rightarrow> archive_config \<Rightarrow> u32 \<Rightarrow> ipv4_addr \<Rightarrow> prefix_entry list \<Rightarrow> shared \<Rightarrow> bool" where
  "daemon_ok E cfg asn rid ps s \<longleftrightarrow> shared_ok E cfg asn rid ps s \<and> unwritten (sh_service s)"

definition passes_on :: "(shared \<Rightarrow> bool) \<Rightarrow> client \<Rightarrow> client \<Rightarrow> bool" where
  "passes_on I w w' \<longleftrightarrow> (I (cn_shared w) \<longrightarrow> I (cn_shared w'))"

lemma archive_call_ok:
  assumes "keeps E m" "leaves_unwritten m" "daemon_ok E cfg asn rid ps s" "m (sh_service s, sh_store s) = (r, (a, st))"
  shows "daemon_ok E cfg asn rid ps (s\<lparr>sh_service := a, sh_store := st\<rparr>)"
proof -
  have "service_ok E (sh_service s)" "unwritten (sh_service s)" using assms(3) by (simp_all add: daemon_ok_def shared_ok_def)
  moreover from this(1) have "service_ok E a \<and> av_cfg a = av_cfg (sh_service s)"
    using assms(1,4) unfolding keeps_def by blast
  moreover have "unwritten a" using assms(2,4) \<open>unwritten (sh_service s)\<close> unfolding leaves_unwritten_def
    by (metis fst_conv snd_conv)
  ultimately show ?thesis using assms(3) by (simp add: daemon_ok_def shared_ok_def)
qed

lemma passes_on_archive:
  assumes "keeps E m" "leaves_unwritten m"
  shows "\<forall>w. passes_on (daemon_ok E cfg asn rid ps) w (snd (on_archive m w))"
proof
  fix w :: client
  obtain r a st where m: "m (sh_service (cn_shared w), sh_store (cn_shared w)) = (r, (a, st))" by (metis surj_pair)
  then show "passes_on (daemon_ok E cfg asn rid ps) w (snd (on_archive m w))"
    using archive_call_ok [OF assms _ m] by (simp add: passes_on_def on_archive_snd)
qed

lemma passes_on_services: "services (passes_on (daemon_ok E cfg asn rid ps)) E"
proof
  let ?R = "passes_on (daemon_ok E cfg asn rid ps)"
  show "?R a c" if "?R a b" "?R b c" for a b c using that by (simp add: passes_on_def)
  show "\<forall>w. ?R w (snd (on_bgp (peer_reset p) w))" for p
    using peer_reset_keeps by (auto simp: passes_on_def daemon_ok_def shared_ok_def on_bgp_snd)
qed (simp_all add: passes_on_archive keeps_status keeps_retry keeps_rollover keeps_snapshot keeps_basic
       unwritten_operations unwritten_basic,
     simp_all add: passes_on_def daemon_ok_def shared_ok_def send_shutdown_def)

interpretation life: services "passes_on (daemon_ok E cfg asn rid ps)" E
  for E :: "('h, 'm, 's, 'a) archive_ext" and cfg asn rid ps
  by (rule passes_on_services)

lemma peers_step_keeps:
  assumes "peers_step (b, []) (b', [])" "peers_ok b"
  shows "peers_ok b' \<and> bg_global_asn b' = bg_global_asn b \<and> bg_router_id b' = bg_router_id b \<and> bg_prefixes b' = bg_prefixes b"
proof -
  have "history_ok (b, [])" using assms(2) by (simp add: history_ok_def)
  from peers_step_history [OF assms(1) this] have "peers_ok b'" by (simp add: history_ok_def)
  moreover from assms(1) have "bg_global_asn b' = bg_global_asn b \<and> bg_router_id b' = bg_router_id b \<and> bg_prefixes b' = bg_prefixes b"
    by cases (auto simp: set_peer_state_def reset_remove_def split: if_splits option.splits)
  ultimately show ?thesis by simp
qed

lemma daemon_step_ok:
  assumes "daemon_step X s s'" "daemon_ok (dx_archive X) cfg asn rid ps s"
  shows "daemon_ok (dx_archive X) cfg asn rid ps s'"
  using assms
proof cases
  case (scheduled r a st)
  with archive_call_ok [OF keeps_tick unwritten_operations(3) assms(2) scheduled(2)] show ?thesis by simp
next
  case (replicated rp r st)
  with assms(2) show ?thesis by (simp add: daemon_ok_def shared_ok_def)
next
  case (peer_task b)
  with assms(2) peers_step_keeps [OF peer_task(2)] show ?thesis by (simp add: daemon_ok_def shared_ok_def)
next
  case (requested w req r w')
  with assms(2) life.frame_respond [OF HOL.refl, of X cfg asn rid ps req] show ?thesis
    unfolding passes_on_def by (metis snd_conv)
qed

lemma archive_new_unwritten:
  assumes "archive_new E cfg bgp_id w = (Inr s, w')"
  shows "unwritten s"
proof -
  obtain rp w1 where st: "start_replicator E cfg w = (Inr rp, w1)"
    using assms by (auto simp: archive_new_def split: prod.splits sum.splits)
  let ?s = "fresh_service cfg bgp_id rp" and ?m = "and_then (on_store utc_now) (ensure_updates_writer E)"
  have fresh: "unwritten ?s" by (simp add: unwritten_def fresh_service_def)
  obtain r2 s2 w2 where en: "?m (?s, w1) = (r2, (s2, w2))" by (metis surj_pair)
  have "leaves_unwritten ?m" by (intro unwritten_intros)
  with fresh en have "unwritten s2" unfolding leaves_unwritten_def by (metis fst_conv snd_conv)
  moreover have "s = ?s \<or> s = s2"
    using assms st en by (auto simp: archive_new_def Let_def split: if_splits sum.splits)
  ultimately show ?thesis using fresh by auto
qed

lemma started_ok:
  assumes "focld_start X config b w = (Inr (s, b', p), w')" "bg_aborted b = []"
  obtains cfg where "focl_load (dx_read_config X) (dx_from_toml X) (kx_net_parse (dx_bgp X)) config = Inr cfg"
    "daemon_ok (dx_archive X) (fc_archive cfg) (bg_global_asn b') (bg_router_id b') (bg_prefixes b')
       \<lparr>sh_service = s, sh_store = w', sh_bgp = b', sh_shutdown = 0\<rparr>"
proof -
  from assms(1) obtain cfg rid w1 where load: "focl_load (dx_read_config X) (dx_from_toml X) (kx_net_parse (dx_bgp X)) config = Inr cfg"
    and an: "archive_new (dx_archive X) (fc_archive cfg) rid w = (Inr s, w1)" and bn: "bgp_new (dx_bgp X) cfg b = Inr b'"
    unfolding focld_start_def by (auto simp: io_simps)
  have "focl_validate (kx_net_parse (dx_bgp X)) cfg = Inr ()" using load by (auto simp: focl_load_def bind_res_Inr)
  from conjunct2 [OF bgp_new_starts [OF this assms(2)], rule_format, OF bn] have "peers_ok b'" by blast
  with archive_new_service [OF an] archive_new_unwritten [OF an] load show ?thesis
    by (intro that [of cfg]) (simp_all add: daemon_ok_def shared_ok_def)
qed

lemma daemon_steps_ok:
  assumes "(daemon_step X)\<^sup>*\<^sup>* s s'" "daemon_ok (dx_archive X) cfg asn rid ps s"
  shows "daemon_ok (dx_archive X) cfg asn rid ps s'"
  using assms by (induction rule: rtranclp_induct) (auto intro: daemon_step_ok)

text \<open>
  C10: the daemon stays in order for all its life. When it has started, on whatever environment,
  then after any number of ticks, replication rounds, sections of peer tasks and requests, in
  any order and with any calls failing, the invariants of the archive service and of the table
  of the peers hold, and archive configuration, AS number, router id and prefixes are still
  those of the configuration that was loaded.
\<close>

theorem daemon_stays_in_order:
  assumes "focld_start X config b w = (Inr (s, b', p), w')" "bg_aborted b = []"
    and "(daemon_step X)\<^sup>*\<^sup>* \<lparr>sh_service = s, sh_store = w', sh_bgp = b', sh_shutdown = 0\<rparr> sh"
  shows "\<exists>cfg. focl_load (dx_read_config X) (dx_from_toml X) (kx_net_parse (dx_bgp X)) config = Inr cfg \<and>
    shared_ok (dx_archive X) (fc_archive cfg) (bg_global_asn b') (bg_router_id b') (bg_prefixes b') sh"
  using started_ok [OF assms(1,2)] daemon_steps_ok [OF assms(3)] unfolding daemon_ok_def by metis


section \<open>Witnesses\<close>

lemma demo_started:
  obtains s b' w' sw where
    "focld_start demo_daemon ''focl.toml'' (demo_bgp []) (demo_env Map.empty) = (Inr (s, b', default_control_socket), w')"
    "av_updates_writer s = Some sw"
proof -
  have load: "focl_load (dx_read_config demo_daemon) (dx_from_toml demo_daemon) (kx_net_parse (dx_bgp demo_daemon)) ''focl.toml'' =
      Inr demo_config"
    using demo_config_valid by (simp add: focl_load_def with_context_def)
  have cfg: "fc_archive demo_config = demo_archive" "fc_prefixes demo_config = []"
    "gc_control_socket (fc_global demo_config) = default_control_socket"
    by (simp_all add: demo_config_def demo_archive_def)
  have "\<exists>p. segment_paths gregorian demo_archive Updates 1700000200 = Inr p"
    by (rule segment_paths_default [OF demo_archive_simps(2)]) auto
  then show thesis
    using focld_start_runs [of "demo_env Map.empty" demo_daemon "''focl.toml''" demo_config "demo_bgp []"] load cfg that
    by auto
qed

text \<open>A reset of the one peer, as a step of the running daemon.\<close>

definition demo_reset :: control_request where
  "demo_reset = \<lparr>req_version = 1, req_id = ''r'', req_cmd = ''peer_reset'', req_args = peer_arg (pc_address demo_peer)\<rparr>"

lemma demo_step: "daemon_step demo_daemon s (cn_shared (snd (respond demo_daemon demo_reset ((demo_client default_archive [])\<lparr>cn_shared := s\<rparr>))))"
  by (rule daemon_step.requested [where w = "(demo_client default_archive [])\<lparr>cn_shared := s\<rparr>" and req = demo_reset])
     (simp, rule prod.collapse [symmetric])

theorem daemon_stays_in_order_witness:
  "\<exists>s b' p w' cfg sh. focld_start demo_daemon ''focl.toml'' (demo_bgp []) (demo_env Map.empty) = (Inr (s, b', p), w') \<and>
     daemon_step demo_daemon \<lparr>sh_service = s, sh_store = w', sh_bgp = b', sh_shutdown = 0\<rparr> sh \<and>
     shared_ok demo_archive_ext cfg (bg_global_asn b') (bg_router_id b') (bg_prefixes b') sh"
proof -
  obtain s b' w' where st: "focld_start demo_daemon ''focl.toml'' (demo_bgp []) (demo_env Map.empty) =
      (Inr (s, b', default_control_socket), w')" by (rule demo_started)
  note step = demo_step [of "\<lparr>sh_service = s, sh_store = w', sh_bgp = b', sh_shutdown = 0\<rparr>"]
  from daemon_stays_in_order [OF st _ r_into_rtranclp [of "daemon_step demo_daemon", OF step]] show ?thesis
    using st step by (metis demo_bgp_simps(8) demo_daemon_simps(1))
qed


end
